(* ===== verification/Prelude.thy ===== *)
theory Prelude
  imports Main "HOL-Library.Word" "HOL-Library.AList"
begin

text \<open>
  Shared vocabulary of the development: the lemma collections, the integer
  types of \<^verbatim>\<open>include/isml/base_types.hpp\<close>, the outcome of an operation that may
  throw, and generic facts about lists and association lists.

  A \<^verbatim>\<open>std::unordered_map\<close> whose iteration order matters is an association list
  with distinct keys, listed in the order an iteration visits it.  The order is
  unspecified in C++; the statements of this development quantify over every
  such list.
\<close>

named_theorems swap_simps \<open>byte images of machine words and their reversals\<close>
named_theorems codec_simps \<open>evaluation of the binary codec on the shapes of values\<close>
named_theorems inv_intros \<open>an operation keeps its component's invariant\<close>
named_theorems state_simps \<open>what an operation does to the projections of its state\<close>

subsection \<open>Types of base\_types.hpp\<close>

type_synonym byte = "8 word"
type_synonym message_type = "16 word"
type_synonym message_length = "16 word"
type_synonym message_id = "32 word"
type_synonym session_id = "64 word"

definition k_bad_msg_id :: message_id where
  "k_bad_msg_id = 0"

definition kBadSessionId :: session_id where
  "kBadSessionId = 0"

subsection \<open>Insertion into a doubly linked list\<close>

text \<open>
  \<^verbatim>\<open>list.insert(pos, x)\<close> puts \<open>x\<close> in front of the element \<open>pos\<close> points to; a
  position is the number of elements before it.
\<close>

definition list_insert :: "nat \<Rightarrow> 'a \<Rightarrow> 'a list \<Rightarrow> 'a list" where
  "list_insert pos x xs = take pos xs @ x # drop pos xs"

lemma list_insert_0 [simp]: "list_insert 0 x xs = x # xs"
  by (simp add: list_insert_def)

lemma list_insert_pred_last [simp]:
  "list_insert (length xs) x (xs @ [y]) = xs @ [x, y]"
  by (simp add: list_insert_def)

lemma set_list_insert [simp]: "set (list_insert pos x xs) = insert x (set xs)"
  unfolding list_insert_def by (metis Un_insert_right append_take_drop_id list.simps(15) set_append)

lemma length_list_insert [simp]: "length (list_insert pos x xs) = Suc (length xs)"
  by (simp add: list_insert_def)

lemma distinct_list_insert [simp]:
  "distinct (list_insert pos x xs) \<longleftrightarrow> x \<notin> set xs \<and> distinct xs"
proof -
  have "distinct (ys @ x # zs) \<longleftrightarrow> distinct (x # (ys @ zs))" for ys zs :: "'a list"
    by auto
  from this [of "take pos xs" "drop pos xs"] show ?thesis
    by (simp only: list_insert_def append_take_drop_id distinct.simps)
qed

lemma map_list_insert [simp]:
  "map f (list_insert pos x xs) = list_insert pos (f x) (map f xs)"
  by (simp add: list_insert_def take_map drop_map)

lemma map_of_list_insert:
  assumes "k \<notin> fst ` set al"
  shows "map_of (list_insert pos (k, v) al) = (map_of al)(k \<mapsto> v)"
proof -
  have "map_of (us @ (k, v) # ws) = (map_of (us @ ws))(k \<mapsto> v)"
    if "k \<notin> fst ` set (us @ ws)" for us ws
    using that by (induction us) (auto simp: fun_upd_twist)
  from this [of "take pos al" "drop pos al", unfolded append_take_drop_id, OF assms] show ?thesis
    by (simp only: list_insert_def)
qed

subsection \<open>Association lists\<close>

text \<open>
  \<^verbatim>\<open>unordered_map::insert\<close> keeps an entry that is already there,
  \<^verbatim>\<open>operator[]\<close> followed by an assignment replaces it (\<^const>\<open>AList.update\<close>) and
  \<^verbatim>\<open>erase\<close> removes it (\<^const>\<open>AList.delete\<close>).
\<close>

definition al_insert :: "'k \<Rightarrow> 'v \<Rightarrow> ('k \<times> 'v) list \<Rightarrow> ('k \<times> 'v) list" where
  "al_insert k v al = (if map_of al k = None then al @ [(k, v)] else al)"

definition al_contains :: "('k \<times> 'v) list \<Rightarrow> 'k \<Rightarrow> bool" where
  "al_contains al k \<longleftrightarrow> map_of al k \<noteq> None"

lemma map_of_al_insert [simp]:
  "map_of (al_insert k v al) =
     (if map_of al k = None then (map_of al)(k \<mapsto> v) else map_of al)"
  by (auto simp: al_insert_def fun_eq_iff map_add_def split: option.splits)

lemma keys_al_insert [simp]: "fst ` set (al_insert k v al) = insert k (fst ` set al)"
  by (auto simp: al_insert_def map_of_eq_None_iff)

lemma distinct_keys_al_insert [simp]:
  "distinct (map fst (al_insert k v al)) \<longleftrightarrow> distinct (map fst al)"
  by (auto simp: al_insert_def map_of_eq_None_iff)

lemma al_contains_iff: "al_contains al k \<longleftrightarrow> k \<in> fst ` set al"
  by (auto simp: al_contains_def map_of_eq_None_iff)

lemma al_contains_insert [simp]:
  "al_contains (al_insert k v al) k' \<longleftrightarrow> k' = k \<or> al_contains al k'"
  by (auto simp: al_contains_def)

lemma al_contains_delete [simp]:
  "al_contains (AList.delete k al) k' \<longleftrightarrow> k' \<noteq> k \<and> al_contains al k'"
  by (auto simp: al_contains_def delete_conv')

lemma al_contains_update [simp]:
  "al_contains (AList.update k v al) k' \<longleftrightarrow> k' = k \<or> al_contains al k'"
  by (auto simp: al_contains_def update_conv')

lemma distinct_keys_delete [simp]:
  "distinct (map fst al) \<Longrightarrow> distinct (map fst (AList.delete k al))"
  by (simp add: delete_keys distinct_removeAll)

lemma keys_delete [simp]: "fst ` set (AList.delete k al) = fst ` set al - {k}"
  by (induction al) auto

lemma set_delete_subset: "set (AList.delete k al) \<subseteq> set al"
  by (induction al) auto

lemma set_update_subset: "set (AList.update k v al) \<subseteq> insert (k, v) (set al)"
  by (induction al) auto

subsection \<open>Folds\<close>

lemma foldl_Cons_rev: "foldl (\<lambda>acc x. f x # acc) acc xs = rev (map f xs) @ acc"
  by (induction xs arbitrary: acc) auto

subsection \<open>Steps\<close>

text \<open>A predicate that every step of a program preserves holds of all that follows.\<close>

locale stable =
  fixes step :: "'s \<Rightarrow> 's \<Rightarrow> bool" and P :: "'s \<Rightarrow> bool"
  assumes step_keeps: "step s s' \<Longrightarrow> P s \<Longrightarrow> P s'"
begin

lemma stays: "step\<^sup>*\<^sup>* s s' \<Longrightarrow> P s \<Longrightarrow> P s'"
  by (induction rule: rtranclp_induct) (auto dest: step_keeps)

end

end
