(* ===== verification/Exceptions.thy ===== *)
theory Exceptions
  imports Prelude
begin

text \<open>
  The exception classes of \<^verbatim>\<open>include/isml/exceptions.hpp\<close> and
  \<^verbatim>\<open>include/isml/message/exceptions.hpp\<close>, the standard exceptions the library
  meets, and what \<^verbatim>\<open>catch (const std::exception&)\<close> and \<^verbatim>\<open>catch (...)\<close> catch.
\<close>

subsection \<open>Classes\<close>

text \<open>
  The constructors up to \<open>TransportStateException\<close> are those of exceptions.hpp in
  their order, the next four those of message/exceptions.hpp; the \<open>Std\<close> ones are
  the standard library's, and \<open>Foreign\<close> is a thrown value outside the
  \<^verbatim>\<open>std::exception\<close> hierarchy.
\<close>

datatype exn_class =
    Exception | SystemException
  | IOException | LogicException | RuntimeException
  | MessageException | SessionException | NetworkException
  | NotImplementedException | TypeDomainException | ValidationException
  | ConverterException | NullPointerException | InternalError
  | ConfigurationException | ExecutorException | InvalidCastException
  | InvalidOperationException | InvalidArgumentException
  | FilesystemException | FileNotFoundException | SecurityException
  | DatabaseException | SqlException | MalformedUrlException
  | TransportException | TransportStateException
  | UnknownMessageTypeException | FieldDoesNotExistException
  | DuplicateFieldException | InconsistentProtocolVersionException
  | StdException | StdSystemError | StdFutureError | StdBadFunctionCall
  | StdBadAnyCast | StdBadVariantAccess | StdInvalidArgument | StdOutOfRange
  | StdLogicError | StdRuntimeError
  | Foreign

fun base_class :: "exn_class \<Rightarrow> exn_class option" where
  "base_class Exception = Some StdException"
| "base_class SystemException = Some Exception"
| "base_class IOException = Some Exception"
| "base_class LogicException = Some Exception"
| "base_class RuntimeException = Some Exception"
| "base_class MessageException = Some RuntimeException"
| "base_class SessionException = Some RuntimeException"
| "base_class NetworkException = Some SystemException"
| "base_class NotImplementedException = Some RuntimeException"
| "base_class TypeDomainException = Some RuntimeException"
| "base_class ValidationException = Some RuntimeException"
| "base_class ConverterException = Some RuntimeException"
| "base_class NullPointerException = Some RuntimeException"
| "base_class InternalError = Some Exception"
| "base_class ConfigurationException = Some RuntimeException"
| "base_class ExecutorException = Some RuntimeException"
| "base_class InvalidCastException = Some RuntimeException"
| "base_class InvalidOperationException = Some RuntimeException"
| "base_class InvalidArgumentException = Some RuntimeException"
| "base_class FilesystemException = Some IOException"
| "base_class FileNotFoundException = Some FilesystemException"
| "base_class SecurityException = Some RuntimeException"
| "base_class DatabaseException = Some RuntimeException"
| "base_class SqlException = Some DatabaseException"
| "base_class MalformedUrlException = Some IOException"
| "base_class TransportException = Some IOException"
| "base_class TransportStateException = Some TransportException"
| "base_class UnknownMessageTypeException = Some MessageException"
| "base_class FieldDoesNotExistException = Some MessageException"
| "base_class DuplicateFieldException = Some MessageException"
| "base_class InconsistentProtocolVersionException = Some MessageException"
| "base_class StdException = None"
| "base_class StdSystemError = Some StdRuntimeError"
| "base_class StdFutureError = Some StdLogicError"
| "base_class StdBadFunctionCall = Some StdException"
| "base_class StdBadAnyCast = Some StdException"
| "base_class StdBadVariantAccess = Some StdException"
| "base_class StdInvalidArgument = Some StdLogicError"
| "base_class StdOutOfRange = Some StdLogicError"
| "base_class StdLogicError = Some StdException"
| "base_class StdRuntimeError = Some StdException"
| "base_class Foreign = None"

text \<open>
  The hierarchy is a forest: a rank that grows towards the leaves makes the walk
  to the root terminate.
\<close>

definition class_rank :: "exn_class \<Rightarrow> nat" where
  "class_rank c =
     (if c = StdException \<or> c = Foreign then 0
      else if base_class c = Some StdException then 1
      else if base_class c = Some Exception \<or> base_class c = Some StdLogicError
              \<or> base_class c = Some StdRuntimeError then 2
      else if base_class c = Some RuntimeException \<or> base_class c = Some IOException
              \<or> base_class c = Some SystemException then 3
      else 4)"

lemma class_rank_base: "base_class c = Some b \<Longrightarrow> class_rank b < class_rank c"
  by (cases c) (auto simp: class_rank_def)

function ancestors :: "exn_class \<Rightarrow> exn_class list" where
  "ancestors c = c # (case base_class c of None \<Rightarrow> [] | Some b \<Rightarrow> ancestors b)"
  by pat_completeness auto
termination
  by (relation "measure class_rank") (auto simp: class_rank_base)

declare ancestors.simps [simp del]

definition is_a :: "exn_class \<Rightarrow> exn_class \<Rightarrow> bool" where
  "is_a c d \<longleftrightarrow> d \<in> set (ancestors c)"

lemma is_a_refl [simp]: "is_a c c"
  by (simp add: is_a_def ancestors.simps [of c])

lemma is_a_unfold: "is_a c d \<longleftrightarrow> c = d \<or> (\<exists>b. base_class c = Some b \<and> is_a b d)"
  by (auto simp: is_a_def ancestors.simps [of c] split: option.splits)

lemma is_a_trans: "is_a c d \<Longrightarrow> is_a d e \<Longrightarrow> is_a c e"
proof (induction c rule: ancestors.induct)
  case (1 c)
  then show ?case by (metis is_a_unfold)
qed

text \<open>Every class but \<open>Foreign\<close> is caught by a handler for \<^verbatim>\<open>std::exception\<close>.\<close>

lemma is_a_std_exception: "is_a c StdException \<longleftrightarrow> c \<noteq> Foreign"
  by (cases c) (simp_all add: is_a_def ancestors.simps)

subsection \<open>Exception objects\<close>

datatype error_category = SystemCategory | GenericCategory | AsioCategory | FutureCategory

record error_code =
  ec_value :: int
  ec_category :: error_category

datatype exn_payload =
    NoPayload
  | ErrorCode error_code
  | MessageTypeInfo message_type
  | FieldInfo string session_id message_id
  | FieldNameInfo string

record exn =
  ex_class :: exn_class
  ex_message :: string
  ex_payload :: exn_payload

text \<open>
  Besides throwing, an operation can leave what C++ defines: those ends are values
  too, so that a theorem can say that they do not happen, or that they do.
  \<open>IllTyped\<close> marks value shapes the C++ type checker excludes.
\<close>

datatype fault =
    IndeterminateValue \<comment> \<open>a variable is read before it was given a value\<close>
  | InvalidBool        \<comment> \<open>the byte of a \<^verbatim>\<open>bool\<close> is neither 0 nor 1\<close>
  | NullDereference
  | DanglingReference
  | BufferOverflow
  | AssertionFailure   \<comment> \<open>\<^verbatim>\<open>assert\<close> in a build without \<^verbatim>\<open>NDEBUG\<close>\<close>
  | TerminateCalled    \<comment> \<open>an exception leaves a \<^verbatim>\<open>noexcept\<close> function\<close>
  | IllTyped

datatype failure = Thrown exn | Fault fault

type_synonym 'a outcome = "failure + 'a"

definition bind_outcome :: "'a outcome \<Rightarrow> ('a \<Rightarrow> 'b outcome) \<Rightarrow> 'b outcome" where
  "bind_outcome m f = (case m of Inl e \<Rightarrow> Inl e | Inr x \<Rightarrow> f x)"

lemma bind_outcome_simps [simp]:
  "bind_outcome (Inl e) f = Inl e"
  "bind_outcome (Inr x) f = f x"
  by (simp_all add: bind_outcome_def)

lemma bind_outcome_assoc:
  "bind_outcome (bind_outcome m f) g = bind_outcome m (\<lambda>x. bind_outcome (f x) g)"
  by (cases m) auto

lemma bind_outcome_eq_Inr:
  "bind_outcome m f = Inr y \<longleftrightarrow> (\<exists>x. m = Inr x \<and> f x = Inr y)"
  by (cases m) auto

lemma bind_outcome_cong [fundef_cong]:
  "m = m' \<Longrightarrow> (\<And>x. m' = Inr x \<Longrightarrow> f x = f' x) \<Longrightarrow> bind_outcome m f = bind_outcome m' f'"
  by (cases m') auto

definition mk_exn :: "exn_class \<Rightarrow> string \<Rightarrow> exn" where
  "mk_exn c msg = \<lparr>ex_class = c, ex_message = msg, ex_payload = NoPayload\<rparr>"

definition mk_system_exn :: "string \<Rightarrow> error_code \<Rightarrow> exn" where
  "mk_system_exn msg ec =
     \<lparr>ex_class = SystemException, ex_message = msg, ex_payload = ErrorCode ec\<rparr>"

definition mk_unknown_message_type :: "string \<Rightarrow> message_type \<Rightarrow> exn" where
  "mk_unknown_message_type msg t =
     \<lparr>ex_class = UnknownMessageTypeException, ex_message = msg, ex_payload = MessageTypeInfo t\<rparr>"

definition mk_field_does_not_exist ::
  "string \<Rightarrow> string \<Rightarrow> session_id \<Rightarrow> message_id \<Rightarrow> exn" where
  "mk_field_does_not_exist msg name sid mid =
     \<lparr>ex_class = FieldDoesNotExistException, ex_message = msg, ex_payload = FieldInfo name sid mid\<rparr>"

definition mk_duplicate_field :: "string \<Rightarrow> string \<Rightarrow> exn" where
  "mk_duplicate_field msg name =
     \<lparr>ex_class = DuplicateFieldException, ex_message = msg, ex_payload = FieldNameInfo name\<rparr>"

text \<open>What holds of the result, if there is one.\<close>

definition yields :: "('a \<Rightarrow> bool) \<Rightarrow> 'a outcome \<Rightarrow> bool" where
  "yields P m \<longleftrightarrow> (\<forall>x. m = Inr x \<longrightarrow> P x)"

lemma yields_simps [simp]:
  "yields P (Inl e)"
  "yields P (Inr x) \<longleftrightarrow> P x"
  by (simp_all add: yields_def)

lemma yields_bind:
  "yields Q m \<Longrightarrow> (\<And>x. Q x \<Longrightarrow> yields P (f x)) \<Longrightarrow> yields P (bind_outcome m f)"
  by (cases m) auto

lemma yieldsD: "yields P m \<Longrightarrow> m = Inr x \<Longrightarrow> P x"
  by simp

text \<open>\<^verbatim>\<open>failwith(msg)\<close> and \<^verbatim>\<open>failwith<E>(msg)\<close>.\<close>

definition failwith :: "string \<Rightarrow> 'a outcome" where
  "failwith msg = Inl (Thrown (mk_exn RuntimeException msg))"

definition failwith_as :: "exn_class \<Rightarrow> string \<Rightarrow> 'a outcome" where
  "failwith_as c msg = Inl (Thrown (mk_exn c msg))"

text \<open>\<^verbatim>\<open>raise_ptr<E>(args)\<close> throws and catches the exception to get hold of it.\<close>

definition raise_ptr :: "exn_class \<Rightarrow> string \<Rightarrow> exn" where
  "raise_ptr c msg = (case (failwith_as c msg :: unit outcome) of Inl (Thrown e) \<Rightarrow> e | _ \<Rightarrow> mk_exn StdException [])"

definition caught_by :: "exn_class \<Rightarrow> exn \<Rightarrow> bool" where
  "caught_by c e \<longleftrightarrow> is_a (ex_class e) c"

abbreviation caught_as_std :: "exn \<Rightarrow> bool" where
  "caught_as_std e \<equiv> caught_by StdException e"

lemma caught_as_std_iff: "caught_as_std e \<longleftrightarrow> ex_class e \<noteq> Foreign"
  by (simp add: caught_by_def is_a_std_exception)

text \<open>What a handler \<^verbatim>\<open>catch (const std::exception&)\<close> or \<^verbatim>\<open>catch (...)\<close> stops.\<close>

definition caught_std :: "failure \<Rightarrow> bool" where
  "caught_std f = (case f of Thrown e \<Rightarrow> caught_as_std e | Fault _ \<Rightarrow> False)"

definition caught_all :: "failure \<Rightarrow> bool" where
  "caught_all f = (case f of Thrown e \<Rightarrow> True | Fault _ \<Rightarrow> False)"

lemma caught_simps [simp]:
  "caught_std (Thrown e) \<longleftrightarrow> ex_class e \<noteq> Foreign"
  "\<not> caught_std (Fault x)"
  "caught_all (Thrown e)"
  "\<not> caught_all (Fault x)"
  by (simp_all add: caught_std_def caught_all_def caught_as_std_iff)

lemma ex_class_mk_exn [simp]: "ex_class (mk_exn c msg) = c"
  by (simp add: mk_exn_def)

lemma raise_ptr_eq: "raise_ptr c msg = mk_exn c msg"
  by (simp add: raise_ptr_def failwith_as_def)

end
