(* ===== verification/Serialization_Context.thy ===== *)
theory Serialization_Context
  imports Exceptions
begin

text \<open>
  \<^verbatim>\<open>include/isml/serialization/serialization_context.hpp\<close> and
  \<^verbatim>\<open>serializer_traits.hpp\<close>: a context pairs the tag of the serializer with a
  type-erased input/output object, and \<^verbatim>\<open>stream<T>()\<close> recovers the object after a
  comparison of \<^verbatim>\<open>typeid\<close>s.
\<close>

subsection \<open>std::stringstream\<close>

text \<open>
  A string stream is the sequence of characters written and not yet read, and
  whether its state is good.  \<^verbatim>\<open>write\<close> does nothing on a failed stream.  A
  \<^verbatim>\<open>read\<close> of more characters than there are extracts all of them and fails the
  stream; on a failed stream it extracts nothing.  The library only writes to
  streams it created empty and only reads those it created full, so the two
  positions of the C++ object need not be told apart.
\<close>

record sstream =
  sbuf :: "byte list"
  sgood :: bool

definition empty_stream :: sstream where
  "empty_stream = \<lparr>sbuf = [], sgood = True\<rparr>"

definition stream_write :: "byte list \<Rightarrow> sstream \<Rightarrow> sstream" where
  "stream_write bs s = (if sgood s then s\<lparr>sbuf := sbuf s @ bs\<rparr> else s)"

definition stream_read :: "nat \<Rightarrow> sstream \<Rightarrow> byte list \<times> sstream" where
  "stream_read n s =
     (if \<not> sgood s then ([], s)
      else (take n (sbuf s),
            s\<lparr>sbuf := drop n (sbuf s), sgood := (n \<le> length (sbuf s))\<rparr>))"

lemma sgood_write [simp]: "sgood (stream_write bs s) = sgood s"
  by (simp add: stream_write_def)

lemma sbuf_write [simp]: "sgood s \<Longrightarrow> sbuf (stream_write bs s) = sbuf s @ bs"
  by (simp add: stream_write_def)

lemma stream_write_Nil [simp]: "stream_write [] s = s"
  by (simp add: stream_write_def)

lemma stream_write_write [simp]:
  "stream_write cs (stream_write bs s) = stream_write (bs @ cs) s"
  by (simp add: stream_write_def)

lemma stream_read_exact [simp]:
  "length bs = n \<Longrightarrow>
   stream_read n \<lparr>sbuf = bs @ rest, sgood = True\<rparr> = (bs, \<lparr>sbuf = rest, sgood = True\<rparr>)"
  by (simp add: stream_read_def)

subsection \<open>Contexts\<close>

text \<open>
  \<open>SerializerTag<S>\<close> is an empty struct whose \<^verbatim>\<open>typeid\<close> identifies the serializer;
  the input/output object is a \<^verbatim>\<open>std::stringstream\<close> for the binary serializer and
  an object of some other type for a custom one.
\<close>

datatype serializer_tag = BinarySerializerTag | JsonSerializerTag | CustomSerializerTag nat

datatype io_type = StringStreamType | JsonValueType | OtherIoType nat

datatype io_object = IoStringStream sstream | IoJson nat | IoOther nat nat

fun typeid_io :: "io_object \<Rightarrow> io_type" where
  "typeid_io (IoStringStream s) = StringStreamType"
| "typeid_io (IoJson j) = JsonValueType"
| "typeid_io (IoOther t x) = OtherIoType t"

record serialization_context =
  m_serializer_type :: serializer_tag
  m_io_type :: io_type
  m_io :: io_object

text \<open>\<^verbatim>\<open>SerializationContext::create<Serializer>(io)\<close>\<close>

definition context_create :: "serializer_tag \<Rightarrow> io_object \<Rightarrow> serialization_context" where
  "context_create tag obj =
     \<lparr>m_serializer_type = tag, m_io_type = typeid_io obj, m_io = obj\<rparr>"

definition serializerTag :: "serialization_context \<Rightarrow> serializer_tag" where
  "serializerTag ctx = m_serializer_type ctx"

text \<open>
  \<^verbatim>\<open>context.stream<std::stringstream>()\<close>.  The last branch is a
  \<^verbatim>\<open>reinterpret_cast\<close> of an object of another type, which the recorded type
  excludes for every context \<open>context_create\<close> makes.
\<close>

definition context_stream :: "serialization_context \<Rightarrow> sstream outcome" where
  "context_stream ctx =
     (if m_io_type ctx \<noteq> StringStreamType
      then Inl (Thrown (mk_exn InvalidCastException ''Invalid cast''))
      else case m_io ctx of IoStringStream s \<Rightarrow> Inr s | _ \<Rightarrow> Inl (Fault IllTyped))"

text \<open>The stream is passed by reference: an update of it is an update of the context.\<close>

definition context_with_stream :: "serialization_context \<Rightarrow> sstream \<Rightarrow> serialization_context" where
  "context_with_stream ctx s = ctx\<lparr>m_io := IoStringStream s\<rparr>"

definition context_consistent :: "serialization_context \<Rightarrow> bool" where
  "context_consistent ctx \<longleftrightarrow> m_io_type ctx = typeid_io (m_io ctx)"

lemma context_consistent_create [simp]: "context_consistent (context_create tag obj)"
  by (simp add: context_consistent_def context_create_def)

lemma serializerTag_create [simp]: "serializerTag (context_create tag obj) = tag"
  by (simp add: serializerTag_def context_create_def)

lemma context_stream_no_fault:
  "context_consistent ctx \<Longrightarrow> context_stream ctx \<noteq> Inl (Fault f)"
  by (cases "m_io ctx") (auto simp: context_stream_def context_consistent_def)

text \<open>Contexts over a string stream, the ones the transport creates.\<close>

definition stream_context :: "serializer_tag \<Rightarrow> sstream \<Rightarrow> serialization_context" where
  "stream_context tag s = context_create tag (IoStringStream s)"

lemma stream_context_simps [simp]:
  "context_stream (stream_context tag s) = Inr s"
  "context_with_stream (stream_context tag s) s' = stream_context tag s'"
  "serializerTag (stream_context tag s) = tag"
  "context_consistent (stream_context tag s)"
  "stream_context tag s = stream_context tag' s' \<longleftrightarrow> tag = tag' \<and> s = s'"
  by (auto simp: stream_context_def context_stream_def context_create_def
      context_with_stream_def serializerTag_def context_consistent_def)

end
