(* ===== verification/Byte_Utils.thy ===== *)
theory Byte_Utils
  imports Prelude
begin

text \<open>
  \<^verbatim>\<open>include/isml/base/byte.hpp\<close>: the byte reversals the serializer applies on
  big-endian machines, transcribed with their masks and shifts, and the byte
  images of machine words in memory.
\<close>

unbundle bit_operations_syntax

subsection \<open>ByteUtils::swap\<close>

definition swap8 :: "8 word \<Rightarrow> 8 word" where
  "swap8 value = value"

text \<open>
  For a 16-bit operand the masks \<^verbatim>\<open>0xFF00U\<close> and \<^verbatim>\<open>0x00FFU\<close> promote the
  computation to \<^verbatim>\<open>unsigned int\<close>; \<^verbatim>\<open>static_cast<T>\<close> truncates the result.
\<close>

definition swap16 :: "16 word \<Rightarrow> 16 word" where
  "swap16 value =
     (let c = (ucast value :: 32 word);
          r = drop_bit 8 (c AND 0xFF00)
              OR push_bit 8 (c AND 0x00FF)
      in ucast r)"

definition swap32 :: "32 word \<Rightarrow> 32 word" where
  "swap32 value =
     (let c = value;
          r = drop_bit 24 (c AND 0xFF000000)
              OR drop_bit 8 (c AND 0x00FF0000)
              OR push_bit 8 (c AND 0x0000FF00)
              OR push_bit 24 (c AND 0x000000FF)
      in r)"

definition swap64 :: "64 word \<Rightarrow> 64 word" where
  "swap64 value =
     (let c = value;
          r = drop_bit 56 (c AND 0xFF00000000000000)
              OR drop_bit 40 (c AND 0x00FF000000000000)
              OR drop_bit 24 (c AND 0x0000FF0000000000)
              OR drop_bit 8 (c AND 0x000000FF00000000)
              OR push_bit 8 (c AND 0x00000000FF000000)
              OR push_bit 24 (c AND 0x0000000000FF0000)
              OR push_bit 40 (c AND 0x000000000000FF00)
              OR push_bit 56 (c AND 0x00000000000000FF)
      in r)"

text \<open>
  The overload for floating-point types works on the bytes of the object:
  \<^verbatim>\<open>value[i] = original[sizeof(T) - 1 - i]\<close>.
\<close>

definition swap_float_bytes :: "byte list \<Rightarrow> byte list" where
  "swap_float_bytes original = map (\<lambda>i. original ! (length original - 1 - i)) [0..<length original]"

lemma swap_float_bytes_rev: "swap_float_bytes bs = rev bs"
  by (rule nth_equalityI) (auto simp: swap_float_bytes_def rev_nth)

subsection \<open>Byte images\<close>

text \<open>
  \<open>bytes_le w\<close> lists the bytes of \<open>w\<close> from the least significant one;
  \<open>of_bytes_le\<close> reads such a list back.
\<close>

definition bytes_le :: "'a::len word \<Rightarrow> byte list" where
  "bytes_le w = map (\<lambda>i. ucast (drop_bit (8 * i) w)) [0..<LENGTH('a) div 8]"

primrec of_bytes_le :: "byte list \<Rightarrow> 'a::len word" where
  "of_bytes_le [] = 0"
| "of_bytes_le (b # bs) = ucast b OR push_bit 8 (of_bytes_le bs)"

lemma length_bytes_le [simp]: "length (bytes_le (w :: 'a::len word)) = LENGTH('a) div 8"
  by (simp add: bytes_le_def)

lemma bytes_le_nth:
  "i < LENGTH('a) div 8 \<Longrightarrow> bytes_le (w :: 'a::len word) ! i = ucast (drop_bit (8 * i) w)"
  by (simp add: bytes_le_def)

lemma bytes_le_explicit:
  "bytes_le (a :: 8 word) = [a]"
  "bytes_le (b :: 16 word) = [ucast b, ucast (drop_bit 8 b)]"
  "bytes_le (c :: 32 word) =
     [ucast c, ucast (drop_bit 8 c), ucast (drop_bit 16 c), ucast (drop_bit 24 c)]"
  "bytes_le (d :: 64 word) =
     [ucast d, ucast (drop_bit 8 d), ucast (drop_bit 16 d), ucast (drop_bit 24 d),
      ucast (drop_bit 32 d), ucast (drop_bit 40 d), ucast (drop_bit 48 d), ucast (drop_bit 56 d)]"
  by (simp_all add: bytes_le_def upt_rec)

lemma bit_of_bytes_le:
  "bit (of_bytes_le bs :: 'a::len word) n \<longleftrightarrow>
     n < LENGTH('a) \<and> n < 8 * length bs \<and> bit (bs ! (n div 8)) (n mod 8)"
proof (induction bs arbitrary: n)
  case Nil
  show ?case by simp
next
  case (Cons b bs)
  show ?case
  proof (cases "n < 8")
    case True
    then show ?thesis by (auto simp: bit_simps)
  next
    case False
    then obtain m where m: "n = 8 + m"
      using le_Suc_ex not_less by blast
    then have "n div 8 = Suc (m div 8)" "n mod 8 = m mod 8"
      by simp_all
    then show ?thesis
      using Cons.IH [of m] m by (auto simp: bit_simps dest: bit_imp_le_length)
  qed
qed

lemma of_bytes_le_bytes_le:
  "8 dvd LENGTH('a) \<Longrightarrow> of_bytes_le (bytes_le w) = (w :: 'a::len word)"
  by (rule bit_word_eqI)
    (auto simp: bit_of_bytes_le bytes_le_nth bit_simps less_mult_imp_div_less mult.commute)

lemma bytes_le_of_bytes_le:
  assumes "length bs = LENGTH('a) div 8"
  shows "bytes_le (of_bytes_le bs :: 'a::len word) = bs"
proof (rule nth_equalityI)
  show "length (bytes_le (of_bytes_le bs :: 'a word)) = length bs"
    using assms by simp
next
  fix i assume "i < length (bytes_le (of_bytes_le bs :: 'a word))"
  then show "bytes_le (of_bytes_le bs :: 'a word) ! i = bs ! i"
    using assms
    by (intro bit_word_eqI) (auto simp: bit_of_bytes_le bytes_le_nth bit_simps)
qed

lemma of_bytes_le_round [simp]:
  "of_bytes_le (bytes_le (a :: 8 word)) = a"
  "of_bytes_le (bytes_le (b :: 16 word)) = b"
  "of_bytes_le (bytes_le (c :: 32 word)) = c"
  "of_bytes_le (bytes_le (d :: 64 word)) = d"
  by (simp_all add: of_bytes_le_bytes_le)

subsection \<open>The masks select bytes\<close>

lemma byte_masks_32 [swap_simps]:
  "(0xFF00 :: 32 word) = push_bit 8 (mask 8)"
  "(0x00FF :: 32 word) = mask 8"
  "(0xFF000000 :: 32 word) = push_bit 24 (mask 8)"
  "(0x00FF0000 :: 32 word) = push_bit 16 (mask 8)"
  by (simp_all add: mask_eq_exp_minus_1 push_bit_eq_mult)

lemma byte_masks_64 [swap_simps]:
  "(0xFF00000000000000 :: 64 word) = push_bit 56 (mask 8)"
  "(0x00FF000000000000 :: 64 word) = push_bit 48 (mask 8)"
  "(0x0000FF0000000000 :: 64 word) = push_bit 40 (mask 8)"
  "(0x000000FF00000000 :: 64 word) = push_bit 32 (mask 8)"
  "(0x00000000FF000000 :: 64 word) = push_bit 24 (mask 8)"
  "(0x0000000000FF0000 :: 64 word) = push_bit 16 (mask 8)"
  "(0x000000000000FF00 :: 64 word) = push_bit 8 (mask 8)"
  "(0x00000000000000FF :: 64 word) = mask 8"
  by (simp_all add: mask_eq_exp_minus_1 push_bit_eq_mult)

lemma bytes_le_swap8: "bytes_le (swap8 w) = rev (bytes_le w)"
  by (simp add: swap8_def bytes_le_explicit)

lemma bytes_le_swap16: "bytes_le (swap16 w) = rev (bytes_le w)"
  unfolding swap16_def Let_def swap_simps bytes_le_explicit rev.simps append.simps list.inject
  by (intro conjI) ((rule bit_word_eqI; auto simp: bit_simps)+, simp)

lemma bytes_le_swap32: "bytes_le (swap32 w) = rev (bytes_le w)"
  unfolding swap32_def Let_def swap_simps bytes_le_explicit rev.simps append.simps list.inject
  by (intro conjI) ((rule bit_word_eqI; auto simp: bit_simps)+, simp)

lemma bytes_le_swap64: "bytes_le (swap64 w) = rev (bytes_le w)"
  unfolding swap64_def Let_def swap_simps bytes_le_explicit rev.simps append.simps list.inject
  by (intro conjI) ((rule bit_word_eqI; auto simp: bit_simps)+, simp)

subsection \<open>Native memory and the wire\<close>

text \<open>
  The bytes of an object in memory, for its little-endian image: \<open>big\<close> is
  \<^verbatim>\<open>std::endian::native == std::endian::big\<close>.
\<close>

definition native_image :: "bool \<Rightarrow> byte list \<Rightarrow> byte list" where
  "native_image big le = (if big then rev le else le)"

lemma native_image_invol [simp]: "native_image big (native_image big bs) = bs"
  by (simp add: native_image_def)

lemma length_native_image [simp]: "length (native_image big bs) = length bs"
  by (simp add: native_image_def)

text \<open>
  The contract of a reversal towards the serializer: it reverses the byte image.
  Swapping on big-endian machines then makes the bytes in memory the
  little-endian image everywhere, and the operation is its own inverse.
\<close>

locale byte_swap =
  fixes swap :: "'w \<Rightarrow> 'w" and image :: "'w \<Rightarrow> byte list"
  assumes image_swap: "image (swap w) = rev (image w)"
    and image_inj: "image v = image w \<Longrightarrow> v = w"
begin

lemma swap_swap: "swap (swap w) = w"
  by (rule image_inj) (simp add: image_swap)

lemma wire_image: "native_image big (image (if big then swap w else w)) = image w"
  by (simp add: native_image_def image_swap)

end

lemma bytes_le_inj:
  "8 dvd LENGTH('a) \<Longrightarrow> bytes_le v = bytes_le w \<Longrightarrow> v = (w :: 'a::len word)"
  by (metis of_bytes_le_bytes_le)

interpretation bs8: byte_swap swap8 bytes_le
  by unfold_locales (auto simp: bytes_le_swap8 intro: bytes_le_inj)

interpretation bs16: byte_swap swap16 bytes_le
  by unfold_locales (auto simp: bytes_le_swap16 intro: bytes_le_inj)

interpretation bs32: byte_swap swap32 bytes_le
  by unfold_locales (auto simp: bytes_le_swap32 intro: bytes_le_inj)

interpretation bs64: byte_swap swap64 bytes_le
  by unfold_locales (auto simp: bytes_le_swap64 intro: bytes_le_inj)

interpretation bsf: byte_swap swap_float_bytes "\<lambda>bs. bs"
  by unfold_locales (simp_all add: swap_float_bytes_rev)

end
