(* ===== verification/Binary_Serializer.thy ===== *)
theory Binary_Serializer
  imports Serialization_Context Byte_Utils
begin

text \<open>
  \<^verbatim>\<open>include/isml/serialization/serializers/binary_serializer.hpp\<close>.  The template
  dispatches on the static type of the value, here a type code; its
  specialisations are the equations of \<open>binary_serialize\<close>, \<open>binary_deserialize\<close>
  and \<open>binary_size\<close>.
\<close>

subsection \<open>Types and values\<close>

datatype scalar_ty = BoolT | I8 | I16 | I32 | I64 | F32 | F64

datatype scalar =
    SBool bool | SI8 "8 word" | SI16 "16 word" | SI32 "32 word" | SI64 "64 word"
  | SF32 "32 word" | SF64 "64 word"

text \<open>
  Signed and unsigned integers have the same images, so an integer is its bit
  pattern; so is a floating-point number.  \<open>EnumT\<close> carries the underlying type,
  \<open>ObjT\<close> is a \<^verbatim>\<open>Serializable\<close> aggregate that treats its members in order, as
  \<^verbatim>\<open>UserInfo\<close> of the example program does.
\<close>

datatype ty =
    ScalarT scalar_ty | EnumT scalar_ty | PairT ty ty | OptT ty
  | SeqT ty | SetT ty | MapT ty ty | ArrT nat ty | ObjT "ty list"

datatype val =
    VScalar scalar | VEnum scalar
  | VIndet scalar_ty \<comment> \<open>a scalar variable that was declared and not yet given a value\<close>
  | VPair val val | VOpt "val option"
  | VSeq "val list" | VSet "val list" | VMap "val list" | VArr "val list" | VObj "val list"

record platform =
  big_endian :: bool
  ndebug :: bool

abbreviation "intT s \<equiv> ScalarT s"
abbreviation "u16T \<equiv> ScalarT I16"

fun sizeof :: "scalar_ty \<Rightarrow> nat" where
  "sizeof BoolT = 1" | "sizeof I8 = 1" | "sizeof I16 = 2" | "sizeof I32 = 4"
| "sizeof I64 = 8" | "sizeof F32 = 4" | "sizeof F64 = 8"

fun scalar_type :: "scalar \<Rightarrow> scalar_ty" where
  "scalar_type (SBool b) = BoolT" | "scalar_type (SI8 w) = I8" | "scalar_type (SI16 w) = I16"
| "scalar_type (SI32 w) = I32" | "scalar_type (SI64 w) = I64"
| "scalar_type (SF32 w) = F32" | "scalar_type (SF64 w) = F64"

text \<open>The little-endian byte image of a scalar, and its inverse.\<close>

fun scalar_image :: "scalar \<Rightarrow> byte list" where
  "scalar_image (SBool b) = [if b then 1 else 0]"
| "scalar_image (SI8 w) = bytes_le w"
| "scalar_image (SI16 w) = bytes_le w"
| "scalar_image (SI32 w) = bytes_le w"
| "scalar_image (SI64 w) = bytes_le w"
| "scalar_image (SF32 w) = bytes_le w"
| "scalar_image (SF64 w) = bytes_le w"

fun scalar_of_image :: "scalar_ty \<Rightarrow> byte list \<Rightarrow> scalar outcome" where
  "scalar_of_image BoolT bs =
     (if bs = [0] then Inr (SBool False) else if bs = [1] then Inr (SBool True)
      else Inl (Fault InvalidBool))"
| "scalar_of_image I8 bs = Inr (SI8 (of_bytes_le bs))"
| "scalar_of_image I16 bs = Inr (SI16 (of_bytes_le bs))"
| "scalar_of_image I32 bs = Inr (SI32 (of_bytes_le bs))"
| "scalar_of_image I64 bs = Inr (SI64 (of_bytes_le bs))"
| "scalar_of_image F32 bs = Inr (SF32 (of_bytes_le bs))"
| "scalar_of_image F64 bs = Inr (SF64 (of_bytes_le bs))"

lemma length_scalar_image [simp]: "length (scalar_image x) = sizeof (scalar_type x)"
  by (cases x) auto

lemma scalar_of_image_image [simp]:
  "scalar_type x = s \<Longrightarrow> scalar_of_image s (scalar_image x) = Inr x"
  by (cases x) auto

subsection \<open>Scalars: swapBytesIfNeeded, read and write\<close>

text \<open>
  \<^verbatim>\<open>ByteUtils::swap\<close> by overload: one-byte integers and \<^verbatim>\<open>bool\<close> stay, floating-point
  numbers have the bytes of the object reversed.
\<close>

fun swap_scalar :: "scalar \<Rightarrow> scalar" where
  "swap_scalar (SBool b) = SBool b"
| "swap_scalar (SI8 w) = SI8 (swap8 w)"
| "swap_scalar (SI16 w) = SI16 (swap16 w)"
| "swap_scalar (SI32 w) = SI32 (swap32 w)"
| "swap_scalar (SI64 w) = SI64 (swap64 w)"
| "swap_scalar (SF32 w) = SF32 (of_bytes_le (swap_float_bytes (bytes_le w)))"
| "swap_scalar (SF64 w) = SF64 (of_bytes_le (swap_float_bytes (bytes_le w)))"

definition swapBytesIfNeeded :: "platform \<Rightarrow> scalar \<Rightarrow> scalar" where
  "swapBytesIfNeeded pl x = (if big_endian pl then swap_scalar x else x)"

text \<open>\<^verbatim>\<open>stream.write(reinterpret_cast<const char*>(&value), sizeof value)\<close> after the swap\<close>

definition serialize_scalar ::
  "platform \<Rightarrow> scalar \<Rightarrow> serialization_context \<Rightarrow> serialization_context outcome" where
  "serialize_scalar pl x ctx =
     bind_outcome (context_stream ctx) (\<lambda>s.
       let value = swapBytesIfNeeded pl x
       in Inr (context_with_stream ctx
            (stream_write (native_image (big_endian pl) (scalar_image value)) s)))"

text \<open>
  \<^verbatim>\<open>stream.read(reinterpret_cast<char*>(&value), sizeof value)\<close> and the swap.  A
  short read overwrites only the first bytes of \<open>value\<close>; \<open>old\<close> is what the variable
  held, \<open>None\<close> when it holds nothing yet.
\<close>

definition deserialize_scalar ::
  "platform \<Rightarrow> scalar_ty \<Rightarrow> scalar option \<Rightarrow> serialization_context
     \<Rightarrow> (scalar \<times> serialization_context) outcome" where
  "deserialize_scalar pl t old ctx =
     bind_outcome (context_stream ctx) (\<lambda>s.
       let (got, s') = stream_read (sizeof t) s;
           mem = (case old of
                    None \<Rightarrow> if length got = sizeof t then Inr got else Inl (Fault IndeterminateValue)
                  | Some x \<Rightarrow> Inr (got @ drop (length got)
                                     (native_image (big_endian pl) (scalar_image x))))
       in bind_outcome mem (\<lambda>m.
            bind_outcome (scalar_of_image t (native_image (big_endian pl) m)) (\<lambda>value.
              Inr (swapBytesIfNeeded pl value, context_with_stream ctx s'))))"

text \<open>
  Swapping on big-endian hosts cancels the byte order of memory: the wire holds
  the little-endian image.
\<close>

lemma scalar_type_swap [simp]: "scalar_type (swap_scalar x) = scalar_type x"
  by (cases x) auto

lemma image_swap_scalar: "scalar_image (swap_scalar x) = rev (scalar_image x)"
  by (cases x)
    (auto simp: bytes_le_swap8 bytes_le_swap16 bytes_le_swap32 bytes_le_swap64
      swap_float_bytes_rev bytes_le_of_bytes_le)

lemma scalar_image_inj:
  "scalar_image x = scalar_image y \<Longrightarrow> scalar_type x = scalar_type y \<Longrightarrow> x = y"
  by (metis scalar_of_image_image sum.inject(2))

lemma swap_scalar_swap [simp]: "swap_scalar (swap_scalar x) = x"
  by (rule scalar_image_inj) (simp_all add: image_swap_scalar)

lemma wire_scalar_image:
  "native_image (big_endian pl) (scalar_image (swapBytesIfNeeded pl x)) = scalar_image x"
  by (simp add: swapBytesIfNeeded_def native_image_def image_swap_scalar)

lemma serialize_scalar_stream [codec_simps]:
  "serialize_scalar pl x (stream_context tag s)
     = Inr (stream_context tag (stream_write (scalar_image x) s))"
  by (simp add: serialize_scalar_def wire_scalar_image Let_def)

lemma scalar_of_wire_image:
  "scalar_type x = t \<Longrightarrow>
   scalar_of_image t (native_image (big_endian pl) (scalar_image x)) = Inr (swapBytesIfNeeded pl x)"
  by (simp add: native_image_def swapBytesIfNeeded_def flip: image_swap_scalar)

lemma swapBytesIfNeeded_invol [simp]: "swapBytesIfNeeded pl (swapBytesIfNeeded pl x) = x"
  by (simp add: swapBytesIfNeeded_def)

lemma deserialize_scalar_exact [codec_simps]:
  assumes "scalar_type x = t" and "pred_option (\<lambda>y. scalar_type y = t) old"
  shows "deserialize_scalar pl t old
      (stream_context tag \<lparr>sbuf = scalar_image x @ rest, sgood = True\<rparr>)
     = Inr (x, stream_context tag \<lparr>sbuf = rest, sgood = True\<rparr>)"
  using assms by (cases old) (simp_all add: deserialize_scalar_def scalar_of_wire_image)

text \<open>
  On a failed stream a variable that already has a value keeps its bytes and
  nothing is reported; the swap is applied to them all the same.
\<close>

lemma deserialize_scalar_failed [codec_simps]:
  assumes "scalar_type x = t"
  shows "deserialize_scalar pl t (Some x) (stream_context tag \<lparr>sbuf = bs, sgood = False\<rparr>)
     = Inr (swapBytesIfNeeded pl x, stream_context tag \<lparr>sbuf = bs, sgood = False\<rparr>)"
proof -
  have "scalar_of_image t (scalar_image x) = Inr x"
    using assms by simp
  then show ?thesis
    using assms by (simp add: deserialize_scalar_def stream_read_def)
qed

subsection \<open>Initialisation\<close>

text \<open>
  \<open>value_init t\<close> is \<^verbatim>\<open>T{}\<close>; \<open>default_init t\<close> is what the declaration \<^verbatim>\<open>T x;\<close> leaves:
  scalars (also those of an array) have no value yet, class types run their
  default constructors, and \<^verbatim>\<open>std::pair\<close>'s value-initialises both members.
\<close>

fun zero_scalar :: "scalar_ty \<Rightarrow> scalar" where
  "zero_scalar BoolT = SBool False" | "zero_scalar I8 = SI8 0" | "zero_scalar I16 = SI16 0"
| "zero_scalar I32 = SI32 0" | "zero_scalar I64 = SI64 0"
| "zero_scalar F32 = SF32 0" | "zero_scalar F64 = SF64 0"

primrec value_init :: "ty \<Rightarrow> val" where
  "value_init (ScalarT s) = VScalar (zero_scalar s)"
| "value_init (EnumT s) = VEnum (zero_scalar s)"
| "value_init (PairT a b) = VPair (value_init a) (value_init b)"
| "value_init (OptT t) = VOpt None"
| "value_init (SeqT t) = VSeq []"
| "value_init (SetT t) = VSet []"
| "value_init (MapT k v) = VMap []"
| "value_init (ArrT n t) = VArr (replicate n (value_init t))"
| "value_init (ObjT ts) = VObj (map value_init ts)"

primrec default_init :: "ty \<Rightarrow> val" where
  "default_init (ScalarT s) = VIndet s"
| "default_init (EnumT s) = VIndet s"
| "default_init (PairT a b) = VPair (value_init a) (value_init b)"
| "default_init (OptT t) = VOpt None"
| "default_init (SeqT t) = VSeq []"
| "default_init (SetT t) = VSet []"
| "default_init (MapT k v) = VMap []"
| "default_init (ArrT n t) = VArr (replicate n (default_init t))"
| "default_init (ObjT ts) = VObj (map value_init ts)"

subsection \<open>serialize\<close>

text \<open>\<open>for (const auto& item : container) binary::serialize(context, item);\<close>\<close>

primrec serialize_each ::
  "('v \<Rightarrow> 'c \<Rightarrow> 'c outcome) \<Rightarrow> 'v list \<Rightarrow> 'c \<Rightarrow> 'c outcome" where
  "serialize_each f [] ctx = Inr ctx"
| "serialize_each f (v # vs) ctx = bind_outcome (f v ctx) (serialize_each f vs)"

lemma serialize_each_cong [fundef_cong]:
  "vs = vs' \<Longrightarrow> ctx = ctx' \<Longrightarrow> (\<And>v c. v \<in> set vs' \<Longrightarrow> f v c = g v c) \<Longrightarrow>
   serialize_each f vs ctx = serialize_each g vs' ctx'"
proof (induction vs arbitrary: vs' ctx ctx')
  case (Cons v vs)
  then have "serialize_each f vs c = serialize_each g vs c" for c
    by auto
  with Cons.prems show ?case by (auto intro!: bind_outcome_cong)
qed simp

text \<open>
  \<^verbatim>\<open>static constexpr std::uint64_t max_container_size = ~static_cast<ContainerSize>(0);\<close>
  The operand of \<^verbatim>\<open>~\<close> is promoted to \<^verbatim>\<open>int\<close> first, and the conversion of the
  negative result extends its sign.
\<close>

definition max_container_size :: "64 word" where
  "max_container_size = scast (NOT (ucast (0 :: 16 word) :: 32 word))"

lemma unat_max_container_size: "unat max_container_size = 2 ^ 64 - 1"
  by (simp add: max_container_size_def unsigned_minus_1_eq_mask mask_eq_exp_minus_1)

text \<open>\<^verbatim>\<open>static_cast<ContainerSize>(container.size())\<close>\<close>

definition container_size :: "nat \<Rightarrow> scalar" where
  "container_size n = SI16 (of_nat n)"

fun binary_serialize ::
  "platform \<Rightarrow> val \<Rightarrow> serialization_context \<Rightarrow> serialization_context outcome" where
  "binary_serialize pl (VScalar x) ctx = serialize_scalar pl x ctx"
| "binary_serialize pl (VEnum x) ctx = serialize_scalar pl x ctx"
| "binary_serialize pl (VIndet s) ctx = Inl (Fault IndeterminateValue)"
| "binary_serialize pl (VPair a b) ctx =
     bind_outcome (binary_serialize pl a ctx) (binary_serialize pl b)"
| "binary_serialize pl (VOpt opt) ctx =
     bind_outcome (serialize_scalar pl (swapBytesIfNeeded pl (SBool (opt \<noteq> None))) ctx) (\<lambda>ctx'.
       case opt of None \<Rightarrow> Inr ctx' | Some v \<Rightarrow> binary_serialize pl v ctx')"
| "binary_serialize pl (VSeq vs) ctx =
     (if \<not> ndebug pl \<and> length vs > unat max_container_size then Inl (Fault AssertionFailure)
      else bind_outcome (serialize_scalar pl (container_size (length vs)) ctx)
             (serialize_each (binary_serialize pl) vs))"
| "binary_serialize pl (VSet vs) ctx =
     bind_outcome (serialize_scalar pl (container_size (length vs)) ctx)
       (serialize_each (binary_serialize pl) vs)"
| "binary_serialize pl (VMap vs) ctx =
     bind_outcome (serialize_scalar pl (container_size (length vs)) ctx)
       (serialize_each (binary_serialize pl) vs)"
| "binary_serialize pl (VArr vs) ctx =
     bind_outcome (serialize_scalar pl (container_size (length vs)) ctx)
       (serialize_each (binary_serialize pl) vs)"
| "binary_serialize pl (VObj vs) ctx = serialize_each (binary_serialize pl) vs ctx"

subsection \<open>size\<close>

text \<open>
  \<^verbatim>\<open>std::accumulate(begin, end, sizeof(ContainerSize), ...)\<close>.  The type
  \<^verbatim>\<open>std::size_t\<close> of the sum has 64 bits; a value held in memory cannot exceed it.
\<close>

fun binary_size :: "val \<Rightarrow> nat" where
  "binary_size (VScalar x) = sizeof (scalar_type x)"
| "binary_size (VEnum x) = sizeof (scalar_type x)"
| "binary_size (VIndet s) = sizeof s"
| "binary_size (VPair a b) = binary_size a + binary_size b"
| "binary_size (VOpt opt) =
     sizeof BoolT + (case opt of None \<Rightarrow> 0 | Some v \<Rightarrow> binary_size v)"
| "binary_size (VSeq vs) = foldl (\<lambda>sum v. sum + binary_size v) (sizeof I16) vs"
| "binary_size (VSet vs) = foldl (\<lambda>sum v. sum + binary_size v) (sizeof I16) vs"
| "binary_size (VMap vs) = foldl (\<lambda>sum v. sum + binary_size v) (sizeof I16) vs"
| "binary_size (VArr vs) = foldl (\<lambda>sum v. sum + binary_size v) (sizeof I16) vs"
| "binary_size (VObj vs) = foldl (\<lambda>sum v. sum + binary_size v) 0 vs"

subsection \<open>deserialize\<close>

text \<open>
  \<open>for (auto& item : container) binary::deserialize(context, item);\<close> over the
  elements the container has.
\<close>

primrec deserialize_each ::
  "('v \<Rightarrow> 'c \<Rightarrow> ('v \<times> 'c) outcome) \<Rightarrow> 'v list \<Rightarrow> 'c \<Rightarrow> ('v list \<times> 'c) outcome" where
  "deserialize_each f [] ctx = Inr ([], ctx)"
| "deserialize_each f (v # vs) ctx =
     bind_outcome (f v ctx) (\<lambda>(v', ctx').
       bind_outcome (deserialize_each f vs ctx') (\<lambda>(vs', ctx''). Inr (v' # vs', ctx'')))"

text \<open>The members of an aggregate have a type each.\<close>

primrec deserialize_members ::
  "('v \<Rightarrow> 'c \<Rightarrow> ('v \<times> 'c) outcome) list \<Rightarrow> 'v list \<Rightarrow> 'c \<Rightarrow> ('v list \<times> 'c) outcome" where
  "deserialize_members [] vs ctx = (if vs = [] then Inr ([], ctx) else Inl (Fault IllTyped))"
| "deserialize_members (f # fs) vs ctx =
     (case vs of [] \<Rightarrow> Inl (Fault IllTyped)
      | v # vs' \<Rightarrow>
          bind_outcome (f v ctx) (\<lambda>(w, ctx').
            bind_outcome (deserialize_members fs vs' ctx') (\<lambda>(ws, ctx''). Inr (w # ws, ctx''))))"

text \<open>
  \<open>for (i = 0; i < item_count; ++i) { Key key; deserialize(key); container.insert(key); }\<close>
  with \<open>read\<close> the body up to the insertion and \<open>ins\<close> the insertion.
\<close>

primrec deserialize_insert ::
  "('c \<Rightarrow> ('v \<times> 'c) outcome) \<Rightarrow> ('v \<Rightarrow> 'v list \<Rightarrow> 'v list) \<Rightarrow> nat \<Rightarrow> 'v list \<Rightarrow> 'c
     \<Rightarrow> ('v list \<times> 'c) outcome" where
  "deserialize_insert read ins 0 acc ctx = Inr (acc, ctx)"
| "deserialize_insert read ins (Suc n) acc ctx =
     bind_outcome (read ctx) (\<lambda>(v, ctx'). deserialize_insert read ins n (ins v acc) ctx')"

text \<open>
  \<^verbatim>\<open>insert\<close> of a set keeps an equal element, of a map an entry with an equal key.
  The list is the iteration order, a new element is listed last.
\<close>

definition set_insert :: "val \<Rightarrow> val list \<Rightarrow> val list" where
  "set_insert v vs = (if v \<in> set vs then vs else vs @ [v])"

fun entry_key :: "val \<Rightarrow> val" where
  "entry_key (VPair k v) = k"
| "entry_key v = v"

definition map_insert :: "val \<Rightarrow> val list \<Rightarrow> val list" where
  "map_insert e vs = (if entry_key e \<in> entry_key ` set vs then vs else vs @ [e])"

text \<open>\<^verbatim>\<open>container.resize(n)\<close> keeps a prefix and value-initialises the rest.\<close>

definition resize :: "ty \<Rightarrow> nat \<Rightarrow> val list \<Rightarrow> val list" where
  "resize t n vs = take n vs @ replicate (n - length vs) (value_init t)"

text \<open>\<^verbatim>\<open>ContainerSize item_count; binary::deserialize(context, item_count);\<close>\<close>

definition deserialize_count ::
  "platform \<Rightarrow> serialization_context \<Rightarrow> (nat \<times> serialization_context) outcome" where
  "deserialize_count pl ctx =
     bind_outcome (deserialize_scalar pl I16 None ctx) (\<lambda>(x, ctx').
       case x of SI16 w \<Rightarrow> Inr (unat w, ctx') | _ \<Rightarrow> Inl (Fault IllTyped))"

fun scalar_content :: "val \<Rightarrow> scalar option" where
  "scalar_content (VScalar x) = Some x"
| "scalar_content v = None"

text \<open>
  \<open>binary_deserialize pl t old ctx\<close> is \<^verbatim>\<open>deserialize(context, value)\<close> for a variable
  of type \<open>t\<close> holding \<open>old\<close>.
\<close>

primrec binary_deserialize ::
  "platform \<Rightarrow> ty \<Rightarrow> val \<Rightarrow> serialization_context \<Rightarrow> (val \<times> serialization_context) outcome" where
  "binary_deserialize pl (ScalarT s) old ctx =
     bind_outcome (deserialize_scalar pl s (scalar_content old) ctx) (\<lambda>(x, ctx').
       Inr (VScalar x, ctx'))"
| "binary_deserialize pl (EnumT s) old ctx =
     bind_outcome (deserialize_scalar pl s None ctx) (\<lambda>(x, ctx'). Inr (VEnum x, ctx'))"
| "binary_deserialize pl (PairT a b) old ctx =
     (case old of VPair x y \<Rightarrow>
        bind_outcome (binary_deserialize pl a x ctx) (\<lambda>(x', ctx').
          bind_outcome (binary_deserialize pl b y ctx') (\<lambda>(y', ctx''). Inr (VPair x' y', ctx'')))
      | _ \<Rightarrow> Inl (Fault IllTyped))"
| "binary_deserialize pl (OptT t) old ctx =
     bind_outcome (deserialize_scalar pl BoolT None ctx) (\<lambda>(value_present, ctx').
       if value_present = SBool True
       then bind_outcome (binary_deserialize pl t (default_init t) ctx') (\<lambda>(v, ctx'').
              Inr (VOpt (Some v), ctx''))
       else Inr (old, ctx'))"
| "binary_deserialize pl (SeqT t) old ctx =
     (case old of VSeq vs \<Rightarrow>
        bind_outcome (deserialize_count pl ctx) (\<lambda>(item_count, ctx').
          bind_outcome (deserialize_each (binary_deserialize pl t) (resize t item_count vs) ctx')
            (\<lambda>(vs', ctx''). Inr (VSeq vs', ctx'')))
      | _ \<Rightarrow> Inl (Fault IllTyped))"
| "binary_deserialize pl (SetT t) old ctx =
     bind_outcome (deserialize_count pl ctx) (\<lambda>(item_count, ctx').
       bind_outcome (deserialize_insert (binary_deserialize pl t (default_init t)) set_insert
                       item_count [] ctx')
         (\<lambda>(vs', ctx''). Inr (VSet vs', ctx'')))"
| "binary_deserialize pl (MapT k v) old ctx =
     bind_outcome (deserialize_count pl ctx) (\<lambda>(item_count, ctx').
       bind_outcome
         (deserialize_insert
            (\<lambda>c. bind_outcome (binary_deserialize pl k (default_init k) c) (\<lambda>(key, c').
                   bind_outcome (binary_deserialize pl v (default_init v) c') (\<lambda>(value, c'').
                     Inr (VPair key value, c''))))
            map_insert item_count [] ctx')
         (\<lambda>(vs', ctx''). Inr (VMap vs', ctx'')))"
| "binary_deserialize pl (ArrT n t) old ctx =
     (case old of VArr vs \<Rightarrow>
        bind_outcome (deserialize_count pl ctx) (\<lambda>(item_count, ctx').
          if \<not> ndebug pl \<and> item_count \<noteq> length vs then Inl (Fault AssertionFailure)
          else bind_outcome (deserialize_each (binary_deserialize pl t) vs ctx')
            (\<lambda>(vs', ctx''). Inr (VArr vs', ctx'')))
      | _ \<Rightarrow> Inl (Fault IllTyped))"
| "binary_deserialize pl (ObjT ts) old ctx =
     (case old of VObj vs \<Rightarrow>
        bind_outcome (deserialize_members (map (binary_deserialize pl) ts) vs ctx)
          (\<lambda>(vs', ctx'). Inr (VObj vs', ctx'))
      | _ \<Rightarrow> Inl (Fault IllTyped))"

subsection \<open>Typing, sizes that fit, and the wire format\<close>

primrec well_typed :: "ty \<Rightarrow> val \<Rightarrow> bool" where
  "well_typed (ScalarT s) v = (case v of VScalar x \<Rightarrow> scalar_type x = s | _ \<Rightarrow> False)"
| "well_typed (EnumT s) v = (case v of VEnum x \<Rightarrow> scalar_type x = s | _ \<Rightarrow> False)"
| "well_typed (PairT a b) v =
     (case v of VPair x y \<Rightarrow> well_typed a x \<and> well_typed b y | _ \<Rightarrow> False)"
| "well_typed (OptT t) v =
     (case v of VOpt opt \<Rightarrow> (case opt of None \<Rightarrow> True | Some x \<Rightarrow> well_typed t x) | _ \<Rightarrow> False)"
| "well_typed (SeqT t) v = (case v of VSeq vs \<Rightarrow> list_all (well_typed t) vs | _ \<Rightarrow> False)"
| "well_typed (SetT t) v =
     (case v of VSet vs \<Rightarrow> list_all (well_typed t) vs \<and> distinct vs | _ \<Rightarrow> False)"
| "well_typed (MapT k t) v =
     (case v of VMap vs \<Rightarrow>
        list_all (\<lambda>e. case e of VPair x y \<Rightarrow> well_typed k x \<and> well_typed t y | _ \<Rightarrow> False) vs
        \<and> distinct (map entry_key vs)
      | _ \<Rightarrow> False)"
| "well_typed (ArrT n t) v =
     (case v of VArr vs \<Rightarrow> length vs = n \<and> list_all (well_typed t) vs | _ \<Rightarrow> False)"
| "well_typed (ObjT ts) v =
     (case v of VObj vs \<Rightarrow> list_all2 (\<lambda>f x. f x) (map well_typed ts) vs | _ \<Rightarrow> False)"

text \<open>Every container has a size the 16-bit count can hold.\<close>

fun fits :: "val \<Rightarrow> bool" where
  "fits (VPair a b) \<longleftrightarrow> fits a \<and> fits b"
| "fits (VOpt opt) \<longleftrightarrow> (case opt of None \<Rightarrow> True | Some v \<Rightarrow> fits v)"
| "fits (VSeq vs) \<longleftrightarrow> length vs < 65536 \<and> list_all fits vs"
| "fits (VSet vs) \<longleftrightarrow> length vs < 65536 \<and> list_all fits vs"
| "fits (VMap vs) \<longleftrightarrow> length vs < 65536 \<and> list_all fits vs"
| "fits (VArr vs) \<longleftrightarrow> length vs < 65536 \<and> list_all fits vs"
| "fits (VObj vs) \<longleftrightarrow> list_all fits vs"
| "fits v \<longleftrightarrow> True"

text \<open>No variable without a value inside, and no list longer than memory.\<close>

fun determinate :: "val \<Rightarrow> bool" where
  "determinate (VIndet s) \<longleftrightarrow> False"
| "determinate (VPair a b) \<longleftrightarrow> determinate a \<and> determinate b"
| "determinate (VOpt opt) \<longleftrightarrow> (case opt of None \<Rightarrow> True | Some v \<Rightarrow> determinate v)"
| "determinate (VSeq vs) \<longleftrightarrow> length vs < 2 ^ 64 \<and> list_all determinate vs"
| "determinate (VSet vs) \<longleftrightarrow> list_all determinate vs"
| "determinate (VMap vs) \<longleftrightarrow> list_all determinate vs"
| "determinate (VArr vs) \<longleftrightarrow> list_all determinate vs"
| "determinate (VObj vs) \<longleftrightarrow> list_all determinate vs"
| "determinate v \<longleftrightarrow> True"

text \<open>The wire format, on its own: no platform, no stream.\<close>

definition count_bytes :: "nat \<Rightarrow> byte list" where
  "count_bytes n = bytes_le (of_nat n :: 16 word)"

fun wire :: "val \<Rightarrow> byte list" where
  "wire (VScalar x) = scalar_image x"
| "wire (VEnum x) = scalar_image x"
| "wire (VIndet s) = []"
| "wire (VPair a b) = wire a @ wire b"
| "wire (VOpt opt) = (case opt of None \<Rightarrow> [0] | Some v \<Rightarrow> 1 # wire v)"
| "wire (VSeq vs) = count_bytes (length vs) @ concat (map wire vs)"
| "wire (VSet vs) = count_bytes (length vs) @ concat (map wire vs)"
| "wire (VMap vs) = count_bytes (length vs) @ concat (map wire vs)"
| "wire (VArr vs) = count_bytes (length vs) @ concat (map wire vs)"
| "wire (VObj vs) = concat (map wire vs)"

lemma length_count_bytes [simp]: "length (count_bytes n) = 2"
  by (simp add: count_bytes_def)

lemma image_container_size [simp]: "scalar_image (container_size n) = count_bytes n"
  by (simp add: container_size_def count_bytes_def)

lemma swap_bool [simp]: "swapBytesIfNeeded pl (SBool b) = SBool b"
  by (simp add: swapBytesIfNeeded_def)

lemma serialize_each_wire:
  assumes "\<And>v s. v \<in> set vs \<Longrightarrow>
      f v (stream_context tag s) = Inr (stream_context tag (stream_write (wire v) s))"
  shows "serialize_each f vs (stream_context tag s)
      = Inr (stream_context tag (stream_write (concat (map wire vs)) s))"
  using assms by (induction vs arbitrary: s) auto

text \<open>
  The serializer writes the wire format: on every platform, in both build modes,
  for values of any size.
\<close>

lemma binary_serialize_wire:
  "determinate v \<Longrightarrow>
   binary_serialize pl v (stream_context tag s)
     = Inr (stream_context tag (stream_write (wire v) s))"
proof (induction v arbitrary: s)
  case (VOpt opt)
  then show ?case by (cases opt) (auto simp: codec_simps)
qed (auto simp: codec_simps unat_max_container_size list_all_iff serialize_each_wire)

lemma foldl_sum_size:
  "foldl (\<lambda>sum v. sum + f v) n vs = n + sum_list (map f vs)"
  for f :: "'a \<Rightarrow> nat"
  by (induction vs arbitrary: n) auto

lemma binary_size_wire: "determinate v \<Longrightarrow> binary_size v = length (wire v)"
proof (induction v)
  case (VOpt opt)
  then show ?case by (cases opt) auto
qed (auto simp: foldl_sum_size length_concat list_all_iff o_def
      intro!: arg_cong [where f = sum_list] map_cong)

subsection \<open>Round trip\<close>

text \<open>
  A variable is \<open>fresh\<close> for a type when it has that type and holds no optional
  with a value; both kinds of initialisation give such variables.
\<close>

primrec fresh :: "ty \<Rightarrow> val \<Rightarrow> bool" where
  "fresh (ScalarT s) v =
     (case v of VScalar x \<Rightarrow> scalar_type x = s | VIndet s' \<Rightarrow> s' = s | _ \<Rightarrow> False)"
| "fresh (EnumT s) v =
     (case v of VEnum x \<Rightarrow> scalar_type x = s | VIndet s' \<Rightarrow> s' = s | _ \<Rightarrow> False)"
| "fresh (PairT a b) v = (case v of VPair x y \<Rightarrow> fresh a x \<and> fresh b y | _ \<Rightarrow> False)"
| "fresh (OptT t) v = (case v of VOpt opt \<Rightarrow> opt = None | _ \<Rightarrow> False)"
| "fresh (SeqT t) v = (case v of VSeq vs \<Rightarrow> list_all (fresh t) vs | _ \<Rightarrow> False)"
| "fresh (SetT t) v = (case v of VSet vs \<Rightarrow> True | _ \<Rightarrow> False)"
| "fresh (MapT k t) v = (case v of VMap vs \<Rightarrow> True | _ \<Rightarrow> False)"
| "fresh (ArrT n t) v =
     (case v of VArr vs \<Rightarrow> length vs = n \<and> list_all (fresh t) vs | _ \<Rightarrow> False)"
| "fresh (ObjT ts) v =
     (case v of VObj vs \<Rightarrow> list_all2 (\<lambda>f x. f x) (map fresh ts) vs | _ \<Rightarrow> False)"

lemma scalar_type_zero [simp]: "scalar_type (zero_scalar s) = s"
  by (cases s) auto

lemma fresh_value_init [simp]: "fresh t (value_init t)"
  by (induction t) (auto simp: list_all2_conv_all_nth list_all_length)

lemma fresh_default_init [simp]: "fresh t (default_init t)"
  by (induction t) (auto simp: list_all2_conv_all_nth list_all_length)

lemma well_typed_value_init [simp]: "well_typed t (value_init t)"
  by (induction t) (auto simp: list_all2_conv_all_nth list_all_length)

text \<open>
  What the round trip needs of the parts: a decoder \<open>d\<close> reads \<open>enc v\<close> back and
  leaves what follows.
\<close>

abbreviation bin_stream :: "byte list \<Rightarrow> serialization_context" where
  "bin_stream bs \<equiv> stream_context BinarySerializerTag \<lparr>sbuf = bs, sgood = True\<rparr>"

lemma deserialize_each_wire:
  assumes "list_all2 (\<lambda>old v. \<forall>rest. f old (bin_stream (wire v @ rest)) = Inr (v, bin_stream rest))
             olds vs"
  shows "deserialize_each f olds (bin_stream (concat (map wire vs) @ rest))
      = Inr (vs, bin_stream rest)"
  using assms by (induction rule: list_all2_induct) auto

lemma deserialize_members_wire:
  assumes "length fs = length olds" and "length olds = length vs"
    and "\<And>i rest. i < length vs \<Longrightarrow>
      (fs ! i) (olds ! i) (bin_stream (wire (vs ! i) @ rest)) = Inr (vs ! i, bin_stream rest)"
  shows "deserialize_members fs olds (bin_stream (concat (map wire vs) @ rest))
      = Inr (vs, bin_stream rest)"
  using assms
proof (induction fs olds vs rule: list_induct3)
  case (Cons f fs old olds v vs)
  have "f old (bin_stream (wire v @ r)) = Inr (v, bin_stream r)" for r
    using Cons.prems [of 0] by simp
  moreover have "deserialize_members fs olds (bin_stream (concat (map wire vs) @ rest))
      = Inr (vs, bin_stream rest)"
    using Cons.prems [of "Suc _"] by (intro Cons.IH) simp
  ultimately show ?case by simp
qed simp

lemma deserialize_insert_wire:
  assumes "\<And>v rest. v \<in> set vs \<Longrightarrow> read (bin_stream (wire v @ rest)) = Inr (v, bin_stream rest)"
    and "\<And>us v ws. vs = us @ v # ws \<Longrightarrow> ins v (acc @ us) = acc @ us @ [v]"
  shows "deserialize_insert read ins (length vs) acc (bin_stream (concat (map wire vs) @ rest))
      = Inr (acc @ vs, bin_stream rest)"
  using assms
proof (induction vs arbitrary: acc)
  case (Cons v vs)
  have "ins v acc = acc @ [v]"
    using Cons.prems(2) [of "[]" v vs] by simp
  moreover have "deserialize_insert read ins (length vs) (acc @ [v])
      (bin_stream (concat (map wire vs) @ rest)) = Inr ((acc @ [v]) @ vs, bin_stream rest)"
    using Cons.prems(2) [of "v # _"] by (intro Cons.IH) (auto simp: Cons.prems(1))
  ultimately show ?case
    using Cons.prems(1) [of v] by simp
qed simp

lemma deserialize_count_wire [codec_simps]:
  "n < 65536 \<Longrightarrow>
   deserialize_count pl (bin_stream (count_bytes n @ rest)) = Inr (n, bin_stream rest)"
  using deserialize_scalar_exact [of "container_size n" I16 None pl BinarySerializerTag rest]
  by (simp add: deserialize_count_def container_size_def count_bytes_def unat_of_nat)

lemma deserialize_bool_wire [codec_simps]:
  "deserialize_scalar pl BoolT None (bin_stream ((if b then 1 else 0) # rest))
     = Inr (SBool b, bin_stream rest)"
  using deserialize_scalar_exact [of "SBool b" BoolT None pl BinarySerializerTag rest] by simp

lemma fresh_resize:
  "list_all (fresh t) vs \<Longrightarrow> list_all (fresh t) (resize t n vs)"
  by (auto simp: resize_def list_all_iff dest: in_set_takeD)

lemma length_resize [simp]: "length (resize t n vs) = n"
  by (simp add: resize_def)

lemma deserialize_each_fresh:
  assumes "list_all (fresh t) olds" and "length olds = length vs"
    and "\<And>old v rest. v \<in> set vs \<Longrightarrow> fresh t old \<Longrightarrow>
      f old (bin_stream (wire v @ rest)) = Inr (v, bin_stream rest)"
  shows "deserialize_each f olds (bin_stream (concat (map wire vs) @ rest))
      = Inr (vs, bin_stream rest)"
  using assms
  by (intro deserialize_each_wire) (auto simp: list_all2_conv_all_nth list_all_length)

lemma set_insert_new:
  "distinct vs \<Longrightarrow> vs = us @ v # ws \<Longrightarrow> set_insert v ([] @ us) = [] @ us @ [v]"
  by (auto simp: set_insert_def)

lemma map_insert_new:
  "distinct (map entry_key vs) \<Longrightarrow> vs = us @ v # ws \<Longrightarrow> map_insert v ([] @ us) = [] @ us @ [v]"
  by (auto simp: map_insert_def)

lemma deserialize_entry_wire:
  assumes "\<And>old v rest. well_typed k v \<Longrightarrow> fits v \<Longrightarrow> fresh k old \<Longrightarrow>
      dk old (bin_stream (wire v @ rest)) = Inr (v, bin_stream rest)"
    and "\<And>old v rest. well_typed t v \<Longrightarrow> fits v \<Longrightarrow> fresh t old \<Longrightarrow>
      dv old (bin_stream (wire v @ rest)) = Inr (v, bin_stream rest)"
    and "case e of VPair x y \<Rightarrow> well_typed k x \<and> well_typed t y | _ \<Rightarrow> False" and "fits e"
  shows "bind_outcome (dk (default_init k) (bin_stream (wire e @ rest))) (\<lambda>(key, c').
           bind_outcome (dv (default_init t) c') (\<lambda>(value, c''). Inr (VPair key value, c'')))
      = Inr (e, bin_stream rest)"
  using assms by (cases e) auto

lemma binary_deserialize_wire:
  "well_typed t v \<Longrightarrow> fits v \<Longrightarrow> fresh t old \<Longrightarrow>
   binary_deserialize pl t old (bin_stream (wire v @ rest)) = Inr (v, bin_stream rest)"
proof (induction t arbitrary: v old rest)
  case (ScalarT s)
  then show ?case
    by (auto simp: codec_simps split: val.splits)
next
  case (EnumT s)
  then show ?case
    by (auto simp: codec_simps split: val.splits)
next
  case (PairT a b)
  then show ?case
    by (auto split: val.splits)
next
  case (OptT t)
  show ?case
  proof (cases v)
    case (VOpt opt)
    then show ?thesis
      using OptT deserialize_bool_wire [of pl True] deserialize_bool_wire [of pl False]
      by (cases opt) (auto split: val.splits)
  qed (use OptT in auto)
next
  case (SeqT t)
  then obtain vs olds where v: "v = VSeq vs" and old: "old = VSeq olds"
    by (auto split: val.splits)
  have "deserialize_each (binary_deserialize pl t) (resize t (length vs) olds)
      (bin_stream (concat (map wire vs) @ rest)) = Inr (vs, bin_stream rest)"
    using SeqT by (intro deserialize_each_fresh [where t = t] fresh_resize)
      (auto simp: v old list_all_iff)
  then show ?case
    using SeqT.prems by (simp add: v old codec_simps)
next
  case (SetT t)
  then obtain vs olds where v: "v = VSet vs" and old: "old = VSet olds"
    by (auto split: val.splits)
  have "deserialize_insert (binary_deserialize pl t (default_init t)) set_insert (length vs) []
      (bin_stream (concat (map wire vs) @ rest)) = Inr ([] @ vs, bin_stream rest)"
    using SetT by (intro deserialize_insert_wire set_insert_new) (auto simp: v list_all_iff)
  then show ?case
    using SetT.prems by (simp add: v codec_simps)
next
  case (MapT k t)
  then obtain vs olds where v: "v = VMap vs" and old: "old = VMap olds"
    by (auto split: val.splits)
  let ?read = "\<lambda>c. bind_outcome (binary_deserialize pl k (default_init k) c) (\<lambda>(key, c').
      bind_outcome (binary_deserialize pl t (default_init t) c') (\<lambda>(value, c'').
        Inr (VPair key value, c'')))"
  have "deserialize_insert ?read map_insert (length vs) []
      (bin_stream (concat (map wire vs) @ rest)) = Inr ([] @ vs, bin_stream rest)"
    using MapT by (intro deserialize_insert_wire deserialize_entry_wire map_insert_new)
      (auto simp: v list_all_iff)
  then show ?case
    using MapT.prems by (simp add: v codec_simps)
next
  case (ArrT n t)
  then obtain vs olds where v: "v = VArr vs" and old: "old = VArr olds"
    by (auto split: val.splits)
  have "deserialize_each (binary_deserialize pl t) olds
      (bin_stream (concat (map wire vs) @ rest)) = Inr (vs, bin_stream rest)"
    using ArrT by (intro deserialize_each_fresh [where t = t]) (auto simp: v old list_all_iff)
  then show ?case
    using ArrT.prems by (simp add: v old codec_simps)
next
  case (ObjT ts)
  then obtain vs olds where v: "v = VObj vs" and old: "old = VObj olds"
    by (auto split: val.splits)
  have "deserialize_members (map (binary_deserialize pl) ts) olds
      (bin_stream (concat (map wire vs) @ rest)) = Inr (vs, bin_stream rest)"
    using ObjT by (intro deserialize_members_wire)
      (auto simp: v old list_all2_conv_all_nth list_all_length)
  then show ?case
    by (simp add: v old)
qed

lemma well_typed_determinate:
  "well_typed t v \<Longrightarrow> fits v \<Longrightarrow> determinate v"
proof (induction t arbitrary: v)
  case (MapT k t)
  have "determinate e"
    if "case e of VPair x y \<Rightarrow> well_typed k x \<and> well_typed t y | _ \<Rightarrow> False" and "fits e" for e
    using MapT.IH that by (cases e) auto
  with MapT.prems show ?case
    by (auto simp: list_all_iff split: val.splits)
next
  case (ObjT ts)
  then obtain vs where v: "v = VObj vs" "list_all2 (\<lambda>f x. f x) (map well_typed ts) vs"
    by (auto split: val.splits)
  have "determinate (vs ! i)" if "i < length vs" for i
    using ObjT v that by (intro ObjT.IH [of "ts ! i"]) (auto simp: list_all2_conv_all_nth list_all_length)
  then show ?case
    by (simp add: v list_all_length)
qed (auto simp: list_all_iff split: val.splits option.splits)

subsection \<open>The context keeps its serializer\<close>

lemma serializerTag_with_stream [simp]:
  "serializerTag (context_with_stream ctx s) = serializerTag ctx"
  by (simp add: serializerTag_def context_with_stream_def)

abbreviation tagged :: "serialization_context \<Rightarrow> serialization_context \<Rightarrow> bool" where
  "tagged ctx ctx' \<equiv> serializerTag ctx' = serializerTag ctx"

abbreviation tagged_snd :: "serialization_context \<Rightarrow> 'v \<times> serialization_context \<Rightarrow> bool" where
  "tagged_snd ctx r \<equiv> serializerTag (snd r) = serializerTag ctx"

lemma serialize_scalar_tag: "yields (tagged ctx) (serialize_scalar pl x ctx)"
  by (auto simp: yields_def serialize_scalar_def bind_outcome_eq_Inr Let_def)

lemma deserialize_scalar_tag: "yields (tagged_snd ctx) (deserialize_scalar pl t old ctx)"
  by (auto simp: yields_def deserialize_scalar_def bind_outcome_eq_Inr Let_def split_def)

lemma serialize_each_tag:
  assumes "\<And>v c. v \<in> set vs \<Longrightarrow> yields (tagged c) (f v c)" and "tagged ctx c"
  shows "yields (tagged ctx) (serialize_each f vs c)"
  using assms
proof (induction vs arbitrary: c)
  case (Cons v vs)
  have "yields (tagged c) (f v c)"
    using Cons.prems(1) by simp
  then have "yields (tagged c) (bind_outcome (f v c) (serialize_each f vs))"
    using Cons.prems Cons.IH by (elim yields_bind) simp
  with Cons.prems(2) show ?case by simp
qed simp

lemma binary_serialize_tag: "yields (tagged ctx) (binary_serialize pl v ctx)"
proof (induction v arbitrary: ctx)
  case (VPair a b)
  then show ?case
    using yields_bind [OF VPair.IH(1) [of ctx]] by (metis binary_serialize.simps(4))
next
  case (VOpt opt)
  then show ?case
    by (auto intro!: yields_bind [OF serialize_scalar_tag] split: option.split) (metis)
qed (auto intro!: yields_bind [OF serialize_scalar_tag] serialize_each_tag simp: serialize_scalar_tag)

lemma deserialize_each_tag:
  assumes "\<And>v c. yields (tagged_snd c) (f v c)" and "tagged ctx c"
  shows "yields (tagged_snd ctx) (deserialize_each f vs c)"
  using assms(2)
proof (induction vs arbitrary: c)
  case (Cons v vs)
  show ?case
    using Cons by (auto intro!: yields_bind [OF assms(1)] yields_bind [OF Cons.IH])
qed simp

lemma deserialize_members_tag:
  assumes "\<And>f v c. f \<in> set fs \<Longrightarrow> yields (tagged_snd c) (f v c)" and "tagged ctx c"
  shows "yields (tagged_snd ctx) (deserialize_members fs vs c)"
  using assms
proof (induction fs arbitrary: vs c)
  case (Cons f fs)
  show ?case
    using Cons.prems
    by (auto split: list.split intro!: yields_bind [OF Cons.prems(1)] yields_bind [OF Cons.IH])
qed simp

lemma deserialize_insert_tag:
  assumes "\<And>c. yields (tagged_snd c) (read c)" and "tagged ctx c"
  shows "yields (tagged_snd ctx) (deserialize_insert read ins n acc c)"
  using assms(2)
proof (induction n arbitrary: acc c)
  case (Suc n)
  then show ?case
    by (auto intro!: yields_bind [OF assms(1)] Suc.IH)
qed simp

lemma deserialize_count_tag: "yields (tagged_snd ctx) (deserialize_count pl ctx)"
  by (auto simp: deserialize_count_def intro!: yields_bind [OF deserialize_scalar_tag]
      split: scalar.split)

lemma binary_deserialize_tag: "yields (tagged_snd ctx) (binary_deserialize pl t old ctx)"
proof (induction t arbitrary: old ctx)
  case (PairT a b)
  then show ?case
    by (auto split: val.split intro!: yields_bind [OF PairT.IH(1)] yields_bind [OF PairT.IH(2)])
next
  case (OptT t)
  then show ?case
    by (auto intro!: yields_bind [OF deserialize_scalar_tag] yields_bind [OF OptT.IH])
next
  case (SeqT t)
  then show ?case
    by (auto split: val.split intro!: yields_bind [OF deserialize_count_tag]
        yields_bind [OF deserialize_each_tag [OF SeqT.IH]])
next
  case (SetT t)
  then show ?case
    by (auto intro!: yields_bind [OF deserialize_count_tag]
        yields_bind [OF deserialize_insert_tag [OF SetT.IH]])
next
  case (MapT k t)
  have "yields (tagged_snd c) (bind_outcome (binary_deserialize pl k (default_init k) c)
      (\<lambda>(key, c'). bind_outcome (binary_deserialize pl t (default_init t) c')
        (\<lambda>(value, c''). Inr (VPair key value, c''))))" for c
    by (auto intro!: yields_bind [OF MapT.IH(1)] yields_bind [OF MapT.IH(2)])
  then show ?case
    by (auto intro!: yields_bind [OF deserialize_count_tag]
        yields_bind [OF deserialize_insert_tag])
next
  case (ArrT n t)
  then show ?case
    by (auto split: val.split intro!: yields_bind [OF deserialize_count_tag]
        yields_bind [OF deserialize_each_tag [OF ArrT.IH]])
next
  case (ObjT ts)
  then show ?case
    by (auto split: val.split intro!: yields_bind [OF deserialize_members_tag])
qed (auto intro!: yields_bind [OF deserialize_scalar_tag])

subsection \<open>Streams that end early\<close>

text \<open>
  Types made of scalars only.  Reading such a value from a failed stream into a
  value-initialised variable leaves it as it is and reports nothing; any
  container reads its element count into a variable without a value.
\<close>

primrec scalar_only :: "ty \<Rightarrow> bool" where
  "scalar_only (ScalarT s) \<longleftrightarrow> True"
| "scalar_only (EnumT s) \<longleftrightarrow> False"
| "scalar_only (PairT a b) \<longleftrightarrow> scalar_only a \<and> scalar_only b"
| "scalar_only (OptT t) \<longleftrightarrow> False"
| "scalar_only (SeqT t) \<longleftrightarrow> False"
| "scalar_only (SetT t) \<longleftrightarrow> False"
| "scalar_only (MapT k t) \<longleftrightarrow> False"
| "scalar_only (ArrT n t) \<longleftrightarrow> False"
| "scalar_only (ObjT ts) \<longleftrightarrow> list_all (\<lambda>b. b) (map scalar_only ts)"

abbreviation failed_stream :: "byte list \<Rightarrow> serialization_context" where
  "failed_stream bs \<equiv> stream_context BinarySerializerTag \<lparr>sbuf = bs, sgood = False\<rparr>"

lemma swap_zero [simp]: "swapBytesIfNeeded pl (zero_scalar s) = zero_scalar s"
proof -
  have "scalar_image (zero_scalar s) = replicate (sizeof s) 0"
    by (cases s) (simp_all add: bytes_le_explicit numeral_eq_Suc)
  then have "swap_scalar (zero_scalar s) = zero_scalar s"
    by (intro scalar_image_inj) (simp_all add: image_swap_scalar)
  then show ?thesis by (simp add: swapBytesIfNeeded_def)
qed

lemma deserialize_members_failed:
  assumes "length fs = length vs" and "\<And>i. i < length vs \<Longrightarrow> (fs ! i) (vs ! i) ctx = Inr (vs ! i, ctx)"
  shows "deserialize_members fs vs ctx = Inr (vs, ctx)"
  using assms
proof (induction fs vs rule: list_induct2)
  case (Cons f fs v vs)
  have "f v ctx = Inr (v, ctx)"
    using Cons.prems [of 0] by simp
  moreover have "deserialize_members fs vs ctx = Inr (vs, ctx)"
    using Cons.prems [of "Suc _"] by (intro Cons.IH) simp
  ultimately show ?case by simp
qed simp

lemma binary_deserialize_failed:
  "scalar_only t \<Longrightarrow>
   binary_deserialize pl t (value_init t) (failed_stream bs) = Inr (value_init t, failed_stream bs)"
proof (induction t)
  case (ObjT ts)
  have "deserialize_members (map (binary_deserialize pl) ts) (map value_init ts) (failed_stream bs)
      = Inr (map value_init ts, failed_stream bs)"
    using ObjT by (intro deserialize_members_failed) (auto simp: list_all_length)
  then show ?case by simp
qed (auto simp: codec_simps)

lemma deserialize_count_short:
  assumes "length bs < 2"
  shows "deserialize_count pl (bin_stream bs) = Inl (Fault IndeterminateValue)"
  using assms by (simp add: deserialize_count_def deserialize_scalar_def stream_read_def)

lemma binary_serialize_append:
  "determinate v \<Longrightarrow> binary_serialize pl v (bin_stream bs) = Inr (bin_stream (bs @ wire v))"
  unfolding binary_serialize_wire by (simp add: stream_write_def)

subsection \<open>Properties\<close>

text \<open>\<^verbatim>\<open>ByteUtils::swap\<close> reverses the byte image of every 16-, 32- and 64-bit integer and of
  every floating-point number, so swapping on big-endian hosts puts the same bytes on
  the wire as little-endian hosts do, and it is its own inverse.\<close>

theorem swap_reverses_bytes:
  "scalar_image (swap_scalar x) = rev (scalar_image x)
   \<and> swap_scalar (swap_scalar x) = x
   \<and> native_image (big_endian pl) (scalar_image (swapBytesIfNeeded pl x)) = scalar_image x"
  by (simp add: image_swap_scalar wire_scalar_image)

text \<open>C23: Serialization is platform independent: for every value without indeterminate parts,
  \<^verbatim>\<open>serialize\<close> on any platform and in any build mode appends the same bytes, the wire
  format of the value, and \<^verbatim>\<open>size\<close> announces exactly how many there are.\<close>

theorem binary_serialize_appends_wire:
  assumes "determinate v"
  shows "binary_serialize pl v (bin_stream bs) = Inr (bin_stream (bs @ wire v))
         \<and> binary_size v = length (wire v)"
  using assms binary_serialize_append binary_size_wire by blast

theorem binary_serialize_appends_wire_witness:
  "binary_serialize \<lparr>big_endian = True, ndebug = False\<rparr>
     (VSeq [VScalar (SI16 258), VScalar (SI16 3)]) (bin_stream [9])
     = Inr (bin_stream [9, 2, 0, 2, 1, 3, 0])
   \<and> binary_size (VSeq [VScalar (SI16 258), VScalar (SI16 3)]) = 6"
proof -
  have "wire (VSeq [VScalar (SI16 258), VScalar (SI16 3)]) = [2, 0, 2, 1, 3, 0]"
    by (simp add: count_bytes_def bytes_le_explicit)
  with binary_serialize_appends_wire [of "VSeq [VScalar (SI16 258), VScalar (SI16 3)]"
      "\<lparr>big_endian = True, ndebug = False\<rparr>" "[9]"]
  show ?thesis by simp
qed

text \<open>C1: Round trip between machines: what any platform serializes of a well-typed value whose
  containers have fewer than 65536 elements, any other platform deserializes, into a fresh
  variable of that type, as the same value, leaving the rest of the stream unread.\<close>

theorem binary_round_trip:
  assumes "well_typed t v" and "fits v" and "fresh t old"
  shows "\<exists>bs. binary_serialize pl v (bin_stream []) = Inr (bin_stream bs)
           \<and> binary_deserialize pl' t old (bin_stream (bs @ rest)) = Inr (v, bin_stream rest)"
  using binary_serialize_append [OF well_typed_determinate [OF assms(1,2)], of pl "[]"]
    binary_deserialize_wire [OF assms, of pl' rest]
  by simp

theorem binary_round_trip_witness:
  "\<exists>bs. binary_serialize \<lparr>big_endian = True, ndebug = True\<rparr>
          (VMap [VPair (VScalar (SI8 1)) (VOpt (Some (VScalar (SF64 7))))]) (bin_stream [])
        = Inr (bin_stream bs)
      \<and> binary_deserialize \<lparr>big_endian = False, ndebug = False\<rparr>
          (MapT (ScalarT I8) (OptT (ScalarT F64))) (VMap []) (bin_stream (bs @ [5]))
        = Inr (VMap [VPair (VScalar (SI8 1)) (VOpt (Some (VScalar (SF64 7))))], bin_stream [5])"
  by (rule binary_round_trip) simp_all

text \<open>C33: The element count is 16 bits wide and not guarded in any build: the assertion compares with
  \<^verbatim>\<open>max_container_size\<close>, which integer promotion makes \<open>2 ^ 64 - 1\<close>.  A sequence of 65536
  elements is written with count 0 and read back as the empty sequence, with its elements
  left in the stream.\<close>

theorem long_sequence_is_lost:
  assumes "length vs = 65536" and "list_all determinate vs"
  shows "\<exists>bs. binary_serialize pl (VSeq vs) (bin_stream []) = Inr (bin_stream bs)
           \<and> binary_deserialize pl (SeqT t) (VSeq []) (bin_stream bs)
             = Inr (VSeq [], bin_stream (concat (map wire vs)))
           \<and> unat max_container_size = 2 ^ 64 - 1"
proof -
  have "determinate (VSeq vs)" using assms by simp
  then have ser: "binary_serialize pl (VSeq vs) (bin_stream [])
      = Inr (bin_stream (wire (VSeq vs)))"
    using binary_serialize_append [of "VSeq vs" pl "[]"] by (simp del: binary_serialize.simps wire.simps)
  have "(of_nat 65536 :: 16 word) = 0"
    by (simp only: word_of_nat_eq_0_iff) simp
  then have "count_bytes (length vs) = count_bytes 0"
    unfolding count_bytes_def assms(1) semiring_1_class.of_nat_0 by (rule arg_cong)
  then have "wire (VSeq vs) = count_bytes 0 @ concat (map wire vs)"
    unfolding wire.simps by (rule arg_cong)
  then have "binary_deserialize pl (SeqT t) (VSeq []) (bin_stream (wire (VSeq vs)))
      = Inr (VSeq [], bin_stream (concat (map wire vs)))"
    by (simp add: deserialize_count_wire resize_def)
  with ser show ?thesis
    using unat_max_container_size by blast
qed

theorem long_sequence_is_lost_witness:
  "\<exists>bs. binary_serialize \<lparr>big_endian = False, ndebug = False\<rparr>
          (VSeq (replicate 65536 (VScalar (SI8 7)))) (bin_stream []) = Inr (bin_stream bs)
      \<and> binary_deserialize \<lparr>big_endian = False, ndebug = False\<rparr> (SeqT (ScalarT I8)) (VSeq [])
          (bin_stream bs)
        = Inr (VSeq [], bin_stream (concat (map wire (replicate 65536 (VScalar (SI8 7))))))
      \<and> unat max_container_size = 2 ^ 64 - 1"
  by (rule long_sequence_is_lost) (simp_all add: list_all_length)

text \<open>Reading an absent optional into a variable that holds a value keeps the old value: the
  reader then differs from what the writer sent.\<close>

theorem absent_optional_keeps_old_value:
  "\<exists>bs. binary_serialize pl (VOpt None) (bin_stream []) = Inr (bin_stream bs)
      \<and> binary_deserialize pl (OptT t) (VOpt (Some v)) (bin_stream bs)
        = Inr (VOpt (Some v), bin_stream [])"
proof -
  have "binary_serialize pl (VOpt None) (bin_stream []) = Inr (bin_stream [0])"
    using binary_serialize_append [of "VOpt None" pl "[]"] by simp
  moreover have "binary_deserialize pl (OptT t) (VOpt (Some v)) (bin_stream [0])
      = Inr (VOpt (Some v), bin_stream [])"
    using deserialize_bool_wire [of pl False "[]"] by simp
  ultimately show ?thesis by blast
qed

text \<open>A stream that ends early is not reported.  A value made of scalars only is left
  unchanged and the operation succeeds; where an element count is to be read, the count is
  an uninitialised variable.\<close>

theorem truncated_input_is_silent:
  assumes "scalar_only t"
  shows "binary_deserialize pl t (value_init t) (failed_stream bs)
           = Inr (value_init t, failed_stream bs)
         \<and> (length cs < 2 \<longrightarrow> binary_deserialize pl (SeqT t') (VSeq vs) (bin_stream cs)
              = Inl (Fault IndeterminateValue))"
  using assms by (simp add: binary_deserialize_failed deserialize_count_short)

theorem truncated_input_is_silent_witness:
  "binary_deserialize \<lparr>big_endian = False, ndebug = True\<rparr> (PairT (ScalarT I32) (ScalarT BoolT))
       (value_init (PairT (ScalarT I32) (ScalarT BoolT))) (failed_stream [])
     = Inr (value_init (PairT (ScalarT I32) (ScalarT BoolT)), failed_stream [])
   \<and> binary_deserialize \<lparr>big_endian = False, ndebug = True\<rparr> (SeqT (ScalarT I8)) (VSeq [])
       (bin_stream [3]) = Inl (Fault IndeterminateValue)"
  using truncated_input_is_silent [of "PairT (ScalarT I32) (ScalarT BoolT)"
      "\<lparr>big_endian = False, ndebug = True\<rparr>" "[]" "[3]" "ScalarT I8" "[]"]
  by simp

end
