(* ===== verification/Composite_Serializer.thy ===== *)
theory Composite_Serializer
  imports Binary_Serializer
begin

text \<open>
  \<^verbatim>\<open>include/isml/serialization/serializers/composite_serializer.hpp\<close>: a pack of
  serializers of which the context's tag selects one.  A serializer is the pair
  of static functions \<^verbatim>\<open>serialize\<close> and \<^verbatim>\<open>deserialize\<close> with the type of its tag;
  a custom serializer is a parameter.
\<close>

record serializer =
  ser_tag :: serializer_tag
  ser_write :: "val \<Rightarrow> string \<Rightarrow> serialization_context \<Rightarrow> serialization_context outcome"
  ser_read :: "ty \<Rightarrow> val \<Rightarrow> string \<Rightarrow> serialization_context
                 \<Rightarrow> (val \<times> serialization_context) outcome"

text \<open>The binary serializer ignores the name of the value.\<close>

definition binary_serializer :: "platform \<Rightarrow> serializer" where
  "binary_serializer pl =
     \<lparr>ser_tag = BinarySerializerTag,
      ser_write = (\<lambda>v name. binary_serialize pl v),
      ser_read = (\<lambda>t old name. binary_deserialize pl t old)\<rparr>"

definition supportedBy :: "serializer list \<Rightarrow> serialization_context \<Rightarrow> bool" where
  "supportedBy pack ctx \<longleftrightarrow> list_ex (\<lambda>s. ser_tag s = serializerTag ctx) pack"

definition serializeUsing ::
  "serializer \<Rightarrow> val \<Rightarrow> string \<Rightarrow> serialization_context \<Rightarrow> serialization_context outcome" where
  "serializeUsing s v name ctx =
     (if serializerTag ctx = ser_tag s then ser_write s v name ctx else Inr ctx)"

definition deserializeUsing ::
  "serializer \<Rightarrow> ty \<Rightarrow> val \<Rightarrow> string \<Rightarrow> serialization_context
     \<Rightarrow> (val \<times> serialization_context) outcome" where
  "deserializeUsing s t old name ctx =
     (if serializerTag ctx = ser_tag s then ser_read s t old name ctx else Inr (old, ctx))"

text \<open>The fold over the pack runs every serializer whose tag matches, in order.\<close>

primrec serialize_pack ::
  "serializer list \<Rightarrow> val \<Rightarrow> string \<Rightarrow> serialization_context \<Rightarrow> serialization_context outcome" where
  "serialize_pack [] v name ctx = Inr ctx"
| "serialize_pack (s # pack) v name ctx =
     bind_outcome (serializeUsing s v name ctx) (serialize_pack pack v name)"

primrec deserialize_pack ::
  "serializer list \<Rightarrow> ty \<Rightarrow> val \<Rightarrow> string \<Rightarrow> serialization_context
     \<Rightarrow> (val \<times> serialization_context) outcome" where
  "deserialize_pack [] t old name ctx = Inr (old, ctx)"
| "deserialize_pack (s # pack) t old name ctx =
     bind_outcome (deserializeUsing s t old name ctx) (\<lambda>(v, ctx').
       deserialize_pack pack t v name ctx')"

definition composite_serialize ::
  "serializer list \<Rightarrow> val \<Rightarrow> string \<Rightarrow> serialization_context \<Rightarrow> serialization_context outcome" where
  "composite_serialize pack v name ctx =
     (if \<not> supportedBy pack ctx
      then Inl (Thrown (mk_exn IOException ''Serializer is not supported''))
      else serialize_pack pack v name ctx)"

definition composite_deserialize ::
  "serializer list \<Rightarrow> ty \<Rightarrow> val \<Rightarrow> string \<Rightarrow> serialization_context
     \<Rightarrow> (val \<times> serialization_context) outcome" where
  "composite_deserialize pack t old name ctx =
     (if \<not> supportedBy pack ctx
      then Inl (Thrown (mk_exn IOException ''Serializer is not supported''))
      else deserialize_pack pack t old name ctx)"

text \<open>
  A serializer keeps the tag of the context it works on; then exactly the
  serializers with that tag act, and with distinct tags there is at most one.
\<close>

definition keeps_tag :: "serializer \<Rightarrow> bool" where
  "keeps_tag s \<longleftrightarrow>
     (\<forall>v name ctx ctx'. ser_write s v name ctx = Inr ctx' \<longrightarrow> serializerTag ctx' = serializerTag ctx)
     \<and> (\<forall>t old name ctx v ctx'. ser_read s t old name ctx = Inr (v, ctx')
          \<longrightarrow> serializerTag ctx' = serializerTag ctx)"

lemma serialize_pack_other:
  "serializerTag ctx \<notin> ser_tag ` set pack \<Longrightarrow> serialize_pack pack v name ctx = Inr ctx"
  by (induction pack) (auto simp: serializeUsing_def)

lemma deserialize_pack_other:
  "serializerTag ctx \<notin> ser_tag ` set pack \<Longrightarrow> deserialize_pack pack t old name ctx = Inr (old, ctx)"
  by (induction pack) (auto simp: deserializeUsing_def)

lemma serialize_pack_select:
  assumes "distinct (map ser_tag pack)" and "s \<in> set pack" and "ser_tag s = serializerTag ctx"
    and "keeps_tag s"
  shows "serialize_pack pack v name ctx = ser_write s v name ctx"
  using assms
proof (induction pack)
  case (Cons p pack)
  show ?case
  proof (cases "p = s")
    case True
    have "serialize_pack pack v name ctx' = Inr ctx'" if "ser_write s v name ctx = Inr ctx'" for ctx'
      using Cons.prems True that by (intro serialize_pack_other) (auto simp: keeps_tag_def)
    with True Cons.prems show ?thesis
      by (cases "ser_write s v name ctx") (auto simp: serializeUsing_def)
  next
    case False
    with Cons.prems have "ser_tag p \<noteq> serializerTag ctx"
      by (metis (no_types, lifting) distinct.simps(2) image_eqI list.set_map list.simps(9) set_ConsD)
    with False Cons show ?thesis
      by (auto simp: serializeUsing_def)
  qed
qed simp

lemma deserialize_pack_select:
  assumes "distinct (map ser_tag pack)" and "s \<in> set pack" and "ser_tag s = serializerTag ctx"
    and "keeps_tag s"
  shows "deserialize_pack pack t old name ctx = ser_read s t old name ctx"
  using assms
proof (induction pack)
  case (Cons p pack)
  show ?case
  proof (cases "p = s")
    case True
    have "deserialize_pack pack t v name ctx' = Inr (v, ctx')"
      if "ser_read s t old name ctx = Inr (v, ctx')" for v ctx'
      using Cons.prems True that by (intro deserialize_pack_other) (auto simp: keeps_tag_def)
    with True Cons.prems show ?thesis
      by (cases "ser_read s t old name ctx") (auto simp: deserializeUsing_def)
  next
    case False
    with Cons.prems have "ser_tag p \<noteq> serializerTag ctx"
      by (metis (no_types, lifting) distinct.simps(2) image_eqI list.set_map list.simps(9) set_ConsD)
    with False Cons show ?thesis
      by (auto simp: deserializeUsing_def)
  qed
qed simp

lemma composite_select:
  assumes "distinct (map ser_tag pack)" and "s \<in> set pack" and "ser_tag s = serializerTag ctx"
    and "keeps_tag s"
  shows "composite_serialize pack v name ctx = ser_write s v name ctx"
    and "composite_deserialize pack t old name ctx = ser_read s t old name ctx"
proof -
  have "supportedBy pack ctx"
    using assms(2,3) by (auto simp: supportedBy_def list_ex_iff)
  then show "composite_serialize pack v name ctx = ser_write s v name ctx"
    and "composite_deserialize pack t old name ctx = ser_read s t old name ctx"
    using assms serialize_pack_select deserialize_pack_select
    by (simp_all add: composite_serialize_def composite_deserialize_def)
qed

lemma keeps_tag_binary [simp]: "keeps_tag (binary_serializer pl)"
  using binary_serialize_tag binary_deserialize_tag
  by (fastforce simp: keeps_tag_def binary_serializer_def dest: yieldsD)

subsection \<open>The contract of a serializer towards message fields\<close>

text \<open>
  What the message layer needs: on contexts with its tag, \<open>enc\<close> appends the
  image of the value, and \<open>dec\<close> of an image into a fresh variable gives the value
  back and leaves the rest of the stream.
\<close>

locale codec =
  fixes tag :: serializer_tag
    and enc :: "val \<Rightarrow> string \<Rightarrow> serialization_context \<Rightarrow> serialization_context outcome"
    and dec :: "ty \<Rightarrow> val \<Rightarrow> string \<Rightarrow> serialization_context
                   \<Rightarrow> (val \<times> serialization_context) outcome"
    and image :: "val \<Rightarrow> byte list"
  assumes enc_image: "determinate v \<Longrightarrow>
      enc v name (stream_context tag s) = Inr (stream_context tag (stream_write (image v) s))"
    and dec_image: "well_typed t v \<Longrightarrow> fits v \<Longrightarrow> fresh t old \<Longrightarrow>
      dec t old name (stream_context tag \<lparr>sbuf = image v @ rest, sgood = True\<rparr>)
        = Inr (v, stream_context tag \<lparr>sbuf = rest, sgood = True\<rparr>)"
begin

lemma image_injective:
  assumes "well_typed t v" "fits v" "well_typed t w" "fits w"
    and "image v @ r = image w @ r'"
  shows "v = w \<and> r = r'"
proof -
  have "Inr (v, stream_context tag \<lparr>sbuf = r, sgood = True\<rparr>)
      = dec t (value_init t) [] (stream_context tag \<lparr>sbuf = image v @ r, sgood = True\<rparr>)"
    using assms(1,2) by (rule dec_image [symmetric]) (rule fresh_value_init)
  also have "\<dots> = Inr (w, stream_context tag \<lparr>sbuf = r', sgood = True\<rparr>)"
    unfolding assms(5) using assms(3,4) by (rule dec_image) (rule fresh_value_init)
  finally show ?thesis by simp
qed

end

text \<open>The binary serializer by itself, and in any composite without a second one.\<close>

interpretation bin: codec BinarySerializerTag "\<lambda>v name. binary_serialize pl v"
    "\<lambda>t old name. binary_deserialize pl t old" wire for pl
  by unfold_locales (simp_all add: binary_serialize_wire binary_deserialize_wire)

definition binary_pack :: "platform \<Rightarrow> serializer list \<Rightarrow> bool" where
  "binary_pack pl pack \<longleftrightarrow> distinct (map ser_tag pack) \<and> binary_serializer pl \<in> set pack"

lemma composite_binary:
  assumes "binary_pack pl pack"
  shows "composite_serialize pack v name (stream_context BinarySerializerTag s)
      = binary_serialize pl v (stream_context BinarySerializerTag s)"
    and "composite_deserialize pack t old name (stream_context BinarySerializerTag s)
      = binary_deserialize pl t old (stream_context BinarySerializerTag s)"
  using assms composite_select [of pack "binary_serializer pl"]
  by (simp_all add: binary_pack_def) (simp_all add: binary_serializer_def)

lemma codec_composite:
  "binary_pack pl pack \<Longrightarrow>
   codec BinarySerializerTag (composite_serialize pack) (composite_deserialize pack) wire"
  by unfold_locales
    (simp_all add: composite_binary bin.enc_image [of _ pl] bin.dec_image [of _ _ _ pl])

text \<open>The pack of the tests, \<^verbatim>\<open>CompositeSerializer<BinarySerializer>\<close>.\<close>

abbreviation "field_serializer pl \<equiv> [binary_serializer pl]"

lemma binary_pack_single [simp]: "binary_pack pl (field_serializer pl)"
  by (simp add: binary_pack_def)

interpretation comp: codec BinarySerializerTag "composite_serialize (field_serializer pl)"
    "composite_deserialize (field_serializer pl)" wire for pl
  by (rule codec_composite [OF binary_pack_single])

subsection \<open>serialization_utility.hpp\<close>

text \<open>The free functions, for one serializer and for a composite of several.\<close>

definition serialize_using_one ::
  "serializer \<Rightarrow> serialization_context \<Rightarrow> val \<Rightarrow> string \<Rightarrow> serialization_context outcome" where
  "serialize_using_one s ctx v name = ser_write s v name ctx"

definition deserialize_using_one ::
  "serializer \<Rightarrow> serialization_context \<Rightarrow> ty \<Rightarrow> val \<Rightarrow> string \<Rightarrow> (val \<times> serialization_context) outcome" where
  "deserialize_using_one s ctx t old name = ser_read s t old name ctx"

definition serialize_using_pack ::
  "serializer list \<Rightarrow> serialization_context \<Rightarrow> val \<Rightarrow> string \<Rightarrow> serialization_context outcome" where
  "serialize_using_pack pack ctx v name = composite_serialize pack v name ctx"

definition deserialize_using_pack ::
  "serializer list \<Rightarrow> serialization_context \<Rightarrow> ty \<Rightarrow> val \<Rightarrow> string \<Rightarrow> (val \<times> serialization_context) outcome" where
  "deserialize_using_pack pack ctx t old name = composite_deserialize pack t old name ctx"

text \<open>On a context of its own a serializer does the same alone and in a pack with distinct tags.\<close>

lemma pack_like_one:
  assumes "distinct (map ser_tag pack)" and "s \<in> set pack" and "ser_tag s = serializerTag ctx" and "keeps_tag s"
  shows "serialize_using_pack pack ctx v name = serialize_using_one s ctx v name"
    and "deserialize_using_pack pack ctx t old name = deserialize_using_one s ctx t old name"
  using composite_select [OF assms]
  by (simp_all add: serialize_using_pack_def serialize_using_one_def deserialize_using_pack_def
      deserialize_using_one_def)

subsection \<open>Properties\<close>

text \<open>Dispatch of the composite serializer: a context whose tag no member of the pack has is
  refused with an \<^verbatim>\<open>IOException\<close>, for writing and for reading; in a pack with distinct tags
  exactly the member with the context's tag does the work.\<close>

theorem composite_dispatch:
  "(serializerTag ctx \<notin> ser_tag ` set pack \<longrightarrow>
      composite_serialize pack v name ctx
        = Inl (Thrown (mk_exn IOException ''Serializer is not supported''))
      \<and> composite_deserialize pack t old name ctx
        = Inl (Thrown (mk_exn IOException ''Serializer is not supported'')))
   \<and> (\<forall>s \<in> set pack. distinct (map ser_tag pack) \<and> ser_tag s = serializerTag ctx \<and> keeps_tag s \<longrightarrow>
      composite_serialize pack v name ctx = ser_write s v name ctx
      \<and> composite_deserialize pack t old name ctx = ser_read s t old name ctx)"
proof (intro conjI impI ballI)
  assume "serializerTag ctx \<notin> ser_tag ` set pack"
  then have "\<not> supportedBy pack ctx"
    by (force simp: supportedBy_def list_ex_iff)
  then show "composite_serialize pack v name ctx
        = Inl (Thrown (mk_exn IOException ''Serializer is not supported''))"
    and "composite_deserialize pack t old name ctx
        = Inl (Thrown (mk_exn IOException ''Serializer is not supported''))"
    by (simp_all add: composite_serialize_def composite_deserialize_def)
qed (simp_all add: composite_select)

theorem composite_dispatch_witness:
  "composite_serialize [binary_serializer \<lparr>big_endian = False, ndebug = True\<rparr>] (VScalar (SI8 3))
     ''x'' (stream_context JsonSerializerTag empty_stream)
     = Inl (Thrown (mk_exn IOException ''Serializer is not supported''))
   \<and> composite_serialize [binary_serializer \<lparr>big_endian = False, ndebug = True\<rparr>] (VScalar (SI8 3))
     ''x'' (bin_stream []) = Inr (bin_stream [3])"
  using composite_dispatch [of "stream_context JsonSerializerTag empty_stream"
      "[binary_serializer \<lparr>big_endian = False, ndebug = True\<rparr>]" "VScalar (SI8 3)" "''x''"]
    composite_dispatch [of "bin_stream []"
      "[binary_serializer \<lparr>big_endian = False, ndebug = True\<rparr>]" "VScalar (SI8 3)" "''x''"]
  by (simp add: binary_serializer_def binary_serialize_wire stream_write_def bytes_le_explicit
      serialize_scalar_stream keeps_tag_binary [unfolded binary_serializer_def])

end
