(* ===== verification/Keyed_List.thy ===== *)
theory Keyed_List
  imports Prelude
begin

text \<open>
  The container pair that \<^verbatim>\<open>FieldSet\<close> and \<^verbatim>\<open>MessageDescriptor\<close> share: a \<^verbatim>\<open>std::list\<close>
  of owned objects and an index from their names to list iterators.

  A list iterator stays valid while its node lives, also across \<^verbatim>\<open>std::swap\<close> of the
  lists; it is the identity of a node, and \<open>None\<close> is \<^verbatim>\<open>end()\<close>.
\<close>

type_synonym node = nat
type_synonym iter = "node option"

record 'a keyed_list =
  kl_nodes :: "(node \<times> 'a) list"
  kl_index :: "string \<rightharpoonup> node"
  kl_next :: node

definition kl_empty :: "'a keyed_list" where
  "kl_empty = \<lparr>kl_nodes = [], kl_index = Map.empty, kl_next = 0\<rparr>"

definition kl_items :: "'a keyed_list \<Rightarrow> 'a list" where
  "kl_items s = map snd (kl_nodes s)"

subsection \<open>Iterators\<close>

definition kl_begin :: "'a keyed_list \<Rightarrow> iter" where
  "kl_begin s = (case kl_nodes s of [] \<Rightarrow> None | (i, x) # _ \<Rightarrow> Some i)"

text \<open>\<^verbatim>\<open>std::prev(end())\<close>, of a list that is not empty\<close>

definition kl_prev_end :: "'a keyed_list \<Rightarrow> iter" where
  "kl_prev_end s = (if kl_nodes s = [] then None else Some (fst (last (kl_nodes s))))"

definition iter_pos :: "(node \<times> 'a) list \<Rightarrow> iter \<Rightarrow> nat" where
  "iter_pos nodes it =
     (case it of None \<Rightarrow> length nodes
      | Some i \<Rightarrow> length (takeWhile (\<lambda>p. fst p \<noteq> i) nodes))"

text \<open>
  \<^verbatim>\<open>it = list.insert(it, x)\<close> creates a node in front of the position and returns
  its iterator.
\<close>

definition kl_insert :: "iter \<Rightarrow> 'a \<Rightarrow> 'a keyed_list \<Rightarrow> 'a keyed_list \<times> iter" where
  "kl_insert it x s =
     (s\<lparr>kl_nodes := list_insert (iter_pos (kl_nodes s) it) (kl_next s, x) (kl_nodes s),
        kl_next := Suc (kl_next s)\<rparr>, Some (kl_next s))"

text \<open>\<^verbatim>\<open>index.insert(std::make_pair(name, it))\<close> keeps an entry that is there.\<close>

definition kl_index_insert :: "string \<Rightarrow> iter \<Rightarrow> 'a keyed_list \<Rightarrow> 'a keyed_list" where
  "kl_index_insert name it s =
     (case it of None \<Rightarrow> s
      | Some i \<Rightarrow> if kl_index s name = None then s\<lparr>kl_index := (kl_index s)(name \<mapsto> i)\<rparr> else s)"

definition kl_contains :: "string \<Rightarrow> 'a keyed_list \<Rightarrow> bool" where
  "kl_contains name s \<longleftrightarrow> kl_index s name \<noteq> None"

text \<open>\<^verbatim>\<open>*index.at(name)\<close>\<close>

definition kl_lookup :: "string \<Rightarrow> 'a keyed_list \<Rightarrow> 'a option" where
  "kl_lookup name s = Option.bind (kl_index s name) (map_of (kl_nodes s))"

definition kl_update :: "node \<Rightarrow> 'a \<Rightarrow> 'a keyed_list \<Rightarrow> 'a keyed_list" where
  "kl_update i x s = s\<lparr>kl_nodes := map (\<lambda>(j, y). (j, if j = i then x else y)) (kl_nodes s)\<rparr>"

subsection \<open>The operations the two classes have in common\<close>

text \<open>
  Insertion at \<^verbatim>\<open>list.empty() ? list.begin() : std::prev(list.end())\<close>: in front
  of the last element.
\<close>

definition kl_add :: "('a \<Rightarrow> string) \<Rightarrow> 'a \<Rightarrow> 'a keyed_list \<Rightarrow> 'a keyed_list" where
  "kl_add name_of x s =
     (let it = (if kl_nodes s = [] then kl_begin s else kl_prev_end s);
          (s', it') = kl_insert it x s
      in kl_index_insert (name_of x) it' s')"

text \<open>
  Copying: every element is cloned and inserted in front of the clone made
  before it.
\<close>

primrec kl_copy_loop ::
  "('a \<Rightarrow> string) \<Rightarrow> ('a \<Rightarrow> 'a) \<Rightarrow> 'a list \<Rightarrow> iter \<Rightarrow> 'a keyed_list \<Rightarrow> 'a keyed_list" where
  "kl_copy_loop name_of clone [] it s = s"
| "kl_copy_loop name_of clone (x # xs) it s =
     (let (s', it') = kl_insert it (clone x) s
      in kl_copy_loop name_of clone xs it' (kl_index_insert (name_of x) it' s'))"

definition kl_clear :: "'a keyed_list \<Rightarrow> 'a keyed_list" where
  "kl_clear s = s\<lparr>kl_nodes := [], kl_index := Map.empty\<rparr>"

definition kl_copy :: "('a \<Rightarrow> string) \<Rightarrow> ('a \<Rightarrow> 'a) \<Rightarrow> 'a keyed_list \<Rightarrow> 'a keyed_list \<Rightarrow> 'a keyed_list"
where
  "kl_copy name_of clone other s =
     (let s' = kl_clear s
      in kl_copy_loop name_of clone (kl_items other) (kl_begin s') s')"

subsection \<open>Invariant\<close>

text \<open>
  Node identities are distinct and below the counter, names are distinct, and the
  index is exactly the map from the names to the nodes that carry them.
\<close>

definition kl_inv :: "('a \<Rightarrow> string) \<Rightarrow> 'a keyed_list \<Rightarrow> bool" where
  "kl_inv name_of s \<longleftrightarrow>
     distinct (map fst (kl_nodes s))
     \<and> (\<forall>i \<in> fst ` set (kl_nodes s). i < kl_next s)
     \<and> distinct (map name_of (kl_items s))
     \<and> kl_index s = map_of (map (\<lambda>(i, x). (name_of x, i)) (kl_nodes s))"

lemma kl_items_empty [simp]: "kl_items kl_empty = []"
  by (simp add: kl_items_def kl_empty_def)

lemma kl_inv_empty [inv_intros, simp]: "kl_inv name_of kl_empty"
  by (simp add: kl_inv_def kl_empty_def kl_items_def)

lemma kl_inv_clear [inv_intros, simp]: "kl_inv name_of (kl_clear s)"
  by (simp add: kl_inv_def kl_clear_def kl_items_def)

lemma kl_items_clear [simp]: "kl_items (kl_clear s) = []"
  by (simp add: kl_clear_def kl_items_def)

lemma kl_contains_iff:
  assumes "kl_inv name_of s"
  shows "kl_contains name s \<longleftrightarrow> name \<in> name_of ` set (kl_items s)"
proof -
  have "fst ` set (map (\<lambda>(i, x). (name_of x, i)) (kl_nodes s)) = name_of ` set (kl_items s)"
    by (force simp: kl_items_def)
  with assms show ?thesis
    by (simp add: kl_contains_def kl_inv_def map_of_eq_None_iff)
qed

lemma kl_lookup_eq:
  assumes "kl_inv name_of s"
  shows "kl_lookup name s = map_of (map (\<lambda>x. (name_of x, x)) (kl_items s)) name"
proof -
  have "Option.bind (map_of (map (\<lambda>(i, x). (name_of x, i)) ns) name) (map_of ns)
      = map_of (map (\<lambda>x. (name_of x, x)) (map snd ns)) name"
    if "distinct (map fst ns)" for ns :: "(node \<times> 'a) list"
    using that
  proof (induction ns)
    case (Cons n ns)
    obtain i x where n: "n = (i, x)" by (cases n)
    have "Option.bind (map_of (map (\<lambda>(i, x). (name_of x, i)) ns) name) (map_of (n # ns))
        = Option.bind (map_of (map (\<lambda>(i, x). (name_of x, i)) ns) name) (map_of ns)"
    proof (cases "map_of (map (\<lambda>(i, x). (name_of x, i)) ns) name")
      case (Some j)
      then have "j \<in> fst ` set ns"
        by (force dest: map_of_SomeD)
      with Cons.prems n Some show ?thesis by auto
    qed simp
    with Cons n show ?case by (auto simp: fun_upd_def)
  qed simp
  with assms show ?thesis
    by (simp add: kl_lookup_def kl_inv_def kl_items_def)
qed

lemma kl_index_iff:
  assumes "kl_inv name_of s"
  shows "kl_index s name = Some i \<longleftrightarrow> (\<exists>x. (i, x) \<in> set (kl_nodes s) \<and> name_of x = name)"
proof -
  have "map fst (map (\<lambda>(i, x). (name_of x, i)) (kl_nodes s)) = map name_of (kl_items s)"
    by (simp add: kl_items_def split_def)
  then have "distinct (map fst (map (\<lambda>(i, x). (name_of x, i)) (kl_nodes s)))"
    using assms by (simp only: kl_inv_def)
  from map_of_eq_Some_iff [OF this, of name i] assms show ?thesis
    by (force simp: kl_inv_def)
qed

lemma kl_node_iff:
  "kl_inv name_of s \<Longrightarrow> map_of (kl_nodes s) i = Some x \<longleftrightarrow> (i, x) \<in> set (kl_nodes s)"
  by (simp add: kl_inv_def)

lemma kl_item_iff: "x \<in> set (kl_items s) \<longleftrightarrow> (\<exists>i. (i, x) \<in> set (kl_nodes s))"
  by (force simp: kl_items_def)

text \<open>Insertion in general; the node is new, the name must be.\<close>

lemma kl_inv_insert:
  assumes inv: "kl_inv name_of s" and new: "name_of x \<notin> name_of ` set (kl_items s)"
    and ins: "kl_insert it x s = (s', it')"
  shows "kl_inv name_of (kl_index_insert (name_of x) it' s')"
    and "kl_items (kl_index_insert (name_of x) it' s')
      = list_insert (iter_pos (kl_nodes s) it) x (kl_items s)"
proof -
  let ?p = "iter_pos (kl_nodes s) it"
  let ?ns = "list_insert ?p (kl_next s, x) (kl_nodes s)"
  have s': "s' = s\<lparr>kl_nodes := ?ns, kl_next := Suc (kl_next s)\<rparr>" "it' = Some (kl_next s)"
    using ins by (auto simp: kl_insert_def)
  have none: "kl_index s (name_of x) = None"
    using kl_contains_iff [OF inv, of "name_of x"] new by (simp add: kl_contains_def)
  have "name_of x \<notin> fst ` set (map (\<lambda>(i, x). (name_of x, i)) (kl_nodes s))"
    using new by (force simp: kl_items_def)
  then have idx: "map_of (map (\<lambda>(i, x). (name_of x, i)) ?ns) = (kl_index s)(name_of x \<mapsto> kl_next s)"
    using inv by (simp add: kl_inv_def map_of_list_insert)
  show "kl_items (kl_index_insert (name_of x) it' s') = list_insert ?p x (kl_items s)"
    by (simp add: s' kl_index_insert_def kl_items_def)
  then show "kl_inv name_of (kl_index_insert (name_of x) it' s')"
    using inv new idx none by (auto simp: kl_inv_def s' kl_index_insert_def less_Suc_eq)
qed

subsection \<open>What adding and copying do to the sequence\<close>

definition insert_before_last :: "'a \<Rightarrow> 'a list \<Rightarrow> 'a list" where
  "insert_before_last x xs = (if xs = [] then [x] else butlast xs @ [x, last xs])"

lemma set_insert_before_last [simp]: "set (insert_before_last x xs) = insert x (set xs)"
  by (cases xs rule: rev_cases) (auto simp: insert_before_last_def)

lemma iter_pos_begin: "iter_pos (kl_nodes s) (kl_begin s) = 0"
  by (auto simp: iter_pos_def kl_begin_def split: list.splits)

lemma iter_pos_prev_end:
  assumes "distinct (map fst ns)" and "ns \<noteq> []"
  shows "iter_pos ns (Some (fst (last ns))) = length ns - 1"
proof -
  obtain ms m where ns: "ns = ms @ [m]"
    using assms(2) by (metis append_butlast_last_id)
  have "takeWhile (\<lambda>p. fst p \<noteq> fst m) (ms @ [m]) = ms"
    using assms(1) ns by (subst takeWhile_append2) (auto simp: image_iff)
  then show ?thesis by (simp add: iter_pos_def ns)
qed

lemma list_insert_before_last:
  "xs \<noteq> [] \<Longrightarrow> list_insert (length xs - 1) x xs = insert_before_last x xs"
  by (cases xs rule: rev_cases) (simp_all add: list_insert_def insert_before_last_def)

lemma kl_add:
  assumes inv: "kl_inv name_of s" and new: "name_of x \<notin> name_of ` set (kl_items s)"
  shows "kl_inv name_of (kl_add name_of x s)"
    and "kl_items (kl_add name_of x s) = insert_before_last x (kl_items s)"
proof -
  let ?it = "if kl_nodes s = [] then kl_begin s else kl_prev_end s"
  obtain s' it' where ins: "kl_insert ?it x s = (s', it')"
    by fastforce
  note facts = kl_inv_insert [OF inv new ins]
  have "iter_pos (kl_nodes s) ?it = length (kl_nodes s) - 1"
    using inv iter_pos_begin [of s] iter_pos_prev_end [of "kl_nodes s"]
    by (auto simp: kl_inv_def kl_prev_end_def)
  moreover have "length (kl_nodes s) = length (kl_items s)"
    by (simp add: kl_items_def)
  ultimately have "list_insert (iter_pos (kl_nodes s) ?it) x (kl_items s)
      = insert_before_last x (kl_items s)"
    using list_insert_before_last [of "kl_items s" x]
    by (cases "kl_items s = []") (simp_all add: insert_before_last_def)
  then show "kl_inv name_of (kl_add name_of x s)"
    and "kl_items (kl_add name_of x s) = insert_before_last x (kl_items s)"
    using facts unfolding kl_add_def Let_def ins by simp_all
qed

lemma kl_copy_loop:
  assumes "kl_inv name_of s" and "distinct (map name_of xs)"
    and "name_of ` set xs \<inter> name_of ` set (kl_items s) = {}"
    and "\<And>x. x \<in> set xs \<Longrightarrow> name_of (clone x) = name_of x"
    and "it = kl_begin s"
  shows "kl_inv name_of (kl_copy_loop name_of clone xs it s)
    \<and> kl_items (kl_copy_loop name_of clone xs it s) = rev (map clone xs) @ kl_items s"
  using assms
proof (induction xs arbitrary: it s)
  case (Cons x xs)
  obtain s' it' where ins: "kl_insert it (clone x) s = (s', it')"
    by fastforce
  have nm: "name_of (clone x) = name_of x"
    using Cons.prems(4) by simp
  have new: "name_of (clone x) \<notin> name_of ` set (kl_items s)"
    using Cons.prems(3) nm by auto
  let ?s = "kl_index_insert (name_of (clone x)) it' s'"
  have inv: "kl_inv name_of ?s" and items: "kl_items ?s = clone x # kl_items s"
    using kl_inv_insert [OF Cons.prems(1) new ins] Cons.prems(5) iter_pos_begin [of s] by simp_all
  have "it' = kl_begin ?s"
    using ins Cons.prems(5) iter_pos_begin [of s]
    by (auto simp: kl_insert_def kl_begin_def kl_index_insert_def)
  then have "kl_inv name_of (kl_copy_loop name_of clone xs it' ?s)
      \<and> kl_items (kl_copy_loop name_of clone xs it' ?s) = rev (map clone xs) @ kl_items ?s"
    using Cons.prems inv items nm by (intro Cons.IH) auto
  then show ?case
    using items unfolding nm by (simp add: ins)
qed simp

text \<open>A copy holds the clones in the opposite order.\<close>

lemma kl_copy:
  assumes "kl_inv name_of other" and "\<And>x. x \<in> set (kl_items other) \<Longrightarrow> name_of (clone x) = name_of x"
  shows "kl_inv name_of (kl_copy name_of clone other s)"
    and "kl_items (kl_copy name_of clone other s) = rev (map clone (kl_items other))"
proof -
  have "distinct (map name_of (kl_items other))"
    using assms(1) by (simp add: kl_inv_def)
  then have "kl_inv name_of (kl_copy name_of clone other s)
      \<and> kl_items (kl_copy name_of clone other s) = rev (map clone (kl_items other)) @ kl_items (kl_clear s)"
    unfolding kl_copy_def Let_def using assms(2) by (intro kl_copy_loop) simp_all
  then show "kl_inv name_of (kl_copy name_of clone other s)"
    and "kl_items (kl_copy name_of clone other s) = rev (map clone (kl_items other))"
    by simp_all
qed

lemma kl_update:
  assumes inv: "kl_inv name_of s" and nm: "\<And>y. (i, y) \<in> set (kl_nodes s) \<Longrightarrow> name_of x = name_of y"
  shows "kl_inv name_of (kl_update i x s)"
    and "kl_items (kl_update i x s) = map (\<lambda>(j, y). if j = i then x else y) (kl_nodes s)"
proof -
  let ?f = "\<lambda>(j, y). (j, if j = i then x else y)"
  have "map (\<lambda>(j, y). (name_of y, j)) (map ?f (kl_nodes s)) = map (\<lambda>(j, y). (name_of y, j)) (kl_nodes s)"
    using nm by auto
  moreover have "map name_of (map snd (map ?f (kl_nodes s))) = map name_of (map snd (kl_nodes s))"
    unfolding map_map by (rule map_cong) (use nm in auto)
  moreover have "map fst (map ?f (kl_nodes s)) = map fst (kl_nodes s)"
    unfolding map_map by (rule map_cong) auto
  moreover from this have "fst ` set (map ?f (kl_nodes s)) = fst ` set (kl_nodes s)"
    by (metis list.set_map)
  moreover have "kl_nodes (kl_update i x s) = map ?f (kl_nodes s)"
      "kl_next (kl_update i x s) = kl_next s" "kl_index (kl_update i x s) = kl_index s"
    by (simp_all add: kl_update_def)
  ultimately show "kl_inv name_of (kl_update i x s)"
    using inv unfolding kl_inv_def kl_items_def by (simp only:) simp
  show "kl_items (kl_update i x s) = map (\<lambda>(j, y). if j = i then x else y) (kl_nodes s)"
    by (simp add: kl_update_def kl_items_def o_def split_def)
qed

text \<open>Replacing the item a name leads to, by one of the same name.\<close>

lemma kl_update_named:
  assumes inv: "kl_inv name_of s" and i: "kl_index s name = Some i" and x: "name_of x = name"
  shows "kl_inv name_of (kl_update i x s)"
    and "kl_items (kl_update i x s) = map (\<lambda>y. if name_of y = name then x else y) (kl_items s)"
    and "kl_index (kl_update i x s) = kl_index s"
    and "map_of (kl_nodes (kl_update i x s)) i = Some x"
proof -
  obtain y where y: "(i, y) \<in> set (kl_nodes s)" "name_of y = name"
    using i kl_index_iff [OF inv] by blast
  have named: "j = i \<longleftrightarrow> name_of z = name" if "(j, z) \<in> set (kl_nodes s)" for j z
  proof
    assume "j = i"
    then have "z = y"
      using that y kl_node_iff [OF inv, of i] by (metis option.inject)
    with y show "name_of z = name" by simp
  next
    assume "name_of z = name"
    then have "kl_index s name = Some j"
      using that kl_index_iff [OF inv] by blast
    with i show "j = i" by simp
  qed
  show upd: "kl_inv name_of (kl_update i x s)"
    by (rule kl_update(1) [OF inv]) (simp add: x named [THEN iffD1, OF _ refl, symmetric])
  show "kl_items (kl_update i x s) = map (\<lambda>y. if name_of y = name then x else y) (kl_items s)"
    by (auto simp: kl_update_def kl_items_def named)
  show "kl_index (kl_update i x s) = kl_index s"
    by (simp add: kl_update_def)
  have "(i, x) \<in> set (kl_nodes (kl_update i x s))"
    using y(1) by (force simp: kl_update_def)
  then show "map_of (kl_nodes (kl_update i x s)) i = Some x"
    by (simp add: kl_node_iff [OF upd])
qed

subsection \<open>Registering a sequence of names\<close>

text \<open>
  The interface the message layer uses: containers filled by repeated \<open>add\<close>.
\<close>

locale keyed_sequence =
  fixes empty :: 's and add :: "'a \<Rightarrow> 's \<Rightarrow> 's" and items :: "'s \<Rightarrow> 'a list"
    and name_of :: "'a \<Rightarrow> string" and invar :: "'s \<Rightarrow> bool"
  assumes invar_empty: "invar empty"
    and items_empty: "items empty = []"
    and invar_add: "invar s \<Longrightarrow> name_of x \<notin> name_of ` set (items s) \<Longrightarrow> invar (add x s)"
    and items_add: "invar s \<Longrightarrow> name_of x \<notin> name_of ` set (items s) \<Longrightarrow>
        items (add x s) = insert_before_last x (items s)"
begin

lemma fill_nonempty:
  assumes "invar s" and "items s = ys @ [z]"
    and "distinct (map name_of xs)" and "name_of ` set xs \<inter> name_of ` set (items s) = {}"
  shows "invar (fold add xs s) \<and> items (fold add xs s) = ys @ xs @ [z]"
  using assms
proof (induction xs arbitrary: s ys)
  case (Cons x xs)
  have new: "name_of x \<notin> name_of ` set (items s)"
    using Cons.prems(4) by auto
  have "items (add x s) = (ys @ [x]) @ [z]"
    using items_add [OF Cons.prems(1) new] Cons.prems(2) by (simp add: insert_before_last_def)
  then have "invar (fold add xs (add x s)) \<and> items (fold add xs (add x s)) = (ys @ [x]) @ xs @ [z]"
    using Cons.prems invar_add [OF Cons.prems(1) new] by (intro Cons.IH) auto
  then show ?case by simp
qed simp

text \<open>Filling an empty container moves the first element behind all others.\<close>

theorem fill:
  assumes "distinct (map name_of xs)"
  shows "invar (fold add xs empty)" and "items (fold add xs empty) = rotate1 xs"
proof -
  have "invar (fold add xs empty) \<and> items (fold add xs empty) = rotate1 xs"
  proof (cases xs)
    case Nil
    then show ?thesis by (simp add: invar_empty items_empty)
  next
    case (Cons x ys)
    have "items (add x empty) = [] @ [x]" and "invar (add x empty)"
      using items_add [OF invar_empty, of x] invar_add [OF invar_empty, of x]
      by (simp_all add: items_empty insert_before_last_def)
    then show ?thesis
      using fill_nonempty [of "add x empty" "[]" x ys] assms Cons by auto
  qed
  then show "invar (fold add xs empty)" and "items (fold add xs empty) = rotate1 xs"
    by simp_all
qed

end

interpretation kl: keyed_sequence kl_empty "kl_add name_of" kl_items name_of "kl_inv name_of"
  for name_of :: "'a \<Rightarrow> string"
  by unfold_locales (simp_all add: kl_add)

end
