(* ===== verification/Message_Fields.thy ===== *)
theory Message_Fields
  imports Composite_Serializer Keyed_List
begin

text \<open>
  \<^verbatim>\<open>include/isml/message/field/\<close> and \<^verbatim>\<open>src/message/field/\<close>: \<^verbatim>\<open>Field\<close>,
  \<^verbatim>\<open>ValueField<T, Serializer>\<close>, the field descriptors and \<^verbatim>\<open>FieldSet\<close>.

  A C++ type is its identity, what \<^verbatim>\<open>typeid\<close> compares, together with the code the
  binary serializer goes by; \<^verbatim>\<open>int\<close> and \<^verbatim>\<open>unsigned\<close> share a code and differ in
  identity.  All fields use one serializer pack, as the programs of the
  repository do with their \<^verbatim>\<open>FieldSerializer\<close>.
\<close>

type_synonym type_id = nat

text \<open>\<^verbatim>\<open>typeid(MessageId)\<close>, the identity of \<^verbatim>\<open>std::uint32_t\<close>\<close>

definition typeid_MessageId :: type_id where
  "typeid_MessageId = 0"

subsection \<open>ValueField\<close>

record field =
  fld_name :: string
  fld_typeid :: type_id
  fld_type :: ty
  fld_value :: val

definition field_new :: "string \<Rightarrow> type_id \<Rightarrow> ty \<Rightarrow> field" where
  "field_new name tid t =
     \<lparr>fld_name = name, fld_typeid = tid, fld_type = t, fld_value = value_init t\<rparr>"

text \<open>The copy constructor copies the name (in \<^verbatim>\<open>Field\<close>) and the value.\<close>

definition field_copy :: "field \<Rightarrow> field" where
  "field_copy other =
     \<lparr>fld_name = fld_name other, fld_typeid = fld_typeid other, fld_type = fld_type other,
      fld_value = fld_value other\<rparr>"

definition field_clone :: "field \<Rightarrow> field" where
  "field_clone f = field_copy f"

definition field_get :: "field \<Rightarrow> val" where
  "field_get f = fld_value f"

definition field_set :: "val \<Rightarrow> field \<Rightarrow> field" where
  "field_set other f = f\<lparr>fld_value := other\<rparr>"

definition field_eq :: "field \<Rightarrow> field \<Rightarrow> bool" where
  "field_eq lhs rhs \<longleftrightarrow> fld_name lhs = fld_name rhs \<and> field_get lhs = field_get rhs"

text \<open>\<^verbatim>\<open>operator=\<close> takes a value, \<open>operator==\<close> a field or a value; the names do not matter for a value.\<close>

definition field_assign :: "val \<Rightarrow> field \<Rightarrow> field" where
  "field_assign v f = f\<lparr>fld_value := v\<rparr>"

definition field_eq_value :: "field \<Rightarrow> val \<Rightarrow> bool" where
  "field_eq_value lhs rhs \<longleftrightarrow> fld_value lhs = rhs"

lemma field_assign_eq: "field_eq_value (field_assign v f) w \<longleftrightarrow> v = w"
  "field_eq (field_assign v f) (field_assign v g) \<longleftrightarrow> fld_name f = fld_name g"
  by (auto simp: field_assign_def field_eq_value_def field_eq_def field_get_def)

definition field_valueType :: "field \<Rightarrow> type_id" where
  "field_valueType f = fld_typeid f"

definition field_serialize ::
  "serializer list \<Rightarrow> field \<Rightarrow> serialization_context \<Rightarrow> serialization_context outcome" where
  "field_serialize pack f ctx = composite_serialize pack (fld_value f) (fld_name f) ctx"

definition field_deserialize ::
  "serializer list \<Rightarrow> field \<Rightarrow> serialization_context \<Rightarrow> (field \<times> serialization_context) outcome" where
  "field_deserialize pack f ctx =
     bind_outcome (composite_deserialize pack (fld_type f) (fld_value f) (fld_name f) ctx)
       (\<lambda>(v, ctx'). Inr (f\<lparr>fld_value := v\<rparr>, ctx'))"

definition field_serializedSize :: "field \<Rightarrow> nat" where
  "field_serializedSize f = binary_size (fld_value f)"

lemma field_copy_id [simp]: "field_copy f = f" "field_clone f = f"
  by (simp_all add: field_copy_def field_clone_def)

subsection \<open>Descriptors\<close>

record field_descriptor =
  fd_name :: string
  fd_typeid :: type_id
  fd_type :: ty

definition fd_clone :: "field_descriptor \<Rightarrow> field_descriptor" where
  "fd_clone d = \<lparr>fd_name = fd_name d, fd_typeid = fd_typeid d, fd_type = fd_type d\<rparr>"

text \<open>The name is \<^verbatim>\<open>const\<close>: moving from it copies it.\<close>

definition fd_new :: "string \<Rightarrow> type_id \<Rightarrow> ty \<Rightarrow> field_descriptor" where
  "fd_new name tid t = \<lparr>fd_name = name, fd_typeid = tid, fd_type = t\<rparr>"

definition fd_copy :: "field_descriptor \<Rightarrow> field_descriptor" where
  "fd_copy other = fd_new (fd_name other) (fd_typeid other) (fd_type other)"

definition fd_move :: "field_descriptor \<Rightarrow> field_descriptor \<times> field_descriptor" where
  "fd_move other = (fd_new (fd_name other) (fd_typeid other) (fd_type other), other)"

lemma fd_copies: "fd_clone d = d" "fd_copy d = d" "fd_move d = (d, d)"
  by (simp_all add: fd_clone_def fd_copy_def fd_move_def fd_new_def)

definition createField :: "field_descriptor \<Rightarrow> field" where
  "createField d = field_new (fd_name d) (fd_typeid d) (fd_type d)"

lemma fd_clone_id [simp]: "fd_clone d = d"
  by (simp add: fd_clone_def)

lemma createField_simps [simp]:
  "fld_name (createField d) = fd_name d"
  "fld_typeid (createField d) = fd_typeid d"
  "fld_type (createField d) = fd_type d"
  "fld_value (createField d) = value_init (fd_type d)"
  by (simp_all add: createField_def field_new_def)

subsection \<open>FieldSet\<close>

type_synonym field_set = "field keyed_list"

definition fs_new :: field_set where
  "fs_new = kl_empty"

definition fs_contains :: "string \<Rightarrow> field_set \<Rightarrow> bool" where
  "fs_contains name fs \<longleftrightarrow> kl_contains name fs"

definition fs_add :: "field \<Rightarrow> field_set \<Rightarrow> field_set \<times> bool" where
  "fs_add field fs =
     (if kl_contains (fld_name field) fs then (fs, False)
      else (kl_add fld_name field fs, True))"

text \<open>\<^verbatim>\<open>contains<T>(name)\<close> compares the type of the field's value.\<close>

definition fs_contains_typed :: "type_id \<Rightarrow> string \<Rightarrow> field_set \<Rightarrow> bool" where
  "fs_contains_typed tid name fs =
     (if \<not> kl_contains name fs then False
      else case kl_lookup name fs of None \<Rightarrow> False | Some f \<Rightarrow> field_valueType f = tid)"

text \<open>
  \<^verbatim>\<open>get\<close> returns a reference to the field, which is the node that holds it, or
  \<^verbatim>\<open>none\<close>.
\<close>

definition fs_get :: "string \<Rightarrow> field_set \<Rightarrow> node option" where
  "fs_get name fs = (if kl_contains name fs then kl_index fs name else None)"

definition fs_get_typed :: "type_id \<Rightarrow> string \<Rightarrow> field_set \<Rightarrow> node option" where
  "fs_get_typed tid name fs = (if fs_contains_typed tid name fs then kl_index fs name else None)"

definition fs_empty :: "field_set \<Rightarrow> bool" where
  "fs_empty fs \<longleftrightarrow> kl_nodes fs = []"

definition fs_size :: "field_set \<Rightarrow> nat" where
  "fs_size fs = length (kl_nodes fs)"

definition fs_clear :: "field_set \<Rightarrow> field_set" where
  "fs_clear fs = kl_clear fs"

text \<open>\<open>fs_assign other fs\<close> is \<^verbatim>\<open>fs.assign(other)\<close>.\<close>

definition fs_assign :: "field_set \<Rightarrow> field_set \<Rightarrow> field_set" where
  "fs_assign other fs = kl_copy fld_name field_clone other fs"

definition fs_swap :: "field_set \<Rightarrow> field_set \<Rightarrow> field_set \<times> field_set" where
  "fs_swap fs other = (other, fs)"

definition fs_copy :: "field_set \<Rightarrow> field_set" where
  "fs_copy other = fs_assign other fs_new"

text \<open>The move constructor swaps with an empty set: (the new object, the source).\<close>

definition fs_move :: "field_set \<Rightarrow> field_set \<times> field_set" where
  "fs_move other = fs_swap fs_new other"

text \<open>
  Assignment; \<open>same\<close> is \<^verbatim>\<open>this == &other\<close>.  Copying clears the target first, which
  the test on \<open>same\<close> keeps from destroying the source.
\<close>

definition fs_copy_assign :: "bool \<Rightarrow> field_set \<Rightarrow> field_set \<Rightarrow> field_set" where
  "fs_copy_assign same other fs = (if \<not> same then fs_assign other fs else fs)"

definition fs_move_assign :: "bool \<Rightarrow> field_set \<Rightarrow> field_set \<Rightarrow> field_set \<times> field_set" where
  "fs_move_assign same other fs = (if \<not> same then fs_swap fs other else (fs, other))"

definition fs_serialize ::
  "serializer list \<Rightarrow> field_set \<Rightarrow> serialization_context \<Rightarrow> serialization_context outcome" where
  "fs_serialize pack fs ctx = serialize_each (field_serialize pack) (kl_items fs) ctx"

definition fs_deserialize ::
  "serializer list \<Rightarrow> field_set \<Rightarrow> serialization_context
     \<Rightarrow> (field_set \<times> serialization_context) outcome" where
  "fs_deserialize pack fs ctx =
     bind_outcome
       (deserialize_each
          (\<lambda>(i, f) c. bind_outcome (field_deserialize pack f c) (\<lambda>(f', c'). Inr ((i, f'), c')))
          (kl_nodes fs) ctx)
       (\<lambda>(nodes, ctx'). Inr (fs\<lparr>kl_nodes := nodes\<rparr>, ctx'))"

definition fs_serializedSize :: "field_set \<Rightarrow> nat" where
  "fs_serializedSize fs = foldl (\<lambda>size f. size + field_serializedSize f) 0 (kl_items fs)"

abbreviation fs_inv :: "field_set \<Rightarrow> bool" where
  "fs_inv \<equiv> kl_inv fld_name"

subsection \<open>Operations keep the invariant\<close>

lemma fs_inv_new [inv_intros, simp]: "fs_inv fs_new"
  by (simp add: fs_new_def)

lemma fs_contains_iff: "fs_inv fs \<Longrightarrow> fs_contains name fs \<longleftrightarrow> name \<in> fld_name ` set (kl_items fs)"
  by (simp add: fs_contains_def kl_contains_iff)

lemma fs_inv_add [inv_intros]: "fs_inv fs \<Longrightarrow> fs_inv (fst (fs_add f fs))"
  by (simp add: fs_add_def kl_contains_iff kl_add)

lemma fs_add_new:
  "fs_inv fs \<Longrightarrow> fld_name f \<notin> fld_name ` set (kl_items fs) \<Longrightarrow> fs_add f fs = (kl_add fld_name f fs, True)"
  by (simp add: fs_add_def kl_contains_iff)

lemma fs_inv_assign [inv_intros]: "fs_inv other \<Longrightarrow> fs_inv (fs_assign other fs)"
  by (simp add: fs_assign_def kl_copy)

lemma kl_items_assign: "fs_inv other \<Longrightarrow> kl_items (fs_assign other fs) = rev (kl_items other)"
  by (simp add: fs_assign_def kl_copy map_idI)

lemma kl_items_copy: "fs_inv fs \<Longrightarrow> kl_items (fs_copy fs) = rev (kl_items fs)"
  by (simp add: fs_copy_def kl_items_assign)

lemma fs_inv_copy [inv_intros]: "fs_inv fs \<Longrightarrow> fs_inv (fs_copy fs)"
  by (simp add: fs_copy_def fs_inv_assign)

lemma kl_lookup_Some_iff:
  "fs_inv fs \<Longrightarrow> kl_lookup name fs = Some f \<longleftrightarrow> f \<in> set (kl_items fs) \<and> fld_name f = name"
proof -
  assume inv: "fs_inv fs"
  then have "distinct (map fst (map (\<lambda>x. (fld_name x, x)) (kl_items fs)))"
    by (simp add: kl_inv_def o_def)
  with inv show ?thesis
    by (auto simp: kl_lookup_eq map_of_eq_Some_iff)
qed

lemma fs_contains_typed_iff:
  "fs_inv fs \<Longrightarrow> fs_contains_typed tid name fs \<longleftrightarrow>
     (\<exists>f \<in> set (kl_items fs). fld_name f = name \<and> fld_typeid f = tid)"
proof -
  assume inv: "fs_inv fs"
  show ?thesis
  proof (cases "kl_lookup name fs")
    case None
    then have "\<nexists>f. f \<in> set (kl_items fs) \<and> fld_name f = name"
      using kl_lookup_Some_iff [OF inv, of name] by auto
    with None show ?thesis by (auto simp: fs_contains_typed_def)
  next
    case (Some f)
    then have f: "f \<in> set (kl_items fs)" "fld_name f = name"
      using kl_lookup_Some_iff [OF inv, of name f] by auto
    have uniq: "g = f" if "g \<in> set (kl_items fs)" "fld_name g = name" for g
      using kl_lookup_Some_iff [OF inv, of name g] Some that by simp
    have "kl_contains name fs"
      using f by (auto simp: kl_contains_iff [OF inv])
    then have "fs_contains_typed tid name fs \<longleftrightarrow> fld_typeid f = tid"
      by (simp add: fs_contains_typed_def field_valueType_def Some)
    with f uniq show ?thesis by blast
  qed
qed

subsection \<open>Serialization over a codec\<close>

text \<open>
  The value part of a field and a field list; a target list \<open>admits\<close> values when
  each can be read into its field.
\<close>

definition field_ok :: "field \<Rightarrow> bool" where
  "field_ok f \<longleftrightarrow> well_typed (fld_type f) (fld_value f) \<and> fits (fld_value f)"

definition field_fresh :: "field \<Rightarrow> bool" where
  "field_fresh f \<longleftrightarrow> fresh (fld_type f) (fld_value f)"

lemma field_ok_determinate: "field_ok f \<Longrightarrow> determinate (fld_value f)"
  by (auto simp: field_ok_def intro: well_typed_determinate)

context codec begin

lemma enc_fields:
  assumes "list_all field_ok fs"
  shows "serialize_each (\<lambda>f. enc (fld_value f) (fld_name f)) fs (stream_context tag s)
     = Inr (stream_context tag (stream_write (concat (map (\<lambda>f. image (fld_value f)) fs)) s))"
  using assms
  by (induction fs arbitrary: s) (simp_all add: enc_image field_ok_determinate)

text \<open>
  Reading into nodes \<open>ns\<close> whose fields are fresh and have the types of the fields
  written, in the same order, gives the nodes the written values.
\<close>

lemma dec_fields:
  assumes "list_all2 (\<lambda>(i, g) f. field_fresh g \<and> field_ok f \<and> fld_type g = fld_type f) ns fs"
  shows "deserialize_each
       (\<lambda>(i, f) c. bind_outcome
           (bind_outcome (dec (fld_type f) (fld_value f) (fld_name f) c)
              (\<lambda>(v, c'). Inr (f\<lparr>fld_value := v\<rparr>, c')))
           (\<lambda>(f', c'). Inr ((i, f'), c')))
       ns (stream_context tag
             \<lparr>sbuf = concat (map (\<lambda>f. image (fld_value f)) fs) @ rest, sgood = True\<rparr>)
     = Inr (map2 (\<lambda>(i, g) f. (i, g\<lparr>fld_value := fld_value f\<rparr>)) ns fs,
            stream_context tag \<lparr>sbuf = rest, sgood = True\<rparr>)"
  using assms
proof (induction rule: list_all2_induct)
  case (Cons n ns f fs)
  obtain i g where n: "n = (i, g)" by (cases n)
  have "dec (fld_type g) (fld_value g) (fld_name g)
      (stream_context tag \<lparr>sbuf = image (fld_value f) @ r, sgood = True\<rparr>)
      = Inr (fld_value f, stream_context tag \<lparr>sbuf = r, sgood = True\<rparr>)" for r
    using Cons.hyps(1) n by (intro dec_image) (auto simp: field_ok_def field_fresh_def)
  with Cons.IH n show ?case by simp
qed simp

end

lemma map_snd_map2:
  "length ns = length fs \<Longrightarrow>
   map snd (map2 (\<lambda>(i, g) f. (i, h g f)) ns fs) = map2 h (map snd ns) fs"
  by (induction ns fs rule: list_induct2) auto

lemma map_fst_map2:
  "length ns = length fs \<Longrightarrow> map fst (map2 (\<lambda>(i, g) f. (i, h g f)) ns fs) = map fst ns"
  by (induction ns fs rule: list_induct2) auto

text \<open>The bytes of a field list, and the two laws for the binary packs.\<close>

definition fields_wire :: "field list \<Rightarrow> byte list" where
  "fields_wire fs = concat (map (\<lambda>f. wire (fld_value f)) fs)"

lemma fs_serialize_wire:
  assumes "binary_pack pl pack" and "list_all field_ok (kl_items fs)"
  shows "fs_serialize pack fs (stream_context BinarySerializerTag s)
     = Inr (stream_context BinarySerializerTag (stream_write (fields_wire (kl_items fs)) s))"
  using codec.enc_fields [OF codec_composite [OF assms(1)] assms(2)]
  by (simp add: fs_serialize_def fields_wire_def field_serialize_def [abs_def])

lemma fs_deserialize_wire:
  assumes pack: "binary_pack pl pack"
    and fit: "list_all2 (\<lambda>g f. field_fresh g \<and> field_ok f \<and> fld_type g = fld_type f) (kl_items fs) gs"
  shows "\<exists>fs'. fs_deserialize pack fs (bin_stream (fields_wire gs @ rest)) = Inr (fs', bin_stream rest)
     \<and> kl_items fs' = map2 (\<lambda>g f. g\<lparr>fld_value := fld_value f\<rparr>) (kl_items fs) gs
     \<and> map fst (kl_nodes fs') = map fst (kl_nodes fs) \<and> kl_index fs' = kl_index fs"
proof -
  let ?ns = "map2 (\<lambda>(i, g) f. (i, g\<lparr>fld_value := fld_value f\<rparr>)) (kl_nodes fs) gs"
  have len: "length (kl_nodes fs) = length gs"
    using fit by (auto simp: kl_items_def dest: list_all2_lengthD)
  have "list_all2 (\<lambda>(i, g) f. field_fresh g \<and> field_ok f \<and> fld_type g = fld_type f) (kl_nodes fs) gs"
    using fit by (simp add: kl_items_def list_all2_map1 case_prod_unfold)
  from codec.dec_fields [OF codec_composite [OF pack] this]
  have "fs_deserialize pack fs (bin_stream (fields_wire gs @ rest))
      = Inr (fs\<lparr>kl_nodes := ?ns\<rparr>, bin_stream rest)"
    by (simp add: fs_deserialize_def fields_wire_def field_deserialize_def [abs_def])
  moreover have "map snd ?ns = map2 (\<lambda>g f. g\<lparr>fld_value := fld_value f\<rparr>) (kl_items fs) gs"
    unfolding kl_items_def by (rule map_snd_map2 [OF len])
  moreover have "map fst ?ns = map fst (kl_nodes fs)"
    by (rule map_fst_map2 [OF len])
  ultimately show ?thesis
    by (simp add: kl_items_def)
qed

lemma fs_serializedSize_wire:
  "list_all field_ok (kl_items fs) \<Longrightarrow> fs_serializedSize fs = length (fields_wire (kl_items fs))"
  by (auto simp: fs_serializedSize_def foldl_sum_size fields_wire_def length_concat o_def
      field_serializedSize_def list_all_iff binary_size_wire field_ok_determinate
      intro!: arg_cong [where f = sum_list])

subsection \<open>FieldSet as a map\<close>

text \<open>
  The contract of \<^verbatim>\<open>FieldSet\<close>: a finite map from names to fields, which \<open>add\<close>
  extends and never overwrites.
\<close>

definition fs_abs :: "field_set \<Rightarrow> string \<rightharpoonup> field" where
  "fs_abs fs = map_of (map (\<lambda>f. (fld_name f, f)) (kl_items fs))"

lemma fs_abs_Some_iff:
  "fs_inv fs \<Longrightarrow> fs_abs fs name = Some f \<longleftrightarrow> f \<in> set (kl_items fs) \<and> fld_name f = name"
  using kl_lookup_Some_iff by (simp add: fs_abs_def flip: kl_lookup_eq)

lemma fs_abs_None_iff: "fs_abs fs name = None \<longleftrightarrow> name \<notin> fld_name ` set (kl_items fs)"
  by (simp add: fs_abs_def map_of_eq_None_iff image_image)

text \<open>Sets with the same fields have the same abstraction, whatever their order.\<close>

lemma fs_abs_eqI:
  assumes "fs_inv fs" and "fs_inv fs'" and "set (kl_items fs) = set (kl_items fs')"
  shows "fs_abs fs = fs_abs fs'"
proof
  fix name
  have "fs_abs fs name = Some f \<longleftrightarrow> fs_abs fs' name = Some f" for f
    using assms by (simp add: fs_abs_Some_iff)
  then show "fs_abs fs name = fs_abs fs' name"
    by (metis not_Some_eq)
qed

lemma fs_abs_add:
  assumes "fs_inv fs" and "fld_name f \<notin> fld_name ` set (kl_items fs)"
  shows "fs_abs (kl_add fld_name f fs) = (fs_abs fs)(fld_name f \<mapsto> f)"
proof
  fix name
  have inv: "fs_inv (kl_add fld_name f fs)"
    and items: "set (kl_items (kl_add fld_name f fs)) = insert f (set (kl_items fs))"
    using kl_add [OF assms] by simp_all
  have "fs_abs (kl_add fld_name f fs) name = Some g \<longleftrightarrow> ((fs_abs fs)(fld_name f \<mapsto> f)) name = Some g" for g
    using assms(2) by (auto simp: fs_abs_Some_iff [OF inv] fs_abs_Some_iff [OF assms(1)] items)
      (metis image_eqI)
  then show "fs_abs (kl_add fld_name f fs) name = ((fs_abs fs)(fld_name f \<mapsto> f)) name"
    by (metis not_Some_eq)
qed

subsection \<open>Properties\<close>

text \<open>C3: \<^verbatim>\<open>FieldSet\<close> refines a map from names to fields: \<^verbatim>\<open>add\<close> extends the map and returns true
  exactly when the name is new, \<^verbatim>\<open>contains\<close> is membership, the typed variants ask for the
  value type too, copies denote the same map, and every operation keeps list and index
  consistent.\<close>

theorem field_set_refines_map:
  assumes "fs_inv fs"
  shows "fs_abs (fst (fs_add f fs))
           = (if fs_abs fs (fld_name f) = None then (fs_abs fs)(fld_name f \<mapsto> f) else fs_abs fs)
         \<and> snd (fs_add f fs) = (fs_abs fs (fld_name f) = None)
         \<and> fs_contains name fs = (fs_abs fs name \<noteq> None)
         \<and> fs_contains_typed tid name fs = (\<exists>g. fs_abs fs name = Some g \<and> fld_typeid g = tid)
         \<and> fs_abs (fs_copy fs) = fs_abs fs \<and> fs_abs (fs_assign fs other) = fs_abs fs
         \<and> fs_abs (fst (fs_move fs)) = fs_abs fs \<and> fs_abs (snd (fs_move fs)) = Map.empty
         \<and> fs_abs (fs_clear fs) = Map.empty
         \<and> list_all fs_inv [fst (fs_add f fs), fs_copy fs, fs_assign fs other, fs_clear fs,
                            fst (fs_move fs), snd (fs_move fs)]"
proof (intro conjI)
  show "fs_abs (fst (fs_add f fs))
      = (if fs_abs fs (fld_name f) = None then (fs_abs fs)(fld_name f \<mapsto> f) else fs_abs fs)"
    using assms by (auto simp: fs_add_def kl_contains_iff fs_abs_None_iff fs_abs_add)
  show "snd (fs_add f fs) = (fs_abs fs (fld_name f) = None)"
    and "fs_contains name fs = (fs_abs fs name \<noteq> None)"
    using assms by (auto simp: fs_add_def kl_contains_iff fs_abs_None_iff fs_contains_iff)
  show "fs_contains_typed tid name fs = (\<exists>g. fs_abs fs name = Some g \<and> fld_typeid g = tid)"
    using assms by (auto simp: fs_contains_typed_iff fs_abs_Some_iff)
  show "fs_abs (fs_copy fs) = fs_abs fs"
    by (rule fs_abs_eqI [OF fs_inv_copy [OF assms] assms]) (simp add: kl_items_copy assms)
  show "fs_abs (fs_assign fs other) = fs_abs fs"
    by (rule fs_abs_eqI [OF fs_inv_assign [OF assms] assms]) (simp add: kl_items_assign assms)
  show "fs_abs (fst (fs_move fs)) = fs_abs fs" "fs_abs (snd (fs_move fs)) = Map.empty"
    "fs_abs (fs_clear fs) = Map.empty"
    by (simp_all add: fs_move_def fs_swap_def fs_abs_def fs_new_def fs_clear_def)
  show "list_all fs_inv [fst (fs_add f fs), fs_copy fs, fs_assign fs other, fs_clear fs,
                         fst (fs_move fs), snd (fs_move fs)]"
    using assms
    by (simp add: fs_inv_add fs_inv_copy fs_inv_assign fs_clear_def fs_move_def fs_swap_def)
qed

theorem field_set_refines_map_witness:
  "snd (fs_add (field_new ''a'' 1 (ScalarT I8)) fs_new)
   \<and> \<not> fs_contains_typed 2 ''a'' fs_new \<and> fs_abs (fs_copy fs_new) = fs_abs fs_new"
  using field_set_refines_map [of fs_new "field_new ''a'' 1 (ScalarT I8)" "''a''" 2]
  by (simp add: fs_abs_def fs_new_def)

end
