(* ===== verification/Message_Model.thy ===== *)
theory Message_Model
  imports Message_Fields
begin

text \<open>
  \<^verbatim>\<open>MessageDescriptor\<close>, \<^verbatim>\<open>Message\<close> and \<^verbatim>\<open>MessageFactory\<close>
  (\<^verbatim>\<open>src/message/message_descriptor.cpp\<close>, \<^verbatim>\<open>message.cpp\<close>, \<^verbatim>\<open>message_factory.cpp\<close> and
  their headers).
\<close>

subsection \<open>MessageDescriptor\<close>

record message_descriptor =
  md_type :: message_type
  md_fields :: "field_descriptor keyed_list"

definition md_new :: "message_type \<Rightarrow> message_descriptor" where
  "md_new t = \<lparr>md_type = t, md_fields = kl_empty\<rparr>"

definition duplicate_descriptor_text :: "string \<Rightarrow> string" where
  "duplicate_descriptor_text name =
     ''Descriptor with same name ('' @ name @ '') has already been registered''"

definition addFieldDescriptor ::
  "field_descriptor \<Rightarrow> message_descriptor \<Rightarrow> message_descriptor outcome" where
  "addFieldDescriptor descriptor md =
     (if kl_contains (fd_name descriptor) (md_fields md)
      then Inl (Thrown (mk_exn InvalidArgumentException
                          (duplicate_descriptor_text (fd_name descriptor))))
      else Inr (md\<lparr>md_fields := kl_add fd_name descriptor (md_fields md)\<rparr>))"

definition registerField_ptr ::
  "field_descriptor \<Rightarrow> message_descriptor \<Rightarrow> message_descriptor outcome" where
  "registerField_ptr descriptor md = addFieldDescriptor descriptor md"

text \<open>\<^verbatim>\<open>registerField<Serializer, T>(name)\<close>\<close>

definition registerField ::
  "type_id \<Rightarrow> ty \<Rightarrow> string \<Rightarrow> message_descriptor \<Rightarrow> message_descriptor outcome" where
  "registerField tid t name md =
     addFieldDescriptor \<lparr>fd_name = name, fd_typeid = tid, fd_type = t\<rparr> md"

definition fieldDescriptors :: "message_descriptor \<Rightarrow> field_descriptor list" where
  "fieldDescriptors md = kl_items (md_fields md)"

definition md_swap ::
  "message_descriptor \<Rightarrow> message_descriptor \<Rightarrow> message_descriptor \<times> message_descriptor" where
  "md_swap a b = (b, a)"

text \<open>\<open>md_copy_from other md\<close> is \<^verbatim>\<open>md.copy(other)\<close>.\<close>

definition md_copy_from :: "message_descriptor \<Rightarrow> message_descriptor \<Rightarrow> message_descriptor" where
  "md_copy_from other md =
     \<lparr>md_type = md_type other, md_fields = kl_copy fd_name fd_clone (md_fields other) (md_fields md)\<rparr>"

definition md_copy :: "message_descriptor \<Rightarrow> message_descriptor" where
  "md_copy other = md_copy_from other (md_new (md_type other))"

text \<open>The move constructor: (the new object, the source).\<close>

definition md_move :: "message_descriptor \<Rightarrow> message_descriptor \<times> message_descriptor" where
  "md_move other = md_swap (md_new (md_type other)) other"

definition md_copy_assign ::
  "bool \<Rightarrow> message_descriptor \<Rightarrow> message_descriptor \<Rightarrow> message_descriptor" where
  "md_copy_assign same other md = (if \<not> same then md_copy_from other md else md)"

definition md_move_assign ::
  "bool \<Rightarrow> message_descriptor \<Rightarrow> message_descriptor \<Rightarrow> message_descriptor \<times> message_descriptor" where
  "md_move_assign same other md = (if \<not> same then md_swap md other else (md, other))"

definition md_inv :: "message_descriptor \<Rightarrow> bool" where
  "md_inv md \<longleftrightarrow> kl_inv fd_name (md_fields md)"

lemma md_inv_new [inv_intros, simp]: "md_inv (md_new t)"
  by (simp add: md_inv_def md_new_def)

lemma fieldDescriptors_new [simp]: "fieldDescriptors (md_new t) = []"
  by (simp add: fieldDescriptors_def md_new_def)

lemma md_inv_add [inv_intros]:
  "md_inv md \<Longrightarrow> addFieldDescriptor d md = Inr md' \<Longrightarrow> md_inv md'"
  by (auto simp: md_inv_def addFieldDescriptor_def kl_contains_iff kl_add split: if_splits)

lemma md_inv_copy [inv_intros]: "md_inv md \<Longrightarrow> md_inv (md_copy md)"
  by (simp add: md_inv_def md_copy_def md_copy_from_def md_new_def kl_copy)

lemma fieldDescriptors_copy:
  "md_inv md \<Longrightarrow> fieldDescriptors (md_copy md) = rev (fieldDescriptors md)"
  by (simp add: md_inv_def md_copy_def md_copy_from_def md_new_def kl_copy fieldDescriptors_def
      map_idI)

lemma md_type_copy [simp]: "md_type (md_copy md) = md_type md"
  by (simp add: md_copy_def md_copy_from_def)

lemma fieldDescriptors_distinct:
  "md_inv md \<Longrightarrow> distinct (map fd_name (fieldDescriptors md))"
  by (simp add: md_inv_def kl_inv_def fieldDescriptors_def)

text \<open>A chain \<^verbatim>\<open>descriptor.registerField(..).registerField(..)...\<close>\<close>

primrec register_all ::
  "field_descriptor list \<Rightarrow> message_descriptor \<Rightarrow> message_descriptor outcome" where
  "register_all [] md = Inr md"
| "register_all (d # ds) md =
     bind_outcome (registerField (fd_typeid d) (fd_type d) (fd_name d) md) (register_all ds)"

lemma registerField_eq:
  "registerField (fd_typeid d) (fd_type d) (fd_name d) md = addFieldDescriptor d md"
  by (cases d) (simp add: registerField_def)

lemma register_all_ok:
  assumes "md_inv md" and "distinct (map fd_name ds)"
    and "fd_name ` set ds \<inter> fd_name ` set (fieldDescriptors md) = {}"
  shows "register_all ds md = Inr (md\<lparr>md_fields := fold (kl_add fd_name) ds (md_fields md)\<rparr>)"
  using assms
proof (induction ds arbitrary: md)
  case (Cons d ds)
  let ?md = "md\<lparr>md_fields := kl_add fd_name d (md_fields md)\<rparr>"
  have new: "fd_name d \<notin> fd_name ` set (kl_items (md_fields md))"
    using Cons.prems(3) by (auto simp: fieldDescriptors_def)
  then have add: "addFieldDescriptor d md = Inr ?md"
    using Cons.prems(1) by (simp add: addFieldDescriptor_def kl_contains_iff md_inv_def)
  have "set (fieldDescriptors ?md) = insert d (set (fieldDescriptors md))"
    using Cons.prems(1) new
    by (simp add: fieldDescriptors_def md_inv_def kl_add)
  with Cons.prems add have "register_all ds ?md
      = Inr (?md\<lparr>md_fields := fold (kl_add fd_name) ds (md_fields ?md)\<rparr>)"
    by (intro Cons.IH) (auto intro: md_inv_add)
  then show ?case
    by (simp add: registerField_eq add)
qed simp

text \<open>The list of descriptors starts with the second one registered and ends with the first.\<close>

lemma register_all_new:
  assumes "distinct (map fd_name ds)"
  shows "\<exists>md. register_all ds (md_new t) = Inr md \<and> md_inv md \<and> md_type md = t
           \<and> fieldDescriptors md = rotate1 ds"
  using register_all_ok [of "md_new t" ds] kl.fill [OF assms] assms
  by (simp add: md_inv_def fieldDescriptors_def) (simp add: md_new_def)

lemma register_all_duplicate:
  assumes "md_inv md" and "\<not> distinct (map fd_name ds)"
  shows "\<exists>d \<in> set ds. register_all ds md
    = Inl (Thrown (mk_exn InvalidArgumentException (duplicate_descriptor_text (fd_name d))))"
proof -
  have "\<exists>d \<in> set ds. register_all ds md
      = Inl (Thrown (mk_exn InvalidArgumentException (duplicate_descriptor_text (fd_name d))))"
    if "\<not> distinct (map fd_name ds) \<or> (\<exists>d \<in> set ds. kl_contains (fd_name d) (md_fields md))"
      and "md_inv md" for ds md
    using that
  proof (induction ds arbitrary: md)
    case (Cons d ds)
    show ?case
    proof (cases "kl_contains (fd_name d) (md_fields md)")
      case True
      then show ?thesis by (simp add: registerField_eq addFieldDescriptor_def)
    next
      case False
      then obtain md' where md': "addFieldDescriptor d md = Inr md'"
          "md_fields md' = kl_add fd_name d (md_fields md)"
        by (simp add: addFieldDescriptor_def)
      have keep: "kl_contains n (md_fields md')" if "n = fd_name d \<or> kl_contains n (md_fields md)" for n
        using that False Cons.prems(2) md'(2)
          kl.items_add [of fd_name "md_fields md" d] kl.invar_add [of fd_name "md_fields md" d]
        by (auto simp: md_inv_def kl_contains_iff)
      from False Cons.prems(1) have
        "\<not> distinct (map fd_name ds) \<or> (\<exists>e \<in> set ds. kl_contains (fd_name e) (md_fields md'))"
        using keep by (auto simp: image_iff) metis
      from Cons.IH [OF this md_inv_add [OF Cons.prems(2) md'(1)]] md'(1) show ?thesis
        by (auto simp: registerField_eq)
    qed
  qed simp
  with assms show ?thesis by blast
qed

subsection \<open>Message\<close>

text \<open>
  The session of a message is a shared pointer; a session is known by its
  identifier, which never changes.
\<close>

record message =
  msg_id :: message_id
  msg_type :: message_type
  msg_fieldset :: field_set
  msg_session :: "session_id option"

text \<open>\<^verbatim>\<open>static std::atomic<MessageId> id { 0 }; return ++id;\<close>\<close>

definition generateId :: "message_id \<Rightarrow> message_id \<times> message_id" where
  "generateId counter = (counter + 1, counter + 1)"

definition message_new ::
  "message_descriptor \<Rightarrow> session_id option \<Rightarrow> message_id \<Rightarrow> message \<times> message_id" where
  "message_new descriptor session counter =
     (let (id, counter') = generateId counter;
          fieldset = fold (\<lambda>d fs. fst (fs_add (createField d) fs)) (fieldDescriptors descriptor) fs_new
      in (\<lparr>msg_id = id, msg_type = md_type descriptor, msg_fieldset = fieldset,
           msg_session = session\<rparr>, counter'))"

text \<open>The copy constructor takes a new identifier, the move constructor keeps it.\<close>

definition message_copy :: "message \<Rightarrow> message_id \<Rightarrow> message \<times> message_id" where
  "message_copy other counter =
     (let (id, counter') = generateId counter
      in (\<lparr>msg_id = id, msg_type = msg_type other, msg_fieldset = fs_copy (msg_fieldset other),
           msg_session = msg_session other\<rparr>, counter'))"

definition message_move :: "message \<Rightarrow> message \<times> message" where
  "message_move other =
     (let (fieldset, old) = fs_move (msg_fieldset other)
      in (\<lparr>msg_id = msg_id other, msg_type = msg_type other, msg_fieldset = fieldset,
           msg_session = msg_session other\<rparr>,
          other\<lparr>msg_fieldset := old, msg_session := None\<rparr>))"

definition message_clone :: "message \<Rightarrow> message_id \<Rightarrow> message \<times> message_id" where
  "message_clone msg counter = message_copy msg counter"

definition message_hasField :: "string \<Rightarrow> message \<Rightarrow> bool" where
  "message_hasField name msg = fs_contains name (msg_fieldset msg)"

definition message_sessionId :: "message \<Rightarrow> session_id" where
  "message_sessionId msg = (case msg_session msg of Some sid \<Rightarrow> sid | None \<Rightarrow> kBadSessionId)"

definition message_get_type :: "message \<Rightarrow> message_type" where
  "message_get_type msg = msg_type msg"

definition message_get_session :: "message \<Rightarrow> session_id option" where
  "message_get_session msg = msg_session msg"

definition message_get_id :: "message \<Rightarrow> message_id" where
  "message_get_id msg = msg_id msg"

text \<open>\<^verbatim>\<open>message.field<T>(name)\<close>: a reference to the field, as the node that holds it.\<close>

definition message_field :: "type_id \<Rightarrow> string \<Rightarrow> message \<Rightarrow> node outcome" where
  "message_field tid name msg =
     (case fs_get_typed tid name (msg_fieldset msg) of
        Some i \<Rightarrow> Inr i
      | None \<Rightarrow> Inl (Thrown (mk_field_does_not_exist
                    ''Message doesn't contain specified field'' name
                    (message_sessionId msg) (msg_id msg))))"

text \<open>\<^verbatim>\<open>message.field<T>(name).get()\<close> and \<^verbatim>\<open>message.field<T>(name).set(v)\<close>\<close>

definition message_field_get :: "type_id \<Rightarrow> string \<Rightarrow> message \<Rightarrow> val outcome" where
  "message_field_get tid name msg =
     bind_outcome (message_field tid name msg) (\<lambda>i.
       case map_of (kl_nodes (msg_fieldset msg)) i of
         None \<Rightarrow> Inl (Fault DanglingReference) | Some f \<Rightarrow> Inr (field_get f))"

definition message_field_set :: "type_id \<Rightarrow> string \<Rightarrow> val \<Rightarrow> message \<Rightarrow> message outcome" where
  "message_field_set tid name v msg =
     bind_outcome (message_field tid name msg) (\<lambda>i.
       case map_of (kl_nodes (msg_fieldset msg)) i of
         None \<Rightarrow> Inl (Fault DanglingReference)
       | Some f \<Rightarrow> Inr (msg\<lparr>msg_fieldset := kl_update i (field_set v f) (msg_fieldset msg)\<rparr>))"

definition message_serialize ::
  "serializer list \<Rightarrow> message \<Rightarrow> serialization_context \<Rightarrow> serialization_context outcome" where
  "message_serialize pack msg ctx = fs_serialize pack (msg_fieldset msg) ctx"

definition message_deserialize ::
  "serializer list \<Rightarrow> message \<Rightarrow> serialization_context
     \<Rightarrow> (message \<times> serialization_context) outcome" where
  "message_deserialize pack msg ctx =
     bind_outcome (fs_deserialize pack (msg_fieldset msg) ctx) (\<lambda>(fs, ctx').
       Inr (msg\<lparr>msg_fieldset := fs\<rparr>, ctx'))"

definition message_serializedSize :: "message \<Rightarrow> nat" where
  "message_serializedSize msg = fs_serializedSize (msg_fieldset msg)"

abbreviation message_fields :: "message \<Rightarrow> field list" where
  "message_fields msg \<equiv> kl_items (msg_fieldset msg)"

definition message_inv :: "message \<Rightarrow> bool" where
  "message_inv msg \<longleftrightarrow> fs_inv (msg_fieldset msg)"

subsection \<open>MessageFactory\<close>

type_synonym message_factory = "message_type \<rightharpoonup> message_descriptor"

definition factory_new :: message_factory where
  "factory_new = Map.empty"

definition hasDescriptor :: "message_type \<Rightarrow> message_factory \<Rightarrow> bool" where
  "hasDescriptor t f \<longleftrightarrow> f t \<noteq> None"

definition createMessage ::
  "message_factory \<Rightarrow> message_type \<Rightarrow> session_id \<Rightarrow> message_id \<Rightarrow> message outcome \<times> message_id" where
  "createMessage f t session counter =
     (case f t of
        None \<Rightarrow> (Inl (Thrown (mk_unknown_message_type
                   ''There is no registered descriptor for this message type'' t)), counter)
      | Some descriptor \<Rightarrow>
          (let (msg, counter') = message_new descriptor (Some session) counter
           in (Inr msg, counter')))"

text \<open>
  The descriptor arrives by value and is moved into the map, which leaves an
  entry of that type alone.
\<close>

definition addDescriptor :: "message_descriptor \<Rightarrow> message_factory \<Rightarrow> message_factory \<times> bool" where
  "addDescriptor descriptor f =
     (let t = md_type descriptor
      in if f t = None then (f(t \<mapsto> fst (md_move descriptor)), True) else (f, False))"

definition addDescriptor_configure ::
  "message_type \<Rightarrow> (message_descriptor \<Rightarrow> message_descriptor outcome) \<Rightarrow> message_factory
     \<Rightarrow> (message_factory \<times> bool) outcome" where
  "addDescriptor_configure t configure f =
     bind_outcome (configure (md_new t)) (\<lambda>descriptor. Inr (addDescriptor descriptor f))"

definition factory_copy :: "message_factory \<Rightarrow> message_factory" where
  "factory_copy other = (\<lambda>t. map_option md_copy (other t))"

definition factory_swap :: "message_factory \<Rightarrow> message_factory \<Rightarrow> message_factory \<times> message_factory" where
  "factory_swap a b = (b, a)"

definition factory_move :: "message_factory \<Rightarrow> message_factory \<times> message_factory" where
  "factory_move other = factory_swap factory_new other"

text \<open>The assignments return the factory and what is left of the other one; assigning a factory to itself does nothing.\<close>

definition factory_copy_assign :: "bool \<Rightarrow> message_factory \<Rightarrow> message_factory \<Rightarrow> message_factory" where
  "factory_copy_assign same_object self other = (if \<not> same_object then factory_copy other else self)"

definition factory_move_assign ::
  "bool \<Rightarrow> message_factory \<Rightarrow> message_factory \<Rightarrow> message_factory \<times> message_factory" where
  "factory_move_assign same_object self other = (if \<not> same_object then factory_swap self other else (self, other))"

definition factory_inv :: "message_factory \<Rightarrow> bool" where
  "factory_inv f \<longleftrightarrow> (\<forall>t md. f t = Some md \<longrightarrow> md_inv md \<and> md_type md = t)"

lemma factory_inv_new [inv_intros, simp]: "factory_inv factory_new"
  by (simp add: factory_inv_def factory_new_def)

lemma factory_inv_addDescriptor [inv_intros]:
  "factory_inv f \<Longrightarrow> md_inv md \<Longrightarrow> factory_inv (fst (addDescriptor md f))"
  by (auto simp: factory_inv_def addDescriptor_def md_move_def md_swap_def Let_def)

lemma factory_inv_copy [inv_intros]: "factory_inv f \<Longrightarrow> factory_inv (factory_copy f)"
  by (auto simp: factory_inv_def factory_copy_def md_inv_copy)

lemma factory_inv_assign [inv_intros]:
  "factory_inv f \<Longrightarrow> factory_inv g \<Longrightarrow> factory_inv (factory_copy_assign same f g)"
  "factory_inv f \<Longrightarrow> factory_inv g \<Longrightarrow> factory_move_assign same f g = (f', g')
     \<Longrightarrow> factory_inv f' \<and> factory_inv g'"
  by (auto simp: factory_copy_assign_def factory_move_assign_def factory_swap_def factory_inv_copy split: if_splits)

subsection \<open>What a new message holds\<close>

lemma fold_fs_add:
  assumes "fs_inv fs" and "distinct (map fd_name ds)"
    and "fd_name ` set ds \<inter> fld_name ` set (kl_items fs) = {}"
  shows "fold (\<lambda>d fs. fst (fs_add (createField d) fs)) ds fs
       = fold (kl_add fld_name) (map createField ds) fs"
  using assms
proof (induction ds arbitrary: fs)
  case (Cons d ds)
  have new: "fld_name (createField d) \<notin> fld_name ` set (kl_items fs)"
    using Cons.prems(3) by auto
  have "fold (\<lambda>d fs. fst (fs_add (createField d) fs)) ds (kl_add fld_name (createField d) fs)
      = fold (kl_add fld_name) (map createField ds) (kl_add fld_name (createField d) fs)"
    using Cons.prems new by (intro Cons.IH) (auto simp: kl_add)
  then show ?case
    using Cons.prems(1) new by (simp add: fs_add_new)
qed simp

lemma message_new:
  assumes "md_inv md"
  shows "message_inv (fst (message_new md session counter))"
    and "message_fields (fst (message_new md session counter))
       = rotate1 (map createField (fieldDescriptors md))"
    and "msg_id (fst (message_new md session counter)) = counter + 1"
    and "msg_type (fst (message_new md session counter)) = md_type md"
    and "msg_session (fst (message_new md session counter)) = session"
    and "snd (message_new md session counter) = counter + 1"
proof -
  let ?fs = "fold (\<lambda>d fs. fst (fs_add (createField d) fs)) (fieldDescriptors md) fs_new"
  have dist: "distinct (map fd_name (fieldDescriptors md))"
    using assms by (rule fieldDescriptors_distinct)
  then have fs: "?fs = fold (kl_add fld_name) (map createField (fieldDescriptors md)) kl_empty"
    by (subst fold_fs_add) (simp_all add: fs_new_def)
  have "distinct (map fld_name (map createField (fieldDescriptors md)))"
    using dist by (simp add: o_def)
  note fill = kl.fill [OF this, folded fs]
  show "message_inv (fst (message_new md session counter))"
    and "message_fields (fst (message_new md session counter))
       = rotate1 (map createField (fieldDescriptors md))"
    and "msg_id (fst (message_new md session counter)) = counter + 1"
    and "msg_type (fst (message_new md session counter)) = md_type md"
    and "msg_session (fst (message_new md session counter)) = session"
    and "snd (message_new md session counter) = counter + 1"
    using fill by (simp_all add: message_new_def generateId_def message_inv_def Let_def)
qed

lemma message_copy:
  assumes "message_inv msg"
  shows "message_inv (fst (message_copy msg counter))"
    and "message_fields (fst (message_copy msg counter)) = rev (message_fields msg)"
    and "msg_id (fst (message_copy msg counter)) = counter + 1"
    and "msg_type (fst (message_copy msg counter)) = msg_type msg"
    and "snd (message_copy msg counter) = counter + 1"
  using assms
  by (simp_all add: message_copy_def generateId_def message_inv_def Let_def fs_inv_copy kl_items_copy)

subsection \<open>Field access\<close>

definition field_shape :: "field \<Rightarrow> string \<times> type_id \<times> ty" where
  "field_shape f = (fld_name f, fld_typeid f, fld_type f)"

lemma field_shape_set [simp]: "field_shape (field_set v f) = field_shape f"
  by (simp add: field_shape_def field_set_def)

lemma fld_name_set [simp]: "fld_name (field_set v f) = fld_name f"
  by (simp add: field_set_def)

lemma field_get_set [simp]: "field_get (field_set v f) = v"
  by (simp add: field_get_def field_set_def)

text \<open>A field is found exactly when one of that name and that value type is there.\<close>

lemma message_field_found:
  assumes "message_inv msg" and "f \<in> set (message_fields msg)"
    and "fld_name f = name" and "fld_typeid f = tid"
  shows "\<exists>i. message_field tid name msg = Inr i \<and> kl_index (msg_fieldset msg) name = Some i
           \<and> map_of (kl_nodes (msg_fieldset msg)) i = Some f"
proof -
  have inv: "fs_inv (msg_fieldset msg)"
    using assms(1) by (simp add: message_inv_def)
  obtain i where i: "(i, f) \<in> set (kl_nodes (msg_fieldset msg))"
    using assms(2) unfolding kl_item_iff by (rule exE)
  then have "kl_index (msg_fieldset msg) name = Some i"
    unfolding kl_index_iff [OF inv] using assms(3) by auto
  moreover have "fs_contains_typed tid name (msg_fieldset msg)"
    unfolding fs_contains_typed_iff [OF inv] using assms(2-4) by auto
  moreover have "map_of (kl_nodes (msg_fieldset msg)) i = Some f"
    unfolding kl_node_iff [OF inv] by (rule i)
  ultimately show ?thesis
    by (auto simp: message_field_def fs_get_typed_def)
qed

lemma message_field_missing:
  assumes "message_inv msg"
    and "\<nexists>f. f \<in> set (message_fields msg) \<and> fld_name f = name \<and> fld_typeid f = tid"
  shows "message_field tid name msg = Inl (Thrown (mk_field_does_not_exist
           ''Message doesn't contain specified field'' name (message_sessionId msg) (msg_id msg)))"
proof -
  have "\<not> fs_contains_typed tid name (msg_fieldset msg)"
    using assms(2) fs_contains_typed_iff [OF assms(1) [unfolded message_inv_def]] by blast
  then show ?thesis
    by (simp add: message_field_def fs_get_typed_def)
qed

text \<open>The message after \<open>message.field<T>(name).set(v)\<close>.\<close>

lemma message_field_set_found:
  assumes inv: "message_inv msg" and f: "f \<in> set (message_fields msg)" "fld_name f = name"
      "fld_typeid f = tid"
  shows "\<exists>msg'. message_field_set tid name v msg = Inr msg' \<and> message_inv msg'
     \<and> message_fields msg' = map (\<lambda>g. if fld_name g = name then field_set v f else g) (message_fields msg)
     \<and> msg_id msg' = msg_id msg \<and> msg_type msg' = msg_type msg \<and> msg_session msg' = msg_session msg"
proof -
  obtain i where i: "message_field tid name msg = Inr i" "kl_index (msg_fieldset msg) name = Some i"
      "map_of (kl_nodes (msg_fieldset msg)) i = Some f"
    using message_field_found [OF inv f] by blast
  have "fld_name (field_set v f) = name"
    by (simp add: f(2))
  from kl_update_named(1,2) [OF inv [unfolded message_inv_def] i(2) this] i(1,3) show ?thesis
    by (simp add: message_field_set_def message_inv_def)
qed

lemma message_field_get_found:
  assumes "message_inv msg" and "f \<in> set (message_fields msg)"
    and "fld_name f = name" and "fld_typeid f = tid"
  shows "message_field_get tid name msg = Inr (field_get f)"
  using message_field_found [OF assms] by (auto simp: message_field_get_def)

subsection \<open>Sequences of identifiers\<close>

text \<open>The identifiers of \<open>n\<close> messages created or copied one after the other.\<close>

primrec next_ids :: "nat \<Rightarrow> message_id \<Rightarrow> message_id list" where
  "next_ids 0 counter = []"
| "next_ids (Suc n) counter =
     (let (id, counter') = generateId counter in id # next_ids n counter')"

lemma next_ids_eq: "next_ids n counter = map (\<lambda>k. counter + of_nat (Suc k)) [0..<n]"
proof (induction n arbitrary: counter)
  case (Suc n)
  then show ?case
    unfolding map_upt_Suc by (simp add: generateId_def ac_simps)
qed simp

subsection \<open>An example\<close>

text \<open>Message type 7 with two fields, as a program registers it.\<close>

definition demo_fields :: "field_descriptor list" where
  "demo_fields =
     [\<lparr>fd_name = ''a'', fd_typeid = 1, fd_type = ScalarT I16\<rparr>,
      \<lparr>fd_name = ''b'', fd_typeid = 2, fd_type = SeqT (ScalarT I8)\<rparr>]"

definition demo_descriptor :: message_descriptor where
  "demo_descriptor =
     (case register_all demo_fields (md_new 7) of Inr md \<Rightarrow> md | Inl e \<Rightarrow> md_new 7)"

definition demo_message :: message where
  "demo_message = fst (message_new demo_descriptor (Some 5) 0)"

definition demo_platform :: platform where
  "demo_platform = \<lparr>big_endian = False, ndebug = True\<rparr>"

lemma demo_descriptor:
  "md_inv demo_descriptor" "md_type demo_descriptor = 7"
  "fieldDescriptors demo_descriptor = rotate1 demo_fields"
proof -
  have "distinct (map fd_name demo_fields)"
    by (simp add: demo_fields_def)
  from register_all_new [OF this, of 7] show "md_inv demo_descriptor"
    "md_type demo_descriptor = 7" "fieldDescriptors demo_descriptor = rotate1 demo_fields"
    by (auto simp: demo_descriptor_def)
qed

lemma demo_message:
  "message_inv demo_message" "message_fields demo_message = map createField demo_fields"
  "msg_session demo_message = Some 5" "msg_id demo_message = 1"
  using message_new [OF demo_descriptor(1), of "Some 5" 0]
  by (simp_all add: demo_message_def demo_descriptor(3)) (simp_all add: demo_fields_def)

lemma demo_message_ok: "list_all field_ok (message_fields demo_message)"
  by (simp add: demo_message(2) demo_fields_def field_ok_def)

subsection \<open>Properties\<close>

text \<open>Field access: after \<^verbatim>\<open>field<T>(name).set(v)\<close> the field holds \<open>v\<close>, every other field, the
  field order, the identifier, type and session of the message are unchanged, and the
  message keeps its invariant.\<close>

theorem message_set_then_get:
  assumes "message_inv msg" and "f \<in> set (message_fields msg)"
  shows "\<exists>msg'. message_field_set (fld_typeid f) (fld_name f) v msg = Inr msg' \<and> message_inv msg'
     \<and> message_field_get (fld_typeid f) (fld_name f) msg' = Inr v
     \<and> map field_shape (message_fields msg') = map field_shape (message_fields msg)
     \<and> (\<forall>g \<in> set (message_fields msg). fld_name g \<noteq> fld_name f \<longrightarrow>
          message_field_get (fld_typeid g) (fld_name g) msg' = Inr (field_get g))
     \<and> msg_id msg' = msg_id msg \<and> msg_type msg' = msg_type msg \<and> msg_session msg' = msg_session msg"
proof -
  obtain msg' where msg': "message_field_set (fld_typeid f) (fld_name f) v msg = Inr msg'"
      "message_inv msg'" "msg_id msg' = msg_id msg" "msg_type msg' = msg_type msg"
      "msg_session msg' = msg_session msg"
    and items: "message_fields msg'
      = map (\<lambda>g. if fld_name g = fld_name f then field_set v f else g) (message_fields msg)"
    using message_field_set_found [OF assms refl refl] by blast
  have same: "g = f" if "g \<in> set (message_fields msg)" "fld_name g = fld_name f" for g
    using that assms by (auto simp: message_inv_def kl_inv_def distinct_map inj_on_def)
  have "message_field_get (fld_typeid f) (fld_name f) msg' = Inr (field_get (field_set v f))"
    using assms(2) by (intro message_field_get_found [OF msg'(2)])
      (auto simp: items field_set_def)
  moreover have "map field_shape (message_fields msg') = map field_shape (message_fields msg)"
    using same by (auto simp: items)
  moreover have "message_field_get (fld_typeid g) (fld_name g) msg' = Inr (field_get g)"
    if "g \<in> set (message_fields msg)" "fld_name g \<noteq> fld_name f" for g
    using that by (intro message_field_get_found [OF msg'(2)]) (auto simp: items)
  ultimately show ?thesis
    using msg' by simp
qed

theorem message_set_then_get_witness:
  "\<exists>msg'. message_field_set 1 ''a'' (VScalar (SI16 9)) demo_message = Inr msg'
     \<and> message_field_get 1 ''a'' msg' = Inr (VScalar (SI16 9))"
proof -
  let ?f = "field_new ''a'' 1 (ScalarT I16)"
  have "?f \<in> set (message_fields demo_message)"
    by (simp add: demo_message(2) demo_fields_def createField_def)
  from message_set_then_get [OF demo_message(1) this, of "VScalar (SI16 9)"] show ?thesis
    by (auto simp: field_new_def)
qed

text \<open>Field lookup fails in one way only: a name that is not there and a name whose value has
  another type both give \<^verbatim>\<open>FieldDoesNotExistException\<close> with the name, the session and the
  message identifier, never \<^verbatim>\<open>InvalidCastException\<close>.\<close>

theorem message_lookup_error:
  assumes "message_inv msg"
    and "\<nexists>f. f \<in> set (message_fields msg) \<and> fld_name f = name \<and> fld_typeid f = tid"
  shows "message_field tid name msg
      = Inl (Thrown \<lparr>ex_class = FieldDoesNotExistException,
                     ex_message = ''Message doesn't contain specified field'',
                     ex_payload = FieldInfo name (message_sessionId msg) (msg_id msg)\<rparr>)"
  using message_field_missing [OF assms] by (simp add: mk_field_does_not_exist_def)

theorem message_lookup_error_witness:
  "message_field 2 ''a'' demo_message
     = Inl (Thrown \<lparr>ex_class = FieldDoesNotExistException,
                    ex_message = ''Message doesn't contain specified field'',
                    ex_payload = FieldInfo ''a'' 5 1\<rparr>)"
proof -
  have "\<nexists>f. f \<in> set (message_fields demo_message) \<and> fld_name f = ''a'' \<and> fld_typeid f = 2"
    by (auto simp: demo_message(2) demo_fields_def)
  from message_lookup_error [OF demo_message(1) this] show ?thesis
    by (simp add: demo_message(3,4) message_sessionId_def)
qed

text \<open>Registering fields with distinct names on a new descriptor succeeds and lists them with the
  first one moved to the end; a repeated name is refused with
  \<^verbatim>\<open>InvalidArgumentException\<close> at its second registration.\<close>

theorem register_fields:
  "if distinct (map fd_name ds)
   then \<exists>md. register_all ds (md_new t) = Inr md \<and> md_inv md \<and> md_type md = t
             \<and> fieldDescriptors md = rotate1 ds
   else \<exists>d \<in> set ds. register_all ds (md_new t)
          = Inl (Thrown (mk_exn InvalidArgumentException (duplicate_descriptor_text (fd_name d))))"
  using register_all_new register_all_duplicate [OF md_inv_new] by auto

text \<open>C31: \<^verbatim>\<open>createMessage\<close>: for a registered type it makes a message with the next identifier, the
  type, the session, and one value-initialised field per descriptor, in the descriptor's
  order rotated by one; for any other type it throws \<^verbatim>\<open>UnknownMessageTypeException\<close> and
  uses up no identifier.\<close>

theorem create_message:
  assumes "factory_inv f"
  shows "case f t of
      None \<Rightarrow> createMessage f t s counter
        = (Inl (Thrown (mk_unknown_message_type
              ''There is no registered descriptor for this message type'' t)), counter)
    | Some md \<Rightarrow> \<exists>msg. createMessage f t s counter = (Inr msg, counter + 1) \<and> message_inv msg
        \<and> msg_id msg = counter + 1 \<and> msg_type msg = t \<and> message_sessionId msg = s
        \<and> message_fields msg = rotate1 (map createField (fieldDescriptors md))"
proof (cases "f t")
  case (Some md)
  then have "md_inv md" "md_type md = t"
    using assms by (auto simp: factory_inv_def)
  moreover obtain msg c where "message_new md (Some s) counter = (msg, c)"
    by fastforce
  ultimately show ?thesis
    using message_new [of md "Some s" counter]
    by (simp add: Some createMessage_def message_sessionId_def)
qed (simp add: createMessage_def)

theorem create_message_witness:
  "\<exists>msg. createMessage [7 \<mapsto> demo_descriptor] 7 5 0 = (Inr msg, 1)
     \<and> message_fields msg = map createField demo_fields"
proof -
  have "factory_inv [7 \<mapsto> demo_descriptor]"
    by (simp add: factory_inv_def demo_descriptor)
  from create_message [OF this, of 7 5 0] show ?thesis
    by (auto simp: demo_descriptor(3)) (simp add: demo_fields_def)
qed

text \<open>C2: Message transfer: two endpoints have the same descriptor.  What one serializes of a message
  of that shape with values of the fields' types, on any platform, the other deserializes
  into a message it created as the same field contents; the bytes are as many as
  \<^verbatim>\<open>serializedSize\<close> says and the rest of the stream is left alone.\<close>

theorem message_transfer:
  assumes "md_inv md" and "message_inv msg" and "list_all field_ok (message_fields msg)"
    and "map field_shape (message_fields msg)
       = map field_shape (message_fields (fst (message_new md s c)))"
    and "binary_pack pl pack" and "binary_pack pl' pack'"
  shows "\<exists>bs received.
      message_serialize pack msg (bin_stream []) = Inr (bin_stream bs)
    \<and> length bs = message_serializedSize msg
    \<and> message_deserialize pack' (fst (message_new md s' c')) (bin_stream (bs @ rest))
        = Inr (received, bin_stream rest)
    \<and> message_fields received = message_fields msg"
proof -
  let ?new = "fst (message_new md s' c')" and ?gs = "message_fields msg"
  have new: "message_fields ?new = rotate1 (map createField (fieldDescriptors md))"
    using message_new(2) [OF assms(1)] .
  then have shape: "map field_shape ?gs = map field_shape (message_fields ?new)"
    using assms(4) message_new(2) [OF assms(1)] by simp
  then have len: "length (message_fields ?new) = length ?gs"
    by (metis length_map)
  have nth: "fld_name (message_fields ?new ! i) = fld_name (?gs ! i)
      \<and> fld_typeid (message_fields ?new ! i) = fld_typeid (?gs ! i)
      \<and> fld_type (message_fields ?new ! i) = fld_type (?gs ! i)" if "i < length ?gs" for i
    using arg_cong [OF shape, of "\<lambda>xs. xs ! i"] that len by (simp add: field_shape_def)
  have "field_fresh g" if "g \<in> set (message_fields ?new)" for g
    using that by (auto simp: new field_fresh_def)
  then have fit: "list_all2 (\<lambda>g f. field_fresh g \<and> field_ok f \<and> fld_type g = fld_type f)
      (message_fields ?new) ?gs"
    using assms(3) len nth by (auto simp: list_all2_conv_all_nth list_all_length)
  from fs_deserialize_wire [OF assms(6), of "msg_fieldset ?new" ?gs rest] fit
  obtain fs' where fs': "fs_deserialize pack' (msg_fieldset ?new)
        (bin_stream (fields_wire ?gs @ rest)) = Inr (fs', bin_stream rest)"
      "kl_items fs' = map2 (\<lambda>g f. g\<lparr>fld_value := fld_value f\<rparr>) (message_fields ?new) ?gs"
    by blast
  have "kl_items fs' = ?gs"
    unfolding fs'(2) using len nth by (intro nth_equalityI) (auto intro!: field.equality)
  then show ?thesis
    using fs'(1) fs_serialize_wire [OF assms(5,3)] fs_serializedSize_wire [OF assms(3)]
    by (simp add: message_serialize_def message_deserialize_def message_serializedSize_def
        stream_write_def)
qed

theorem message_transfer_witness:
  "\<exists>bs received.
      message_serialize (field_serializer demo_platform) demo_message (bin_stream []) = Inr (bin_stream bs)
    \<and> length bs = message_serializedSize demo_message
    \<and> message_deserialize (field_serializer demo_platform)
        (fst (message_new demo_descriptor None 8)) (bin_stream (bs @ [1])) = Inr (received, bin_stream [1])
    \<and> message_fields received = message_fields demo_message"
  by (rule message_transfer [OF demo_descriptor(1) demo_message(1) demo_message_ok _
        binary_pack_single binary_pack_single]) (simp add: demo_message_def)

text \<open>A clone has the fields of the original in the opposite order, hence other bytes on the
  wire; only a clone of a clone has the original order again.  Clones and copies take new
  identifiers.\<close>

theorem clone_reverses_fields:
  assumes "message_inv msg" and "list_all field_ok (message_fields msg)" and "binary_pack pl pack"
  shows "message_fields (fst (message_clone msg c)) = rev (message_fields msg)
    \<and> msg_id (fst (message_clone msg c)) = c + 1
    \<and> message_serialize pack (fst (message_clone msg c)) (bin_stream [])
        = Inr (bin_stream (concat (map (\<lambda>f. wire (fld_value f)) (rev (message_fields msg)))))
    \<and> message_fields (fst (message_clone (fst (message_clone msg c)) c')) = message_fields msg"
proof -
  have "list_all field_ok (message_fields (fst (message_copy msg c)))"
    using assms(2) by (simp add: message_copy(2) [OF assms(1)] list_all_iff)
  from fs_serialize_wire [OF assms(3) this]
  show ?thesis
    by (simp add: message_clone_def message_copy [OF assms(1)] message_copy(2) [OF message_copy(1) [OF assms(1)]]
        message_serialize_def fields_wire_def stream_write_def)
qed

theorem clone_reverses_fields_witness:
  "message_fields (fst (message_clone demo_message 1)) = rev (map createField demo_fields)
   \<and> message_serialize (field_serializer demo_platform) (fst (message_clone demo_message 1)) (bin_stream [])
       = Inr (bin_stream [0, 0, 0, 0])"
  using clone_reverses_fields [OF demo_message(1) demo_message_ok binary_pack_single, of 1 demo_platform]
  by (simp add: demo_message(2) demo_fields_def count_bytes_def bytes_le_explicit)

text \<open>Message identifiers: the first \<open>2 ^ 32 - 1\<close> messages of a process have pairwise different
  identifiers, none of them \<^verbatim>\<open>k_bad_msg_id\<close>; the next one has exactly that identifier.\<close>

theorem message_ids:
  "(n < 2 ^ 32 \<longrightarrow> distinct (next_ids n 0) \<and> k_bad_msg_id \<notin> set (next_ids n 0))
   \<and> next_ids (2 ^ 32) 0 ! (2 ^ 32 - 1) = k_bad_msg_id"
proof (intro conjI impI)
  assume n: "n < 2 ^ 32"
  have "inj_on (\<lambda>k. of_nat (Suc k) :: message_id) {0..<n}"
  proof (rule inj_onI)
    fix a b assume "a \<in> {0..<n}" "b \<in> {0..<n}" "(of_nat (Suc a) :: message_id) = of_nat (Suc b)"
    then have "unat (of_nat (Suc a) :: message_id) = unat (of_nat (Suc b) :: message_id)"
      by simp
    with n \<open>a \<in> _\<close> \<open>b \<in> _\<close> show "a = b"
      unfolding unat_of_nat by simp
  qed
  then show "distinct (next_ids n 0)"
    by (simp add: next_ids_eq distinct_map del: of_nat_Suc)
  have "(of_nat (Suc k) :: message_id) \<noteq> 0" if "k < n" for k
    using that n unfolding word_of_nat_eq_0_iff by (auto dest: dvd_imp_le)
  then show "k_bad_msg_id \<notin> set (next_ids n 0)"
    by (auto simp: next_ids_eq k_bad_msg_id_def simp del: of_nat_Suc)
next
  have "(of_nat (2 ^ 32) :: message_id) = 0"
    unfolding word_of_nat_eq_0_iff by simp
  then show "next_ids (2 ^ 32) 0 ! (2 ^ 32 - 1) = k_bad_msg_id"
    unfolding next_ids_eq k_bad_msg_id_def by (subst nth_map) simp_all
qed

theorem message_ids_witness:
  "distinct (next_ids 3 0) \<and> k_bad_msg_id \<notin> set (next_ids 3 0)"
  using message_ids [of 3] by simp

end
