(* ===== verification/Message_Queue.thy ===== *)
theory Message_Queue
  imports Message_Model
begin

text \<open>
  \<^verbatim>\<open>src/message/message_queue.cpp\<close>: \<^verbatim>\<open>MessageQueue\<close> and
  \<^verbatim>\<open>ConcurrentMessageQueue\<close>.  The elements are owning pointers, \<open>None\<close> is
  \<^verbatim>\<open>nullptr\<close>; the messages themselves are not looked at.
\<close>

record 'm message_queue =
  m_queue :: "'m option list"

definition queue_new :: "'m message_queue" where
  "queue_new = \<lparr>m_queue = []\<rparr>"

definition internal_push :: "'m option \<Rightarrow> 'm message_queue \<Rightarrow> 'm message_queue" where
  "internal_push msg q = q\<lparr>m_queue := m_queue q @ [msg]\<rparr>"

definition internal_pull :: "'m message_queue \<Rightarrow> 'm option \<times> 'm message_queue" where
  "internal_pull q =
     (case m_queue q of
        msg # rest \<Rightarrow> (msg, q\<lparr>m_queue := rest\<rparr>)
      | [] \<Rightarrow> (None, q))"

definition internal_size :: "'m message_queue \<Rightarrow> nat" where
  "internal_size q = length (m_queue q)"

definition queue_push :: "'m option \<Rightarrow> 'm message_queue \<Rightarrow> 'm message_queue" where
  "queue_push msg q = internal_push msg q"

definition queue_pull :: "'m message_queue \<Rightarrow> 'm option \<times> 'm message_queue" where
  "queue_pull q = internal_pull q"

definition queue_size :: "'m message_queue \<Rightarrow> nat" where
  "queue_size q = internal_size q"

subsection \<open>The interface\<close>

text \<open>
  What a client may rely on, whichever class implements it: a first-in first-out
  sequence, \<open>contents\<close>.
\<close>

locale fifo =
  fixes push :: "'m option \<Rightarrow> 'q \<Rightarrow> 'q" and pull :: "'q \<Rightarrow> 'm option \<times> 'q"
    and size :: "'q \<Rightarrow> nat" and contents :: "'q \<Rightarrow> 'm option list"
  assumes contents_push: "contents (push m q) = contents q @ [m]"
    and pull_empty: "contents q = [] \<Longrightarrow> pull q = (None, q)"
    and pull_first: "contents q = m # ms \<Longrightarrow> fst (pull q) = m \<and> contents (snd (pull q)) = ms"
    and size_contents: "size q = length (contents q)"
begin

lemma contents_pull: "contents (snd (pull q)) = tl (contents q)"
  by (cases "contents q") (auto simp: pull_empty dest: pull_first)

lemma fst_pull: "fst (pull q) = (case contents q of [] \<Rightarrow> None | m # ms \<Rightarrow> m)"
  by (cases "contents q") (auto simp: pull_empty dest: pull_first)

lemma contents_push_all: "contents (fold push ms q) = contents q @ ms"
  by (induction ms arbitrary: q) (simp_all add: contents_push)

text \<open>Pulling until the queue is empty, as the transport does.\<close>

primrec pulls :: "nat \<Rightarrow> 'q \<Rightarrow> 'm option list \<times> 'q" where
  "pulls 0 q = ([], q)"
| "pulls (Suc n) q = (let (m, q') = pull q; (ms, q'') = pulls n q' in (m # ms, q''))"

lemma pulls_contents:
  "n \<le> length (contents q) \<Longrightarrow>
   fst (pulls n q) = take n (contents q) \<and> contents (snd (pulls n q)) = drop n (contents q)"
proof (induction n arbitrary: q)
  case (Suc n)
  obtain m ms where q: "contents q = m # ms"
    using Suc.prems by (cases "contents q") auto
  obtain q' where p: "pull q = (m, q')" and q': "contents q' = ms"
    using pull_first [OF q] by (cases "pull q") auto
  from Suc.IH [of q'] Suc.prems q q' have "fst (pulls n q') = take n ms"
      "contents (snd (pulls n q')) = drop n ms"
    by simp_all
  then show ?case
    by (simp add: q p split_def Let_def)
qed simp

lemma push_then_pulls:
  assumes "contents q = []"
  shows "fst (pulls (length ms) (fold push ms q)) = ms"
    and "contents (snd (pulls (length ms) (fold push ms q))) = []"
  using pulls_contents [of "length ms" "fold push ms q"] assms by (simp_all add: contents_push_all)

end

interpretation mq: fifo queue_push queue_pull queue_size m_queue
  by unfold_locales
    (auto simp: queue_push_def internal_push_def queue_pull_def internal_pull_def
      queue_size_def internal_size_def split: list.splits)

subsection \<open>Concurrent use\<close>

text \<open>
  Every operation of \<^verbatim>\<open>ConcurrentMessageQueue\<close> runs under the mutex, so a run of
  any number of threads is a sequence of whole operations, in the order the mutex
  was taken.  An event names the thread, the operation and what it returned.
\<close>

datatype 'm queue_event =
    Pushed nat "'m option" | Pulled nat "'m option" | Sized nat nat

inductive queue_step :: "'m message_queue \<Rightarrow> 'm queue_event \<Rightarrow> 'm message_queue \<Rightarrow> bool" where
  push: "queue_step q (Pushed t m) (queue_push m q)"
| pull: "queue_pull q = (m, q') \<Longrightarrow> queue_step q (Pulled t m) q'"
| size: "queue_size q = n \<Longrightarrow> queue_step q (Sized t n) q"

inductive_cases queue_stepE: "queue_step q e q'"

inductive_simps queue_step_simps:
  "queue_step q (Pushed t m) q'"
  "queue_step q (Pulled t m) q'"
  "queue_step q (Sized t n) q'"

inductive queue_run :: "'m message_queue \<Rightarrow> 'm queue_event list \<Rightarrow> 'm message_queue \<Rightarrow> bool" where
  start: "queue_run q [] q"
| step: "queue_run q es q' \<Longrightarrow> queue_step q' e q'' \<Longrightarrow> queue_run q (es @ [e]) q''"

code_pred queue_step .

fun pushed_msg :: "'m queue_event \<Rightarrow> 'm list" where
  "pushed_msg (Pushed t (Some m)) = [m]"
| "pushed_msg e = []"

fun pulled_msg :: "'m queue_event \<Rightarrow> 'm list" where
  "pulled_msg (Pulled t (Some m)) = [m]"
| "pulled_msg e = []"

text \<open>The messages among pointers.\<close>

definition present :: "'m option list \<Rightarrow> 'm list" where
  "present ms = List.map_filter (\<lambda>m. m) ms"

lemma present_simps [simp]:
  "present [] = []"
  "present (None # ms) = present ms"
  "present (Some m # ms) = m # present ms"
  "present (ms @ ms') = present ms @ present ms'"
  by (simp_all add: present_def map_filter_def)

lemma queue_run_fifo:
  assumes "queue_run q es q'"
  shows "concat (map pulled_msg es) @ present (m_queue q')
       = present (m_queue q) @ concat (map pushed_msg es)"
  using assms
proof (induction rule: queue_run.induct)
  case (step q es q' e q'')
  from step.hyps(2) show ?case
  proof cases
    case (push t m)
    with step.IH show ?thesis
      by (cases m) (simp_all add: mq.contents_push)
  next
    case (pull m t)
    have "pulled_msg (Pulled t m) @ present (m_queue q'') = present (m_queue q')"
    proof (cases "m_queue q'")
      case Nil
      with pull show ?thesis using mq.pull_empty [of q'] by simp
    next
      case (Cons a ms)
      with pull mq.pull_first [OF Cons] show ?thesis by (cases a) auto
    qed
    with step.IH pull show ?thesis by simp
  next
    case (size n t)
    with step.IH show ?thesis by simp
  qed
qed simp

subsection \<open>Properties\<close>

text \<open>C4: The concurrent queue loses, duplicates and reorders nothing: whatever threads push, pull and
  ask for the size in whatever order, the messages pulled so far followed by those still
  queued are the messages pushed so far, in the order of their pushes.\<close>

theorem concurrent_queue_fifo:
  assumes "queue_run queue_new es q"
  shows "concat (map pulled_msg es) @ present (m_queue q) = concat (map pushed_msg es)"
  using queue_run_fifo [OF assms] by (simp add: queue_new_def)

theorem concurrent_queue_fifo_witness:
  "queue_run queue_new [Pushed 1 (Some (7::nat)), Pulled 2 (Some 7), Pulled 2 None]
      \<lparr>m_queue = []\<rparr>
   \<and> concat (map pulled_msg [Pushed 1 (Some (7::nat)), Pulled 2 (Some 7), Pulled 2 None])
      @ present (m_queue (\<lparr>m_queue = []\<rparr> :: nat message_queue)) = [7]"
proof -
  have "queue_run queue_new (((([] @ [Pushed 1 (Some (7::nat))]) @ [Pulled 2 (Some 7)]) @ [Pulled 2 None]))
      \<lparr>m_queue = []\<rparr>"
    by (rule queue_run.intros queue_step.intros
        | simp add: queue_step_simps queue_push_def internal_push_def queue_new_def queue_pull_def
            internal_pull_def)+
  from this concurrent_queue_fifo [OF this] show ?thesis by simp
qed

end
