(* ===== verification/Effects.thy ===== *)
theory Effects
  imports Exceptions
begin

text \<open>
  Operations that change state and may throw.  An exception keeps the changes made
  before it; \<^verbatim>\<open>catch\<close> continues from the state at the throw.  Callbacks a program
  installs (\<^verbatim>\<open>std::function\<close>) are parameters of this shape, over a state \<open>'w\<close> of
  their own.
\<close>

type_synonym ('w, 'a) eff = "'w \<Rightarrow> 'a outcome \<times> 'w"

definition eff_return :: "'a \<Rightarrow> ('w, 'a) eff" where
  "eff_return x = (\<lambda>w. (Inr x, w))"

definition eff_fail :: "failure \<Rightarrow> ('w, 'a) eff" where
  "eff_fail e = (\<lambda>w. (Inl e, w))"

definition eff_throw :: "exn \<Rightarrow> ('w, 'a) eff" where
  "eff_throw e = eff_fail (Thrown e)"

definition eff_lift :: "'a outcome \<Rightarrow> ('w, 'a) eff" where
  "eff_lift r = (\<lambda>w. (r, w))"

definition eff_bind :: "('w, 'a) eff \<Rightarrow> ('a \<Rightarrow> ('w, 'b) eff) \<Rightarrow> ('w, 'b) eff" where
  "eff_bind m f = (\<lambda>w. case m w of (Inl e, w') \<Rightarrow> (Inl e, w') | (Inr x, w') \<Rightarrow> f x w')"

definition eff_then :: "('w, 'a) eff \<Rightarrow> ('w, 'b) eff \<Rightarrow> ('w, 'b) eff" where
  "eff_then m k = eff_bind m (\<lambda>_. k)"

text \<open>\<^verbatim>\<open>try { m } catch (const std::exception& e) { h e }\<close> and \<^verbatim>\<open>catch (...)\<close>\<close>

definition eff_catch_std :: "('w, 'a) eff \<Rightarrow> (exn \<Rightarrow> ('w, 'a) eff) \<Rightarrow> ('w, 'a) eff" where
  "eff_catch_std m h =
     (\<lambda>w. case m w of
        (Inl (Thrown e), w') \<Rightarrow> if caught_as_std e then h e w' else (Inl (Thrown e), w')
      | r \<Rightarrow> r)"

definition eff_catch_all :: "('w, 'a) eff \<Rightarrow> ('w, 'a) eff \<Rightarrow> ('w, 'a) eff" where
  "eff_catch_all m h =
     (\<lambda>w. case m w of (Inl (Thrown e), w') \<Rightarrow> h w' | r \<Rightarrow> r)"

text \<open>An exception that leaves a \<^verbatim>\<open>noexcept\<close> function ends the program.\<close>

definition eff_noexcept :: "('w, 'a) eff \<Rightarrow> ('w, 'a) eff" where
  "eff_noexcept m =
     (\<lambda>w. case m w of (Inl (Thrown e), w') \<Rightarrow> (Inl (Fault TerminateCalled), w') | r \<Rightarrow> r)"

text \<open>A call through a \<^verbatim>\<open>std::function\<close>, which may be empty.\<close>

definition call_function :: "('a \<Rightarrow> ('w, 'b) eff) option \<Rightarrow> 'a \<Rightarrow> ('w, 'b) eff" where
  "call_function f x =
     (case f of None \<Rightarrow> eff_throw (mk_exn StdBadFunctionCall ''bad_function_call'')
      | Some g \<Rightarrow> g x)"

text \<open>\<^verbatim>\<open>if (callback) callback(x);\<close>\<close>

definition call_if_set :: "('a \<Rightarrow> ('w, unit) eff) option \<Rightarrow> 'a \<Rightarrow> ('w, unit) eff" where
  "call_if_set f x = (case f of None \<Rightarrow> eff_return () | Some g \<Rightarrow> g x)"

text \<open>\<^verbatim>\<open>for (x : xs) body(x);\<close>\<close>

primrec eff_for :: "'a list \<Rightarrow> ('a \<Rightarrow> ('w, unit) eff) \<Rightarrow> ('w, unit) eff" where
  "eff_for [] body = eff_return ()"
| "eff_for (x # xs) body = eff_then (body x) (eff_for xs body)"

text \<open>An operation that leaves the state alone is \<open>Pair\<close> of its result.\<close>

lemma eff_simps [simp]:
  "eff_return x = Pair (Inr x)"
  "eff_fail e = Pair (Inl e)"
  "eff_throw ex = Pair (Inl (Thrown ex))"
  "eff_lift r = Pair r"
  by (simp_all add: fun_eq_iff eff_return_def eff_fail_def eff_throw_def eff_lift_def)

lemma eff_bind_cases:
  "m w = (Inl e, w') \<Longrightarrow> eff_bind m f w = (Inl e, w')"
  "m w = (Inr x, w') \<Longrightarrow> eff_bind m f w = f x w'"
  by (simp_all add: eff_bind_def)

lemma eff_then_cases:
  "m w = (Inl e, w') \<Longrightarrow> eff_then m k w = (Inl e, w')"
  "m w = (Inr x, w') \<Longrightarrow> eff_then m k w = k w'"
  by (simp_all add: eff_then_def eff_bind_def)

lemma eff_bind_pure [simp]:
  "eff_bind (Pair (Inr x)) f = f x"
  "eff_bind (Pair (Inl e)) f = Pair (Inl e)"
  "eff_then (Pair (Inr y)) k = k"
  "eff_then (Pair (Inl e)) k = Pair (Inl e)"
  by (simp_all add: fun_eq_iff eff_bind_def eff_then_def)

lemma eff_bind_assoc: "eff_bind (eff_bind m f) g = eff_bind m (\<lambda>x. eff_bind (f x) g)"
  by (auto simp: fun_eq_iff eff_bind_def split: prod.split sum.split)

lemma eff_bind_cong [fundef_cong]:
  "m = m' \<Longrightarrow> (\<And>x w. f x w = f' x w) \<Longrightarrow> eff_bind m f = eff_bind m' f'"
  by (auto simp: fun_eq_iff eff_bind_def split: prod.split sum.split)

lemma eff_catch_all_cong [fundef_cong]:
  "(\<And>w. m w = m' w) \<Longrightarrow> (\<And>w. h w = h' w) \<Longrightarrow> eff_catch_all m h = eff_catch_all m' h'"
  by (auto simp: fun_eq_iff eff_catch_all_def split: prod.split sum.split failure.split)

lemma eff_for_append: "eff_for (xs @ ys) body = eff_then (eff_for xs body) (eff_for ys body)"
  by (induction xs) (auto simp: eff_then_def eff_bind_assoc)

lemma eff_for_Inr:
  "eff_for (x # xs) body w = (Inr (), w') \<longleftrightarrow>
     (\<exists>v. body x w = (Inr (), v) \<and> eff_for xs body v = (Inr (), w'))"
  by (auto simp: eff_then_def eff_bind_def split: prod.splits sum.splits)

text \<open>Nothing escapes \<^verbatim>\<open>catch (...)\<close>, unless the handler throws.\<close>

lemma catch_all_no_throw: "fst (eff_catch_all m (Pair (Inr x)) w) \<noteq> Inl (Thrown e)"
  by (auto simp: eff_catch_all_def split: prod.split sum.split failure.split)

lemma catch_all_idem [simp]:
  "eff_catch_all (eff_catch_all m (Pair (Inr x))) (Pair (Inr y)) = eff_catch_all m (Pair (Inr x))"
  by (auto simp: fun_eq_iff eff_catch_all_def split: prod.split sum.split failure.split)

lemma catch_all_return [simp]:
  "eff_catch_all (Pair (Inr x)) h = Pair (Inr x)"
  "eff_catch_all (Pair (Inl (Thrown e))) h = h"
  "eff_catch_all (Pair (Inl (Fault f))) h = Pair (Inl (Fault f))"
  by (rule ext, simp add: eff_catch_all_def)+

lemma catch_std_cases:
  "m w = (Inr x, w') \<Longrightarrow> eff_catch_std m h w = (Inr x, w')"
  "m w = (Inl (Thrown e), w') \<Longrightarrow> ex_class e \<noteq> Foreign \<Longrightarrow> eff_catch_std m h w = h e w'"
  "m w = (Inl (Fault f), w') \<Longrightarrow> eff_catch_std m h w = (Inl (Fault f), w')"
  by (simp_all add: eff_catch_std_def caught_as_std_iff)

text \<open>
  An object \<open>'s\<close> next to the rest of the program: \<open>in_world\<close> runs an operation of
  the rest, \<open>get_local\<close> and \<open>set_local\<close> read and write the object.
\<close>

definition in_world :: "('w, 'a) eff \<Rightarrow> ('s \<times> 'w, 'a) eff" where
  "in_world m = (\<lambda>(s, w). case m w of (r, w') \<Rightarrow> (r, (s, w')))"

definition get_local :: "('s \<times> 'w, 's) eff" where
  "get_local = (\<lambda>(s, w). (Inr s, (s, w)))"

definition set_local :: "('s \<Rightarrow> 's) \<Rightarrow> ('s \<times> 'w, unit) eff" where
  "set_local f = (\<lambda>(s, w). (Inr (), (f s, w)))"

lemma in_world_apply: "m w = (r, w') \<Longrightarrow> in_world m (s, w) = (r, (s, w'))"
  by (simp add: in_world_def)

lemma in_world_pure [simp]: "in_world (Pair r) = Pair r"
  by (auto simp: in_world_def)

lemma local_apply [simp]:
  "get_local (s, w) = (Inr s, (s, w))"
  "set_local f (s, w) = (Inr (), (f s, w))"
  by (simp_all add: get_local_def set_local_def)

lemma eff_bind_local [simp]:
  "eff_bind get_local f (s, w) = f s (s, w)"
  "eff_then (set_local g) k (s, w) = k (g s, w)"
  by (simp_all add: eff_bind_def eff_then_def)

lemma fst_snd_in_world [simp]:
  "fst (snd (in_world m sw)) = fst sw"
  "fst (in_world m sw) = fst (m (snd sw))"
  "snd (snd (in_world m sw)) = snd (m (snd sw))"
  by (simp_all add: in_world_def split: prod.split)

lemma then_in_world:
  "fst (m w) = Inr () \<Longrightarrow> eff_then (in_world m) k (s, w) = k (s, snd (m w))"
  "fst (m w) = Inl e \<Longrightarrow> eff_then (in_world m) k (s, w) = (Inl e, (s, snd (m w)))"
  "fst (m w) = Inr () \<Longrightarrow> in_world m (s, w) = (Inr (), (s, snd (m w)))"
  by (auto simp: in_world_def eff_then_def eff_bind_def split: prod.split)

text \<open>What an operation keeps of the state, whether it returns or throws.\<close>

definition keeps :: "('w \<Rightarrow> bool) \<Rightarrow> ('w, 'a) eff \<Rightarrow> bool" where
  "keeps P m \<longleftrightarrow> (\<forall>w. P w \<longrightarrow> P (snd (m w)))"

lemma keepsI: "(\<And>w. P w \<Longrightarrow> P (snd (m w))) \<Longrightarrow> keeps P m"
  by (simp add: keeps_def)

lemma keepsD: "keeps P m \<Longrightarrow> P w \<Longrightarrow> P (snd (m w))"
  by (simp add: keeps_def)

lemma keeps_pure [inv_intros]: "keeps P (Pair r)"
  by (simp add: keeps_def)

lemma keeps_bind [inv_intros]: "keeps P m \<Longrightarrow> (\<And>x. keeps P (f x)) \<Longrightarrow> keeps P (eff_bind m f)"
proof (rule keepsI)
  fix w assume m: "keeps P m" and f: "\<And>x. keeps P (f x)" and w: "P w"
  obtain r w' where r: "m w = (r, w')" by fastforce
  have "P w'" using keepsD [OF m w] r by simp
  then show "P (snd (eff_bind m f w))"
    using keepsD [OF f] by (cases r) (simp_all add: eff_bind_def r)
qed

lemma keeps_then [inv_intros]: "keeps P m \<Longrightarrow> keeps P k \<Longrightarrow> keeps P (eff_then m k)"
  unfolding eff_then_def by (rule keeps_bind)

lemma keeps_catch_std [inv_intros]:
  "keeps P m \<Longrightarrow> (\<And>e. keeps P (h e)) \<Longrightarrow> keeps P (eff_catch_std m h)"
proof (rule keepsI)
  fix w assume m: "keeps P m" and h: "\<And>e. keeps P (h e)" and w: "P w"
  obtain r w' where r: "m w = (r, w')" by fastforce
  have "P w'" using keepsD [OF m w] r by simp
  then show "P (snd (eff_catch_std m h w))"
    using keepsD [OF h] by (auto simp: eff_catch_std_def r split: sum.split failure.split)
qed

lemma keeps_for [inv_intros]: "(\<And>x. keeps P (body x)) \<Longrightarrow> keeps P (eff_for xs body)"
  by (induction xs) (auto intro: keeps_then keeps_pure)

lemma keeps_in_world [inv_intros]: "keeps (\<lambda>(s, w). Q s) (in_world m)"
  by (auto simp: keeps_def in_world_def split: prod.split)

end
