(* ===== verification/Message_Filter.thy ===== *)
theory Message_Filter
  imports Effects
begin

text \<open>
  \<^verbatim>\<open>message_filter.hpp\<close>, \<^verbatim>\<open>filters/rule_based_message_filter\<close> and
  \<^verbatim>\<open>message_filter_chain\<close>.  A rule is a function the program installs: it may throw
  and may have effects on the program's state \<open>'w\<close>.  A filter of another class is a
  parameter too.
\<close>

subsection \<open>RuleBasedMessageFilter\<close>

datatype policy =
    ExactMatchingToAccessList | PermitAllExceptForbidden | ForbidAllExceptPermitted

text \<open>Policies in the order of their declaration; the first one is the default.\<close>

primrec policy_index :: "policy \<Rightarrow> nat" where
  "policy_index ExactMatchingToAccessList = 0"
| "policy_index PermitAllExceptForbidden = 1"
| "policy_index ForbidAllExceptPermitted = 2"

instantiation policy :: linorder
begin

definition less_eq_policy :: "policy \<Rightarrow> policy \<Rightarrow> bool" where
  "less_eq_policy p q \<longleftrightarrow> policy_index p \<le> policy_index q"

definition less_policy :: "policy \<Rightarrow> policy \<Rightarrow> bool" where
  "less_policy p q \<longleftrightarrow> policy_index p < policy_index q"

instance
proof
  fix p q :: policy
  show "p \<le> q \<Longrightarrow> q \<le> p \<Longrightarrow> p = q"
    by (cases p; cases q) (simp_all add: less_eq_policy_def)
qed (auto simp: less_eq_policy_def less_policy_def)

end

type_synonym ('w, 'm) rule = "'m \<Rightarrow> ('w, bool) eff"

record ('w, 'm) rule_based_filter =
  m_policy :: policy
  m_permitted :: "('w, 'm) rule list"
  m_forbidden :: "('w, 'm) rule list"

definition rule_filter_new :: "policy \<Rightarrow> ('w, 'm) rule_based_filter" where
  "rule_filter_new policy = \<lparr>m_policy = policy, m_permitted = [], m_forbidden = []\<rparr>"

text \<open>\<^verbatim>\<open>Policy m_policy {}\<close> of the default constructor is the enumerator of value 0.\<close>

definition rule_filter_default :: "('w, 'm) rule_based_filter" where
  "rule_filter_default = rule_filter_new ExactMatchingToAccessList"

lemma default_policy_least: "m_policy rule_filter_default \<le> p"
  by (simp add: rule_filter_default_def rule_filter_new_def less_eq_policy_def)

definition permit :: "('w, 'm) rule \<Rightarrow> ('w, 'm) rule_based_filter \<Rightarrow> ('w, 'm) rule_based_filter" where
  "permit rule f = f\<lparr>m_permitted := m_permitted f @ [rule]\<rparr>"

definition forbid :: "('w, 'm) rule \<Rightarrow> ('w, 'm) rule_based_filter \<Rightarrow> ('w, 'm) rule_based_filter" where
  "forbid rule f = f\<lparr>m_forbidden := m_forbidden f @ [rule]\<rparr>"

text \<open>\<^verbatim>\<open>std::any_of\<close> stops at the first rule that holds, and at the first that throws.\<close>

primrec satisfies :: "'m \<Rightarrow> ('w, 'm) rule list \<Rightarrow> ('w, bool) eff" where
  "satisfies msg [] = eff_return False"
| "satisfies msg (rule # rules) =
     eff_bind (rule msg) (\<lambda>b. if b then eff_return True else satisfies msg rules)"

definition rule_filter_matches ::
  "('w, 'm) rule_based_filter \<Rightarrow> 'm \<Rightarrow> ('w, bool) eff" where
  "rule_filter_matches f msg =
     (case m_policy f of
        PermitAllExceptForbidden \<Rightarrow>
          eff_bind (satisfies msg (m_forbidden f)) (\<lambda>b. eff_return (\<not> b))
      | ForbidAllExceptPermitted \<Rightarrow> satisfies msg (m_permitted f)
      | ExactMatchingToAccessList \<Rightarrow>
          eff_bind (satisfies msg (m_permitted f)) (\<lambda>p.
            if p then eff_bind (satisfies msg (m_forbidden f)) (\<lambda>b. eff_return (\<not> b))
            else eff_return False))"

subsection \<open>MessageFilterChain\<close>

datatype ('w, 'm) message_filter =
    RuleFilter "('w, 'm) rule_based_filter"
  | FilterChain "('w, 'm) message_filter list"
  | CustomFilter "'m \<Rightarrow> ('w, bool) eff"

definition addFilter ::
  "('w, 'm) message_filter option \<Rightarrow> ('w, 'm) message_filter list
     \<Rightarrow> ('w, 'm) message_filter list outcome" where
  "addFilter ptr filters =
     (case ptr of
        None \<Rightarrow> Inl (Thrown (mk_exn InvalidArgumentException
                             ''Message filter instance is null pointer''))
      | Some f \<Rightarrow> Inr (filters @ [f]))"

text \<open>\<^verbatim>\<open>for (auto& filter : m_filters) if (!filter->matches(msg)) return false; return true;\<close>\<close>

primrec all_match :: "('m \<Rightarrow> ('w, bool) eff) list \<Rightarrow> 'm \<Rightarrow> ('w, bool) eff" where
  "all_match [] msg = eff_return True"
| "all_match (f # fs) msg =
     eff_bind (f msg) (\<lambda>b. if \<not> b then eff_return False else all_match fs msg)"

primrec filter_matches :: "('w, 'm) message_filter \<Rightarrow> 'm \<Rightarrow> ('w, bool) eff" where
  "filter_matches (RuleFilter f) = rule_filter_matches f"
| "filter_matches (FilterChain fs) = all_match (map filter_matches fs)"
| "filter_matches (CustomFilter g) = g"

definition chain_matches :: "('w, 'm) message_filter list \<Rightarrow> 'm \<Rightarrow> ('w, bool) eff" where
  "chain_matches filters msg = filter_matches (FilterChain filters) msg"

subsection \<open>What a filter decides\<close>

text \<open>
  The interface \<^verbatim>\<open>MessageFilter\<close>, for filters that decide by the message alone:
  \<open>matches\<close> answers \<open>accepts\<close> and has no effect.
\<close>

locale deciding_filters =
  fixes decides :: "'f \<Rightarrow> bool" and matches :: "'f \<Rightarrow> 'm \<Rightarrow> ('w, bool) eff"
    and accepts :: "'f \<Rightarrow> 'm \<Rightarrow> bool"
  assumes matches_decides: "decides f \<Longrightarrow> matches f msg = eff_return (accepts f msg)"
begin

lemma all_match_decides:
  "list_all decides fs \<Longrightarrow>
   all_match (map matches fs) msg = eff_return (list_all (\<lambda>f. accepts f msg) fs)"
  by (induction fs) (simp_all add: matches_decides)

text \<open>In a chain the order of the filters does not matter.\<close>

lemma chain_order:
  assumes "list_all decides fs" and "set gs = set fs"
  shows "all_match (map matches gs) msg = all_match (map matches fs) msg"
proof -
  have "list_all decides gs"
    using assms by (simp add: list_all_iff)
  then show ?thesis
    using assms by (simp add: all_match_decides list_all_iff)
qed

end

text \<open>A rule that is a predicate on messages.\<close>

definition pure_rule :: "('m \<Rightarrow> bool) \<Rightarrow> ('w, 'm) rule" where
  "pure_rule p = (\<lambda>msg. eff_return (p msg))"

lemma satisfies_pure:
  "satisfies msg (map pure_rule ps) = eff_return (\<exists>p \<in> set ps. p msg)"
  by (induction ps) (auto simp: pure_rule_def)

text \<open>The filters whose rules are all predicates, and their decision.\<close>

datatype 'm decision_filter =
    DRules policy "('m \<Rightarrow> bool) list" "('m \<Rightarrow> bool) list"
  | DChain "'m decision_filter list"
  | DCustom "'m \<Rightarrow> bool"

primrec as_filter :: "'m decision_filter \<Rightarrow> ('w, 'm) message_filter" where
  "as_filter (DRules p ps fs) =
     RuleFilter \<lparr>m_policy = p, m_permitted = map pure_rule ps, m_forbidden = map pure_rule fs\<rparr>"
| "as_filter (DChain ds) = FilterChain (map as_filter ds)"
| "as_filter (DCustom p) = CustomFilter (pure_rule p)"

primrec decision :: "'m decision_filter \<Rightarrow> 'm \<Rightarrow> bool" where
  "decision (DRules p ps fs) =
     (\<lambda>msg. let permitted = (\<exists>r \<in> set ps. r msg); forbidden = (\<exists>r \<in> set fs. r msg)
            in case p of PermitAllExceptForbidden \<Rightarrow> \<not> forbidden
               | ForbidAllExceptPermitted \<Rightarrow> permitted
               | ExactMatchingToAccessList \<Rightarrow> permitted \<and> \<not> forbidden)"
| "decision (DChain ds) = (\<lambda>msg. list_all (\<lambda>d. d msg) (map decision ds))"
| "decision (DCustom p) = p"

lemma filter_matches_decision:
  "filter_matches (as_filter d :: ('w, 'm) message_filter) msg = eff_return (decision d msg)"
proof (induction d arbitrary: msg)
  case (DRules p ps fs)
  show ?case
    by (cases p) (auto simp: rule_filter_matches_def satisfies_pure Let_def)
next
  case (DChain ds)
  then have "all_match (map (\<lambda>d. filter_matches (as_filter d :: ('w, 'm) message_filter)) ds) msg
      = eff_return (list_all (\<lambda>d. decision d msg) ds)"
    by (induction ds) simp_all
  then show ?case
    by (simp add: o_def list_all_iff)
qed (simp add: pure_rule_def)

interpretation dec: deciding_filters "\<lambda>d. True" "\<lambda>d. filter_matches (as_filter d)" decision
  by unfold_locales (simp only: filter_matches_decision)

subsection \<open>Properties\<close>

text \<open>A filter built of rule-based filters, chains and predicates decides as its policies say:
  all but forbidden, only permitted, or permitted and not forbidden, and a chain accepts
  exactly what all its members accept, whatever their order and however they nest.\<close>

theorem filter_decides:
  assumes "set es = set ds"
  shows "filter_matches (as_filter d) msg w = (Inr (decision d msg), w)
    \<and> chain_matches (map as_filter ds) msg w = (Inr (list_all (\<lambda>d. decision d msg) ds), w)
    \<and> chain_matches (map as_filter es) msg w = chain_matches (map as_filter ds) msg w"
proof -
  have "list_all (\<lambda>d. True) ds"
    by (simp add: list_all_iff)
  note chain = dec.all_match_decides [OF this] dec.chain_order [OF this assms]
  show ?thesis
    by (simp add: filter_matches_decision chain_matches_def o_def chain)
qed

theorem filter_decides_witness:
  "chain_matches (map as_filter [DRules ExactMatchingToAccessList [\<lambda>n. n < 5] [\<lambda>n. n = 3], DCustom even])
     (4::nat) () = (Inr True, ())
   \<and> chain_matches (map as_filter [DCustom even, DRules ExactMatchingToAccessList [\<lambda>n. n < 5] [\<lambda>n. n = 3]])
     (4::nat) () = (Inr True, ())"
proof -
  let ?a = "DRules ExactMatchingToAccessList [\<lambda>n::nat. n < 5] [\<lambda>n. n = 3]"
  have "set [?a, DCustom even] = set [DCustom even, ?a]"
    by auto
  from filter_decides [OF this, of ?a 4 "()"] show ?thesis
    by (simp add: Let_def)
qed

end
