(* ===== verification/Message_Dispatcher.thy ===== *)
theory Message_Dispatcher
  imports Message_Model Message_Filter
begin

text \<open>
  \<^verbatim>\<open>src/message/message_dispatcher.cpp\<close> and \<^verbatim>\<open>message_controller.cpp\<close>.  Dispatchers
  refer to each other by address: \<open>heap\<close> is the dispatcher at an address.  Handlers
  receive the message by ownership and act on the program's state \<open>'w\<close>; they leave
  the configuration of dispatchers alone while a message is dispatched.
\<close>

type_synonym 'w handler = "message option \<Rightarrow> ('w, unit) eff"

record 'w dispatcher =
  m_handlers :: "message_type \<rightharpoonup> 'w handler option"
  m_delegated_dispatchers :: "nat list"
  m_filter_chain :: "('w, message option) message_filter list"
  onMessageRejected :: "'w handler option"

definition dispatcher_new :: "'w dispatcher" where
  "dispatcher_new =
     \<lparr>m_handlers = Map.empty, m_delegated_dispatchers = [], m_filter_chain = [],
      onMessageRejected = Some (\<lambda>msg. eff_return ())\<rparr>"

definition addHandler :: "message_type \<Rightarrow> 'w handler option \<Rightarrow> 'w dispatcher \<Rightarrow> 'w dispatcher" where
  "addHandler t handler d = d\<lparr>m_handlers := (m_handlers d)(t \<mapsto> handler)\<rparr>"

definition hasHandler :: "message_type \<Rightarrow> 'w dispatcher \<Rightarrow> bool" where
  "hasHandler t d \<longleftrightarrow> m_handlers d t \<noteq> None"

definition addDelegatedDispatcher :: "nat \<Rightarrow> 'w dispatcher \<Rightarrow> 'w dispatcher" where
  "addDelegatedDispatcher a d =
     d\<lparr>m_delegated_dispatchers := m_delegated_dispatchers d @ [a]\<rparr>"

definition searchWithinDelegatedDispatchers ::
  "(nat \<Rightarrow> 'w dispatcher) \<Rightarrow> message_type \<Rightarrow> 'w dispatcher \<Rightarrow> nat option" where
  "searchWithinDelegatedDispatchers heap t d =
     List.find (\<lambda>a. hasHandler t (heap a)) (m_delegated_dispatchers d)"

text \<open>
  The part after the search, for a dispatcher with a handler of its own: filter,
  then the handler or the rejection callback.
\<close>

definition deliver :: "'w dispatcher \<Rightarrow> message \<Rightarrow> ('w, unit) eff" where
  "deliver d msg =
     eff_bind (chain_matches (m_filter_chain d) (Some msg)) (\<lambda>ok.
       if ok
       then (case m_handlers d (msg_type msg) of
               None \<Rightarrow> eff_throw (mk_exn StdOutOfRange ''unordered_map::at'')
             | Some handler \<Rightarrow> call_function handler (Some msg))
       else call_function (onMessageRejected d) (Some msg))"

text \<open>
  \<^verbatim>\<open>doDispatch\<close>.  A delegate is only chosen when it has a handler itself, so it
  does not delegate further: the recursion ends whatever the dispatchers refer to,
  cycles included.
\<close>

lemma find_SomeD: "List.find P xs = Some x \<Longrightarrow> P x \<and> x \<in> set xs"
  by (auto simp: find_Some_iff)

function doDispatch ::
  "(nat \<Rightarrow> 'w dispatcher) \<Rightarrow> nat \<Rightarrow> message \<Rightarrow> ('w, unit) eff" where
  "doDispatch heap a msg =
     eff_catch_all
       (if \<not> hasHandler (msg_type msg) (heap a)
        then case searchWithinDelegatedDispatchers heap (msg_type msg) (heap a) of
               Some b \<Rightarrow> doDispatch heap b msg
             | None \<Rightarrow> eff_return ()
        else deliver (heap a) msg)
       (eff_return ())"
  by pat_completeness auto
termination
  by (relation "measure (\<lambda>(heap, a, msg). if hasHandler (msg_type msg) (heap a) then 0 else 1)")
    (auto simp: searchWithinDelegatedDispatchers_def dest: find_SomeD)

declare doDispatch.simps [simp del]

text \<open>A null message is dereferenced at once.\<close>

definition dispatch :: "(nat \<Rightarrow> 'w dispatcher) \<Rightarrow> nat \<Rightarrow> 'w handler" where
  "dispatch heap a msg =
     (case msg of None \<Rightarrow> eff_fail (Fault NullDereference) | Some m \<Rightarrow> doDispatch heap a m)"

subsection \<open>MessageController\<close>

text \<open>
  \<^verbatim>\<open>doInit\<close> runs the two functions a subclass provides, the channels first.
\<close>

record 'w message_controller =
  setUpMessageChannels :: "('w, unit) eff"
  setUpMessageDispatcher :: "('w, unit) eff"

definition controller_doInit :: "'w message_controller \<Rightarrow> ('w, unit) eff" where
  "controller_doInit c = eff_then (setUpMessageChannels c) (setUpMessageDispatcher c)"

definition controller_init :: "'w message_controller \<Rightarrow> ('w, unit) eff" where
  "controller_init c = controller_doInit c"

subsection \<open>Routing\<close>

text \<open>Which dispatcher deals with a type.\<close>

definition route :: "(nat \<Rightarrow> 'w dispatcher) \<Rightarrow> nat \<Rightarrow> message_type \<Rightarrow> nat option" where
  "route heap a t =
     (if hasHandler t (heap a) then Some a
      else if \<exists>b \<in> set (m_delegated_dispatchers (heap a)). hasHandler t (heap b)
      then Some (hd (filter (\<lambda>b. hasHandler t (heap b)) (m_delegated_dispatchers (heap a))))
      else None)"

lemma find_hd_filter:
  "List.find P xs = (if \<exists>x \<in> set xs. P x then Some (hd (filter P xs)) else None)"
  by (induction xs) auto

lemma route_find:
  "route heap a t =
     (if hasHandler t (heap a) then Some a
      else List.find (\<lambda>b. hasHandler t (heap b)) (m_delegated_dispatchers (heap a)))"
  by (simp add: route_def find_hd_filter)

lemma route_hasHandler: "route heap a t = Some b \<Longrightarrow> hasHandler t (heap b)"
  by (auto simp: route_find dest: find_SomeD split: if_splits)

lemma doDispatch_route:
  "doDispatch heap a msg =
     (case route heap a (msg_type msg) of
        None \<Rightarrow> eff_return ()
      | Some b \<Rightarrow> eff_catch_all (deliver (heap b) msg) (eff_return ()))"
proof (cases "hasHandler (msg_type msg) (heap a)")
  case True
  then show ?thesis
    by (subst doDispatch.simps) (simp add: route_def)
next
  case False
  show ?thesis
  proof (cases "searchWithinDelegatedDispatchers heap (msg_type msg) (heap a)")
    case None
    with False show ?thesis
      by (subst doDispatch.simps)
        (auto simp: route_def searchWithinDelegatedDispatchers_def find_hd_filter split: if_splits)
  next
    case (Some b)
    then have b: "hasHandler (msg_type msg) (heap b)"
      by (auto simp: searchWithinDelegatedDispatchers_def dest: find_SomeD)
    have "route heap a (msg_type msg) = Some b"
      using False Some
      by (auto simp: route_def searchWithinDelegatedDispatchers_def find_hd_filter split: if_splits)
    moreover have "doDispatch heap b msg = eff_catch_all (deliver (heap b) msg) (eff_return ())"
      using b by (subst doDispatch.simps) simp
    ultimately show ?thesis
      using False Some by (subst doDispatch.simps) simp
  qed
qed

subsection \<open>Properties\<close>

text \<open>C27: Dispatching: a message goes to the dispatcher itself when it has a handler for the type,
  otherwise to the first of its delegates that has one, otherwise it is dropped.  The handler of
  the chosen dispatcher gets the message when all its filters, as their policies say, accept it,
  and its rejection callback otherwise; nothing else of any dispatcher runs, and no exception leaves.\<close>

theorem dispatch_outcome:
  assumes "\<forall>b. m_filter_chain (heap b) = map as_filter (ds b)"
  shows "dispatch heap a (Some msg) w =
     (case route heap a (msg_type msg) of
        None \<Rightarrow> (Inr (), w)
      | Some b \<Rightarrow>
          eff_catch_all (call_function
            (if list_all (\<lambda>d. decision d (Some msg)) (ds b) then the (m_handlers (heap b) (msg_type msg))
             else onMessageRejected (heap b)) (Some msg)) (eff_return ()) w)
    \<and> fst (dispatch heap a (Some msg) w) \<noteq> Inl (Thrown e)"
proof -
  have matches: "chain_matches (m_filter_chain (heap b)) m = eff_return (list_all (\<lambda>d. decision d m) (ds b))" for b m
    using dec.all_match_decides [of "ds b" m] assms by (simp add: chain_matches_def o_def list_all_iff)
  have "deliver (heap b) msg = call_function
      (if list_all (\<lambda>d. decision d (Some msg)) (ds b) then the (m_handlers (heap b) (msg_type msg))
       else onMessageRejected (heap b)) (Some msg)" if "route heap a (msg_type msg) = Some b" for b
    using route_hasHandler [OF that] by (auto simp: deliver_def matches hasHandler_def)
  moreover have "dispatch heap a (Some msg) = (case route heap a (msg_type msg) of
        None \<Rightarrow> eff_return () | Some b \<Rightarrow> eff_catch_all (deliver (heap b) msg) (eff_return ()))"
    by (simp add: dispatch_def doDispatch_route)
  ultimately show ?thesis using catch_all_no_throw [of _ "()" w e] by (auto split: option.split)
qed

text \<open>A dispatcher that counts its messages of type 7, when it takes any, and its rejections.\<close>

definition demo_filtered :: "bool \<Rightarrow> nat dispatcher" where
  "demo_filtered accepts = (addHandler 7 (Some (\<lambda>msg w. (Inr (), w + 1))) dispatcher_new)
     \<lparr>m_filter_chain := [as_filter (DCustom (\<lambda>m. accepts))], onMessageRejected := Some (\<lambda>msg w. (Inr (), w + 100))\<rparr>"

theorem dispatch_outcome_witness:
  "dispatch (\<lambda>a. demo_filtered True) 0 (Some demo_message) 4 = (Inr (), 5)
   \<and> dispatch (\<lambda>a. demo_filtered False) 0 (Some demo_message) 4 = (Inr (), 104)"
proof -
  have t: "msg_type demo_message = 7"
    using message_new(4) [OF demo_descriptor(1)] demo_descriptor(2) by (simp add: demo_message_def)
  have "route (\<lambda>a. demo_filtered b) 0 7 = Some 0" for b
    by (simp add: route_def demo_filtered_def hasHandler_def addHandler_def)
  with t dispatch_outcome [of "\<lambda>a. demo_filtered True" "\<lambda>a. [DCustom (\<lambda>m. True)]" 0 demo_message 4 undefined]
    dispatch_outcome [of "\<lambda>a. demo_filtered False" "\<lambda>a. [DCustom (\<lambda>m. False)]" 0 demo_message 4 undefined]
  show ?thesis by (simp add: demo_filtered_def addHandler_def call_function_def eff_catch_all_def)
qed

text \<open>No exception of a handler, a filter or a callback ever leaves \<^verbatim>\<open>dispatch\<close>; its effects up to
  the throw remain.\<close>

theorem dispatch_never_throws:
  "fst (dispatch heap a msg w) \<noteq> Inl (Thrown e)
   \<and> (\<forall>m b w'. msg = Some m \<and> route heap a (msg_type m) = Some b
        \<and> deliver (heap b) m w = (Inl (Thrown e), w') \<longrightarrow> dispatch heap a msg w = (Inr (), w'))"
proof (cases msg)
  case (Some m)
  show ?thesis
    using catch_all_no_throw [of _ "()" w e]
    by (auto simp: Some dispatch_def doDispatch_route eff_catch_all_def split: option.split)
qed (simp add: dispatch_def)

definition demo_dispatcher :: "nat dispatcher" where
  "demo_dispatcher = addHandler 7 (Some (\<lambda>msg w. (Inl (Thrown (mk_exn IOException [])), Suc w))) dispatcher_new"

theorem dispatch_never_throws_witness:
  "dispatch (\<lambda>a. demo_dispatcher) 0 (Some demo_message) 4 = (Inr (), 5)"
proof -
  have t: "msg_type demo_message = 7"
    using message_new(4) [OF demo_descriptor(1)] demo_descriptor(2)
    by (simp add: demo_message_def)
  have r: "route (\<lambda>a. demo_dispatcher) 0 7 = Some 0"
    by (simp add: route_def demo_dispatcher_def hasHandler_def addHandler_def)
  have "deliver demo_dispatcher demo_message 4 = (Inl (Thrown (mk_exn IOException [])), 5)"
    using t by (simp add: deliver_def demo_dispatcher_def addHandler_def dispatcher_new_def
        chain_matches_def call_function_def)
  with r t dispatch_never_throws [of "\<lambda>a. demo_dispatcher" 0 "Some demo_message" 4 "mk_exn IOException []"]
  show ?thesis by simp
qed

text \<open>The filters of a dispatcher do not see what it delegates: with no handler of its own for the
  type, changing its filters and its rejection callback changes nothing.\<close>

theorem delegation_bypasses_filters:
  assumes "\<not> hasHandler (msg_type msg) (heap a)"
  shows "dispatch (heap(a := (heap a)\<lparr>m_filter_chain := fs, onMessageRejected := r\<rparr>)) a (Some msg)
       = dispatch heap a (Some msg)"
proof -
  let ?h = "heap(a := (heap a)\<lparr>m_filter_chain := fs, onMessageRejected := r\<rparr>)"
  have has: "hasHandler t (?h b) = hasHandler t (heap b)" for t b
    by (simp add: hasHandler_def)
  have route: "route ?h a t = route heap a t" for t
    unfolding route_def has by simp
  have "?h b = heap b" if "route heap a (msg_type msg) = Some b" for b
    using route_hasHandler [OF that] assms by auto
  then show ?thesis
    by (auto simp: dispatch_def doDispatch_route route split: option.split)
qed

theorem delegation_bypasses_filters_witness:
  "dispatch ((\<lambda>a::nat. dispatcher_new)(0 := (dispatcher_new :: nat dispatcher)
       \<lparr>m_filter_chain := [CustomFilter (\<lambda>m. eff_return False)], onMessageRejected := None\<rparr>)) 0 (Some demo_message)
   = dispatch (\<lambda>a. dispatcher_new) 0 (Some demo_message)"
  using delegation_bypasses_filters [of demo_message "\<lambda>a. dispatcher_new" 0]
  by (simp add: hasHandler_def dispatcher_new_def)

end
