(* ===== verification/Service_Model.thy ===== *)
theory Service_Model
  imports Effects
begin

text \<open>
  \<^verbatim>\<open>service.hpp\<close> and \<^verbatim>\<open>service_manager.hpp\<close>.  A concrete service is what its virtual
  functions do to the program's state; the manager keeps at most one service per
  type.
\<close>

subsection \<open>Service\<close>

datatype service_state = StartPending | Started | StopPending | Stopped

instantiation service_state :: linorder
begin

primrec service_state_index :: "service_state \<Rightarrow> nat" where
  "service_state_index StartPending = 0"
| "service_state_index Started = 1"
| "service_state_index StopPending = 2"
| "service_state_index Stopped = 3"

definition less_eq_service_state :: "service_state \<Rightarrow> service_state \<Rightarrow> bool" where
  "less_eq_service_state p q \<longleftrightarrow> service_state_index p \<le> service_state_index q"

definition less_service_state :: "service_state \<Rightarrow> service_state \<Rightarrow> bool" where
  "less_service_state p q \<longleftrightarrow> service_state_index p < service_state_index q"

instance
proof
  fix p q :: service_state
  show "p \<le> q \<Longrightarrow> q \<le> p \<Longrightarrow> p = q"
    by (cases p; cases q) (simp_all add: less_eq_service_state_def)
qed (auto simp: less_eq_service_state_def less_service_state_def)

end

text \<open>The virtual functions of a service object \<open>'s\<close>, and its \<^verbatim>\<open>m_state\<close>.\<close>

record ('w, 's) service_class =
  doStart :: "'s \<Rightarrow> ('w, unit) eff"
  doInit :: "'s \<Rightarrow> ('w, unit) eff"
  doStop :: "'s \<Rightarrow> ('w, unit) eff"
  service_m_state :: "'s \<Rightarrow> 'w \<Rightarrow> service_state"

definition service_start :: "('w, 's) service_class \<Rightarrow> 's \<Rightarrow> ('w, unit) eff" where
  "service_start c s = doStart c s"

definition service_init :: "('w, 's) service_class \<Rightarrow> 's \<Rightarrow> ('w, unit) eff" where
  "service_init c s = doInit c s"

definition service_stop :: "('w, 's) service_class \<Rightarrow> 's \<Rightarrow> ('w, unit) eff" where
  "service_stop c s = doStop c s"

definition service_state :: "('w, 's) service_class \<Rightarrow> 's \<Rightarrow> 'w \<Rightarrow> service_state" where
  "service_state c s w = service_m_state c s w"

definition service_started :: "('w, 's) service_class \<Rightarrow> 's \<Rightarrow> 'w \<Rightarrow> bool" where
  "service_started c s w \<longleftrightarrow> service_m_state c s w = Started"

definition service_stopped :: "('w, 's) service_class \<Rightarrow> 's \<Rightarrow> 'w \<Rightarrow> bool" where
  "service_stopped c s w \<longleftrightarrow> service_m_state c s w = Stopped"

subsection \<open>ServiceManager\<close>

text \<open>
  \<^verbatim>\<open>std::type_index\<close> is a number here; the list is in the iteration order of the
  \<^verbatim>\<open>unordered_map\<close>.
\<close>

type_synonym service_type = nat

record 's service_manager =
  m_services :: "(service_type \<times> 's) list"

definition service_manager_new :: "'s service_manager" where
  "service_manager_new = \<lparr>m_services = []\<rparr>"

text \<open>\<open>construct\<close> is \<^verbatim>\<open>std::make_shared<ConcreteService>(args...)\<close>.\<close>

definition publish ::
  "('w, 's) service_class \<Rightarrow> service_type \<Rightarrow> ('w, 's) eff \<Rightarrow> ('s service_manager \<times> 'w, 's) eff" where
  "publish c t construct =
     eff_bind get_local (\<lambda>sm.
       if al_contains (m_services sm) t
       then eff_throw (mk_exn RuntimeException ''Service has already been published'')
       else eff_bind (in_world construct) (\<lambda>service.
         eff_then (in_world (service_init c service))
           (eff_then (set_local (\<lambda>sm. sm\<lparr>m_services := al_insert t service (m_services sm)\<rparr>))
             (eff_return service))))"

definition getService :: "service_type \<Rightarrow> 's service_manager \<Rightarrow> 's option" where
  "getService t sm = (if \<not> al_contains (m_services sm) t then None else map_of (m_services sm) t)"

text \<open>\<^verbatim>\<open>terminate<ConcreteService>()\<close>\<close>

definition terminate_service ::
  "('w, 's) service_class \<Rightarrow> service_type \<Rightarrow> ('s service_manager \<times> 'w, bool) eff" where
  "terminate_service c t =
     eff_bind get_local (\<lambda>sm.
       case map_of (m_services sm) t of
         None \<Rightarrow> eff_return False
       | Some service \<Rightarrow>
           eff_then (in_world (service_stop c service))
             (eff_then (set_local (\<lambda>sm. sm\<lparr>m_services := AList.delete t (m_services sm)\<rparr>))
               (eff_return True)))"

text \<open>\<^verbatim>\<open>terminate()\<close> stops every service and forgets them all.\<close>

definition terminate_services :: "('w, 's) service_class \<Rightarrow> ('s service_manager \<times> 'w, unit) eff" where
  "terminate_services c =
     eff_bind get_local (\<lambda>sm.
       eff_then
         (eff_for (m_services sm) (\<lambda>(t, service).
            eff_catch_std (in_world (service_stop c service)) (\<lambda>ex. eff_return ())))
         (set_local (\<lambda>sm. sm\<lparr>m_services := []\<rparr>)))"

definition service_manager_inv :: "'s service_manager \<Rightarrow> bool" where
  "service_manager_inv sm \<longleftrightarrow> distinct (map fst (m_services sm))"

lemma service_manager_inv_new [simp]: "service_manager_inv service_manager_new"
  by (simp add: service_manager_inv_def service_manager_new_def)

lemma keeps_get_local [inv_intros]: "keeps P get_local"
  by (auto simp: keeps_def get_local_def)

lemma keeps_set_local [inv_intros]: "(\<And>s. Q s \<Longrightarrow> Q (f s)) \<Longrightarrow> keeps (\<lambda>(s, w). Q s) (set_local f)"
  by (auto simp: keeps_def set_local_def)

lemma keeps_publish [inv_intros]: "keeps (\<lambda>(sm, w). service_manager_inv sm) (publish c t construct)"
  unfolding publish_def eff_simps
  by (intro keeps_bind keeps_then keeps_get_local keeps_in_world keeps_pure keeps_set_local
      if_split [of "keeps _", THEN iffD2] conjI impI)
    (auto simp: service_manager_inv_def)

lemma keeps_terminate_service [inv_intros]:
  "keeps (\<lambda>(sm, w). service_manager_inv sm) (terminate_service c t)"
proof -
  have "keeps (\<lambda>(sm, w). service_manager_inv sm)
      (case map_of (m_services sm) t of None \<Rightarrow> Pair (Inr False)
       | Some service \<Rightarrow> eff_then (in_world (service_stop c service))
           (eff_then (set_local (\<lambda>sm. sm\<lparr>m_services := AList.delete t (m_services sm)\<rparr>))
             (Pair (Inr True))))" for sm
    by (cases "map_of (m_services sm) t")
      (auto simp: service_manager_inv_def
        intro!: keeps_then keeps_in_world keeps_pure keeps_set_local)
  then show ?thesis
    unfolding terminate_service_def eff_simps by (intro keeps_bind keeps_get_local)
qed

lemma keeps_terminate_services [inv_intros]:
  "keeps (\<lambda>(sm, w). service_manager_inv sm) (terminate_services c)"
  unfolding terminate_services_def eff_simps split_def
  by (intro keeps_bind keeps_then keeps_get_local keeps_for keeps_catch_std keeps_pure
      keeps_in_world [unfolded split_def] keeps_set_local [unfolded split_def])
    (simp add: service_manager_inv_def)

subsection \<open>Runs of the manager\<close>

text \<open>
  Services that note their initialisation and their stop in a log; \<open>run_op\<close>
  performs one request and carries on after an exception.
\<close>

datatype service_event = Inited nat | StoppedService nat

definition logging :: "(service_event list, nat) service_class" where
  "logging =
     \<lparr>doStart = (\<lambda>s log. (Inr (), log)),
      doInit = (\<lambda>s log. (Inr (), log @ [Inited s])),
      doStop = (\<lambda>s log. (Inr (), log @ [StoppedService s])),
      service_m_state = (\<lambda>s log. Stopped)\<rparr>"

datatype manager_op = Publish service_type nat | Terminate service_type | TerminateAll

fun run_op ::
  "manager_op \<Rightarrow> nat service_manager \<times> service_event list \<Rightarrow> nat service_manager \<times> service_event list" where
  "run_op (Publish t s) st = snd (publish logging t (eff_return s) st)"
| "run_op (Terminate t) st = snd (terminate_service logging t st)"
| "run_op TerminateAll st = snd (terminate_services logging st)"

definition run_ops :: "manager_op list \<Rightarrow> nat service_manager \<times> service_event list" where
  "run_ops ops = fold run_op ops (service_manager_new, [])"

fun balance :: "nat \<Rightarrow> service_event list \<Rightarrow> int" where
  "balance s [] = 0"
| "balance s (Inited r # log) = (if r = s then 1 else 0) + balance s log"
| "balance s (StoppedService r # log) = (if r = s then - 1 else 0) + balance s log"

lemma balance_append [simp]: "balance s (log @ log') = balance s log + balance s log'"
proof (induction log)
  case (Cons e log)
  then show ?case by (cases e) auto
qed simp

lemma publish_logging:
  "publish logging t (Pair (Inr s)) (sm, log) =
     (if al_contains (m_services sm) t
      then (Inl (Thrown (mk_exn RuntimeException ''Service has already been published'')), (sm, log))
      else (Inr s, (\<lparr>m_services = m_services sm @ [(t, s)]\<rparr>, log @ [Inited s])))"
  by (auto simp: publish_def logging_def service_init_def in_world_def eff_then_def eff_bind_def
      al_insert_def al_contains_def set_local_def)

lemma terminate_logging:
  "terminate_service logging t (sm, log) =
     (case map_of (m_services sm) t of
        None \<Rightarrow> (Inr False, (sm, log))
      | Some s \<Rightarrow> (Inr True, (\<lparr>m_services = AList.delete t (m_services sm)\<rparr>, log @ [StoppedService s])))"
  by (auto simp: terminate_service_def logging_def service_stop_def in_world_def eff_then_def
      eff_bind_def set_local_def split: option.split)

lemma stop_each_logging:
  "eff_for svs (\<lambda>(t, service).
      eff_catch_std (in_world (service_stop logging service)) (\<lambda>ex. Pair (Inr ()))) (sm, log)
   = (Inr (), (sm, log @ map (StoppedService \<circ> snd) svs))"
  by (induction svs arbitrary: log)
    (auto simp: eff_then_def eff_bind_def eff_catch_std_def in_world_def service_stop_def logging_def)

lemma terminate_all_logging:
  "terminate_services logging (sm, log)
   = (Inr (), (\<lparr>m_services = []\<rparr>, log @ map (StoppedService \<circ> snd) (m_services sm)))"
  by (simp add: terminate_services_def eff_then_def eff_bind_def stop_each_logging set_local_def)

text \<open>The services the manager holds are those initialised and not stopped.\<close>

lemma count_delete:
  "distinct (map fst al) \<Longrightarrow> map_of al t = Some s \<Longrightarrow>
   count_list (map snd (AList.delete t al)) r = count_list (map snd al) r - (if r = s then 1 else 0)"
proof (induction al)
  case (Cons p al)
  have "AList.delete t al = al" if "t \<notin> fst ` set al"
    using that by (simp add: delete_id)
  moreover have "count_list (map snd al) s > 0" if "map_of al t = Some s"
    using that by (induction al) (auto split: if_splits)
  ultimately show ?case
    using Cons by (cases p) (auto split: if_splits)
qed simp

lemma balance_stops:
  "balance s (map (StoppedService \<circ> snd) svs) = - int (count_list (map snd svs) s)"
  by (induction svs) auto

lemma run_op_balance:
  assumes "service_manager_inv sm" and "\<And>s. balance s log = int (count_list (map snd (m_services sm)) s)"
    and "run_op op (sm, log) = (sm', log')"
  shows "service_manager_inv sm'" and "balance s log' = int (count_list (map snd (m_services sm')) s)"
proof -
  have "service_manager_inv sm' \<and> balance s log' = int (count_list (map snd (m_services sm')) s)"
  proof (cases op)
    case (Publish t v)
    then show ?thesis
      using assms by (auto simp: publish_logging service_manager_inv_def al_contains_iff split: if_splits)
  next
    case (Terminate t)
    show ?thesis
    proof (cases "map_of (m_services sm) t")
      case None
      with Terminate assms show ?thesis by (auto simp: terminate_logging)
    next
      case (Some v)
      have "count_list (map snd (m_services sm)) v > 0"
        using Some by (induction "m_services sm") (auto dest!: map_of_SomeD intro: rev_image_eqI
            simp: count_list_0_iff neq0_conv [symmetric] simp del: neq0_conv)
      with Some Terminate assms show ?thesis
        by (auto simp: terminate_logging service_manager_inv_def count_delete of_nat_diff)
    qed
  next
    case TerminateAll
    with assms show ?thesis
      by (auto simp: terminate_all_logging service_manager_inv_def balance_stops)
  qed
  then show "service_manager_inv sm'" "balance s log' = int (count_list (map snd (m_services sm')) s)"
    by blast+
qed

lemma run_ops_balance:
  assumes "run_ops ops = (sm, log)"
  shows "service_manager_inv sm \<and> (\<forall>s. balance s log = int (count_list (map snd (m_services sm)) s))"
proof -
  have "service_manager_inv sm' \<and> (\<forall>s. balance s log' = int (count_list (map snd (m_services sm')) s))"
    if "fold run_op ops st = (sm', log')" and "service_manager_inv (fst st)"
      "\<forall>s. balance s (snd st) = int (count_list (map snd (m_services (fst st))) s)" for st sm' log'
    using that
  proof (induction ops arbitrary: st)
    case (Cons op ops)
    obtain sm1 log1 where st1: "run_op op st = (sm1, log1)" by fastforce
    then have "service_manager_inv sm1" "\<forall>s. balance s log1 = int (count_list (map snd (m_services sm1)) s)"
      using run_op_balance [of "fst st" "snd st" op sm1 log1] Cons.prems by auto
    with Cons.IH [of "run_op op st"] Cons.prems(1) st1 show ?case by simp
  qed auto
  from this [of "(service_manager_new, [])"] assms show ?thesis
    by (simp add: run_ops_def) (simp add: service_manager_new_def)
qed

subsection \<open>Properties\<close>

text \<open>Life cycle: after any sequence of publications and terminations, refused ones included, the
  manager holds at most one service per type, exactly the services initialised and not yet
  stopped, and \<^verbatim>\<open>terminate()\<close> then leaves every service stopped as often as initialised.\<close>

theorem services_balanced:
  "distinct (map fst (m_services (fst (run_ops ops))))
   \<and> balance s (snd (run_ops ops)) = int (count_list (map snd (m_services (fst (run_ops ops)))) s)
   \<and> balance s (snd (run_ops (ops @ [TerminateAll]))) = 0"
proof -
  obtain sm log where r: "run_ops ops = (sm, log)" by fastforce
  have "run_ops (ops @ [TerminateAll]) = run_op TerminateAll (sm, log)"
    using r by (simp add: run_ops_def)
  with run_ops_balance [OF r] r show ?thesis
    by (simp add: terminate_all_logging balance_stops service_manager_inv_def)
qed

text \<open>\<^verbatim>\<open>ServiceManager::terminate()\<close> always forgets every service and stops each of them once, in the
  map's order, even when some of the stops throw exceptions derived from
  \<^verbatim>\<open>std::exception\<close>.\<close>

theorem terminate_all_stops_each:
  fixes c :: "('w, 's) service_class"
  assumes "\<And>s w. (case fst (doStop c s w) of Inr _ \<Rightarrow> True
                  | Inl (Thrown e) \<Rightarrow> ex_class e \<noteq> Foreign | Inl (Fault f) \<Rightarrow> False)"
  shows "terminate_services c (sm, w)
       = (Inr (), (\<lparr>m_services = []\<rparr>, fold (\<lambda>(t, s) w. snd (doStop c s w)) (m_services sm) w))"
proof -
  have body: "eff_catch_std (in_world (doStop c s)) (\<lambda>ex. Pair (Inr ())) (sm, w)
      = (Inr (), (sm, snd (doStop c s w)))" for s and sm :: "'s service_manager" and w
    using assms [of s w]
    by (auto simp: eff_catch_std_def in_world_def caught_as_std_iff split: prod.splits sum.splits failure.splits)
  have "eff_for svs (\<lambda>(t, service).
      eff_catch_std (in_world (service_stop c service)) (\<lambda>ex. Pair (Inr ()))) (sm, w)
    = (Inr (), (sm, fold (\<lambda>(t, s) w. snd (doStop c s w)) svs w))" for svs :: "(service_type \<times> 's) list" and w
    by (induction svs arbitrary: w) (auto simp: eff_then_def eff_bind_def body service_stop_def)
  then show ?thesis
    by (simp add: terminate_services_def eff_then_def eff_bind_def set_local_def)
qed

theorem terminate_all_stops_each_witness:
  "terminate_services (logging\<lparr>doStop := (\<lambda>s log. (Inl (Thrown (mk_exn IOException [])), log @ [StoppedService s]))\<rparr>)
     (\<lparr>m_services = [(1, 5), (2, 6)]\<rparr>, [])
   = (Inr (), (\<lparr>m_services = []\<rparr>, [StoppedService 5, StoppedService 6]))"
proof -
  let ?c = "logging\<lparr>doStop := (\<lambda>s log. (Inl (Thrown (mk_exn IOException [])), log @ [StoppedService s]))\<rparr>"
  have "case fst (doStop ?c s w) of Inr _ \<Rightarrow> True
      | Inl (Thrown e) \<Rightarrow> ex_class e \<noteq> Foreign | Inl (Fault f) \<Rightarrow> False" for s w
    by simp
  from terminate_all_stops_each [of ?c "\<lparr>m_services = [(1, 5), (2, 6)]\<rparr>" "[]", OF this] show ?thesis
    by simp
qed

end
