(* ===== verification/Transport_Model.thy ===== *)
theory Transport_Model
  imports Service_Model Message_Model
begin

text \<open>
  \<^verbatim>\<open>transport.hpp\<close>, \<^verbatim>\<open>transport_registry\<close>, \<^verbatim>\<open>transport_factory.hpp\<close> and the
  factory of TCP transports.  A transport class is what its virtual functions do; a
  transport object is a handle \<open>'t\<close> whose state lives in \<open>'w\<close>.
\<close>

subsection \<open>Transport\<close>

text \<open>A \<^verbatim>\<open>std::future<Message::Ptr>\<close> is known by the number of its shared state.\<close>

type_synonym future_message = nat

record ('w, 't) transport_class = "('w, 't) service_class" +
  doSend :: "'t \<Rightarrow> message option \<Rightarrow> ('w, unit) eff"
  doReceive :: "'t \<Rightarrow> ('w, message option option) eff"
  doRequest :: "'t \<Rightarrow> message option \<Rightarrow> ('w, future_message) eff"
  removeExpiredRequests :: "'t \<Rightarrow> ('w, unit) eff"
  get_m_session :: "'t \<Rightarrow> 'w \<Rightarrow> session_id option"
  put_m_session :: "'t \<Rightarrow> session_id \<Rightarrow> 'w \<Rightarrow> 'w"

definition transport_send :: "('w, 't) transport_class \<Rightarrow> 't \<Rightarrow> message option \<Rightarrow> ('w, unit) eff" where
  "transport_send c t msg = doSend c t msg"

definition transport_receive :: "('w, 't) transport_class \<Rightarrow> 't \<Rightarrow> ('w, message option option) eff" where
  "transport_receive c t = doReceive c t"

definition transport_request ::
  "('w, 't) transport_class \<Rightarrow> 't \<Rightarrow> message option \<Rightarrow> ('w, future_message) eff" where
  "transport_request c t msg = doRequest c t msg"

definition setOwner :: "('w, 't) transport_class \<Rightarrow> 't \<Rightarrow> session_id \<Rightarrow> ('w, unit) eff" where
  "setOwner c t sid = (\<lambda>w. (Inr (), put_m_session c t sid w))"

definition transport_owner :: "('w, 't) transport_class \<Rightarrow> 't \<Rightarrow> ('w, session_id) eff" where
  "transport_owner c t =
     (\<lambda>w. case get_m_session c t w of
        None \<Rightarrow> (Inl (Thrown (mk_exn NullPointerException
                  ''Attempt to dereference a null pointer [throwable=Session::owner]'')), w)
      | Some sid \<Rightarrow> (Inr sid, w))"

subsection \<open>Results and error codes\<close>

datatype ('v, 'e) result = Success 'v | Failure 'e

definition isSuccess :: "('v, 'e) result \<Rightarrow> bool" where
  "isSuccess r = (case r of Success v \<Rightarrow> True | Failure e \<Rightarrow> False)"

subsection \<open>TransportFactory and TransportRegistry\<close>

text \<open>
  A factory is an object with two functions; \<open>'u\<close> is the type of URLs.
  \<^verbatim>\<open>createTransport\<close> is \<^verbatim>\<open>noexcept\<close>.
\<close>

record ('w, 't, 'u) transport_factory =
  createTransport_body :: "'u \<Rightarrow> ('w, ('t, error_code) result) eff"
  tf_supports :: "string \<Rightarrow> bool"

definition createTransport ::
  "('w, 't, 'u) transport_factory \<Rightarrow> 'u \<Rightarrow> ('w, ('t, error_code) result) eff" where
  "createTransport f url = eff_noexcept (createTransport_body f url)"

type_synonym ('w, 't, 'u) transport_registry = "('w, 't, 'u) transport_factory option list"

definition registerFactory ::
  "('w, 't, 'u) transport_factory option \<Rightarrow> ('w, 't, 'u) transport_registry
     \<Rightarrow> ('w, 't, 'u) transport_registry" where
  "registerFactory factory registry = registry @ [factory]"

text \<open>\<open>make_unique\<close> constructs a factory of the program's.\<close>

definition registerFactory_make ::
  "('w, ('w, 't, 'u) transport_factory) eff \<Rightarrow> (('w, 't, 'u) transport_registry \<times> 'w, unit) eff" where
  "registerFactory_make make_unique =
     eff_bind (in_world make_unique) (\<lambda>factory. set_local (registerFactory (Some factory)))"

text \<open>
  The loop does not stop at the first match: \<open>maybe\<close> is assigned anew for every
  factory that supports the protocol.  A null factory is dereferenced.
\<close>

primrec getFactory_loop ::
  "string \<Rightarrow> ('w, 't, 'u) transport_registry \<Rightarrow> ('w, 't, 'u) transport_factory option
     \<Rightarrow> ('w, 't, 'u) transport_factory option outcome" where
  "getFactory_loop protocol [] maybe = Inr maybe"
| "getFactory_loop protocol (factory # fs) maybe =
     (case factory of
        None \<Rightarrow> Inl (Fault NullDereference)
      | Some f \<Rightarrow> getFactory_loop protocol fs (if tf_supports f protocol then Some f else maybe))"

definition getFactory ::
  "string \<Rightarrow> ('w, 't, 'u) transport_registry \<Rightarrow> ('w, 't, 'u) transport_factory option outcome" where
  "getFactory protocol registry = getFactory_loop protocol registry None"

lemma getFactory_loop:
  "getFactory_loop protocol (map Some fs) maybe =
     Inr (case filter (\<lambda>f. tf_supports f protocol) fs of [] \<Rightarrow> maybe | f # gs \<Rightarrow> Some (last (f # gs)))"
proof (induction fs arbitrary: maybe)
  case (Cons f fs)
  show ?case
    unfolding list.map getFactory_loop.simps option.case Cons.IH
    by (cases "filter (\<lambda>f. tf_supports f protocol) fs") auto
qed simp

subsection \<open>TcpTransportFactory\<close>

text \<open>
  Name resolution, the socket and the construction of the transport belong to the
  operating system and Boost.Asio: \<open>resolve\<close> gives an endpoint or the value of an
  error code, \<open>connect\<close> a connected transport or such a value.
\<close>

definition tcp_createTransport ::
  "(string \<Rightarrow> nat \<Rightarrow> ('w, 'ep + int) eff) \<Rightarrow> ('ep \<Rightarrow> ('w, 't + int) eff)
     \<Rightarrow> string \<Rightarrow> nat \<Rightarrow> ('w, ('t, error_code) result) eff" where
  "tcp_createTransport resolve connect hostname port =
     eff_bind (resolve hostname port) (\<lambda>r. case r of
         Inr ec \<Rightarrow> eff_return (Failure \<lparr>ec_value = ec, ec_category = SystemCategory\<rparr>)
       | Inl endpoint \<Rightarrow> eff_bind (connect endpoint) (\<lambda>s. case s of
             Inr ec \<Rightarrow> eff_return (Failure \<lparr>ec_value = ec, ec_category = SystemCategory\<rparr>)
           | Inl transport \<Rightarrow> eff_return (Success transport)))"

definition tcp_supports :: "string \<Rightarrow> bool" where
  "tcp_supports protocol \<longleftrightarrow> protocol = ''tcp''"

subsection \<open>Properties\<close>

text \<open>Factory lookup: of the registered factories that support a protocol the one registered last
  is found; \<^verbatim>\<open>none\<close> is the answer exactly when there is none.\<close>

theorem last_factory_wins:
  "getFactory protocol (map Some fs) =
     Inr (if \<exists>f \<in> set fs. tf_supports f protocol
          then Some (last (filter (\<lambda>f. tf_supports f protocol) fs)) else None)"
proof (cases "filter (\<lambda>f. tf_supports f protocol) fs")
  case Nil
  then show ?thesis
    by (simp add: getFactory_def getFactory_loop filter_empty_conv)
next
  case (Cons g gs)
  then have "\<exists>f \<in> set fs. tf_supports f protocol"
    by (metis filter_empty_conv list.distinct(1))
  with Cons show ?thesis
    by (simp add: getFactory_def getFactory_loop)
qed

end
