(* ===== verification/Session_Model.thy ===== *)
theory Session_Model
  imports Transport_Model
begin

text \<open>
  \<^verbatim>\<open>src/session/\<close>: \<^verbatim>\<open>Session\<close>, \<^verbatim>\<open>SessionFactory\<close> and \<^verbatim>\<open>SessionManager\<close>.  All
  manager operations run under its mutex, one after the other; the callbacks run
  under it too and so cannot call the manager.  Callbacks get a reference to a
  session pointer and are taken not to assign it.
\<close>

subsection \<open>Session\<close>

record 't session =
  session_m_id :: session_id
  session_m_transport :: 't

type_synonym 't session_ptr = "'t session option"

text \<open>The constructor: \<^verbatim>\<open>m_transport->setOwner(*this); m_transport->start();\<close>\<close>

definition session_createNew ::
  "('w, 't) transport_class \<Rightarrow> session_id \<Rightarrow> 't option \<Rightarrow> ('w, 't session) eff" where
  "session_createNew c sid transport =
     (case transport of
        None \<Rightarrow> eff_fail (Fault NullDereference)
      | Some t \<Rightarrow>
          eff_then (setOwner c t sid)
            (eff_then (doStart c t)
              (eff_return \<lparr>session_m_id = sid, session_m_transport = t\<rparr>)))"

definition session_send :: "('w, 't) transport_class \<Rightarrow> 't session \<Rightarrow> message option \<Rightarrow> ('w, unit) eff" where
  "session_send c s msg = transport_send c (session_m_transport s) msg"

definition session_receive :: "('w, 't) transport_class \<Rightarrow> 't session \<Rightarrow> ('w, message option option) eff" where
  "session_receive c s = transport_receive c (session_m_transport s)"

definition session_request ::
  "('w, 't) transport_class \<Rightarrow> 't session \<Rightarrow> message option \<Rightarrow> ('w, future_message) eff" where
  "session_request c s msg = transport_request c (session_m_transport s) msg"

definition session_shutdown :: "('w, 't) transport_class \<Rightarrow> 't session \<Rightarrow> ('w, unit) eff" where
  "session_shutdown c s = doStop c (session_m_transport s)"

definition session_get_id :: "'t session \<Rightarrow> session_id" where
  "session_get_id s = session_m_id s"

definition session_transport :: "'t session \<Rightarrow> 't" where
  "session_transport s = session_m_transport s"

definition session_active :: "('w, 't) transport_class \<Rightarrow> 't session \<Rightarrow> 'w \<Rightarrow> bool" where
  "session_active c s w \<longleftrightarrow>
     service_m_state c (session_m_transport s) w = StartPending
     \<or> service_m_state c (session_m_transport s) w = Started"

subsection \<open>SessionFactory and SessionManager\<close>

text \<open>
  The state of a manager: the counter of its factory and the sessions by
  identifier, in the iteration order of the map.  An entry is a shared pointer,
  \<open>None\<close> when it was moved from.
\<close>

record 't session_manager =
  m_session_id :: session_id
  m_sessions :: "(session_id \<times> 't session_ptr) list"

record ('w, 't) session_callbacks =
  onSessionTerminating :: "('t session_ptr \<Rightarrow> ('w, unit) eff) option"
  onSessionTerminated :: "('t session_ptr \<Rightarrow> ('w, unit) eff) option"
  onSessionOpened :: "('t session_ptr \<Rightarrow> ('w, unit) eff) option"

definition session_manager_new :: "'t session_manager" where
  "session_manager_new = \<lparr>m_session_id = 0, m_sessions = []\<rparr>"

definition session_callbacks_new :: "('w, 't) session_callbacks" where
  "session_callbacks_new =
     \<lparr>onSessionTerminating = Some (\<lambda>s. eff_return ()),
      onSessionTerminated = Some (\<lambda>s. eff_return ()), onSessionOpened = None\<rparr>"

definition session_generateId :: "('t session_manager \<times> 'w, session_id) eff" where
  "session_generateId =
     eff_then (set_local (\<lambda>sm. sm\<lparr>m_session_id := m_session_id sm + 1\<rparr>))
       (eff_bind get_local (\<lambda>sm. eff_return (m_session_id sm)))"

definition factory_createSession ::
  "('w, 't) transport_class \<Rightarrow> 't option \<Rightarrow> ('t session_manager \<times> 'w, 't session) eff" where
  "factory_createSession c transport =
     eff_bind session_generateId (\<lambda>sid. in_world (session_createNew c sid transport))"

text \<open>\<^verbatim>\<open>ptr->shared_from_this()\<close>, and \<^verbatim>\<open>*ptr\<close> in general\<close>

definition deref :: "'a option \<Rightarrow> ('w, 'a) eff" where
  "deref p = (case p of None \<Rightarrow> eff_fail (Fault NullDereference) | Some s \<Rightarrow> eff_return s)"

text \<open>
  An identifier that is already there keeps its entry, and that entry is the one
  announced and returned.
\<close>

definition createSession ::
  "('w, 't) transport_class \<Rightarrow> ('w, 't) session_callbacks \<Rightarrow> 't option
     \<Rightarrow> ('t session_manager \<times> 'w, 't session) eff" where
  "createSession c cb transport =
     eff_bind (factory_createSession c transport) (\<lambda>session.
       let sid = session_m_id session in
       eff_then (set_local (\<lambda>sm. sm\<lparr>m_sessions := al_insert sid (Some session) (m_sessions sm)\<rparr>))
         (eff_bind get_local (\<lambda>sm.
            case map_of (m_sessions sm) sid of
              None \<Rightarrow> eff_fail (Fault DanglingReference)
            | Some entry \<Rightarrow>
                eff_then (in_world (call_if_set (onSessionOpened cb) entry)) (deref entry))))"

definition hasSession :: "session_id \<Rightarrow> 't session_manager \<Rightarrow> bool" where
  "hasSession sid sm \<longleftrightarrow> al_contains (m_sessions sm) sid"

text \<open>
  The pointer is moved out of the map before anything that can throw; a handler
  for \<^verbatim>\<open>std::exception\<close> around the rest ends quietly.
\<close>

definition terminateSessionNoLock ::
  "('w, 't) transport_class \<Rightarrow> ('w, 't) session_callbacks \<Rightarrow> session_id
     \<Rightarrow> ('t session_manager \<times> 'w, unit) eff" where
  "terminateSessionNoLock c cb sid =
     eff_bind get_local (\<lambda>sm.
       case map_of (m_sessions sm) sid of
         None \<Rightarrow> eff_return ()
       | Some session \<Rightarrow>
           eff_then (set_local (\<lambda>sm. sm\<lparr>m_sessions := AList.update sid None (m_sessions sm)\<rparr>))
             (eff_catch_std
                (eff_then (in_world (call_if_set (onSessionTerminating cb) session))
                  (eff_bind (deref session) (\<lambda>s.
                    eff_then (in_world (session_shutdown c s))
                      (eff_then (set_local (\<lambda>sm. sm\<lparr>m_sessions := AList.delete sid (m_sessions sm)\<rparr>))
                        (in_world (call_if_set (onSessionTerminated cb) session))))))
                (\<lambda>ex. eff_return ())))"

definition terminate_session ::
  "('w, 't) transport_class \<Rightarrow> ('w, 't) session_callbacks \<Rightarrow> session_id
     \<Rightarrow> ('t session_manager \<times> 'w, unit) eff" where
  "terminate_session c cb sid = terminateSessionNoLock c cb sid"

text \<open>\<^verbatim>\<open>for (const auto& [_, session] : m_sessions) ids.push_back(session->id());\<close>\<close>

primrec session_ids :: "(session_id \<times> 't session_ptr) list \<Rightarrow> session_id list outcome" where
  "session_ids [] = Inr []"
| "session_ids (e # es) =
     (case snd e of
        None \<Rightarrow> Inl (Fault NullDereference)
      | Some s \<Rightarrow> bind_outcome (session_ids es) (\<lambda>ids. Inr (session_m_id s # ids)))"

definition terminateAll ::
  "('w, 't) transport_class \<Rightarrow> ('w, 't) session_callbacks \<Rightarrow> ('t session_manager \<times> 'w, unit) eff" where
  "terminateAll c cb =
     eff_bind get_local (\<lambda>sm.
       eff_bind (eff_lift (session_ids (m_sessions sm))) (\<lambda>ids.
         eff_for ids (terminateSessionNoLock c cb)))"

definition session_forEach ::
  "('t session_ptr \<Rightarrow> ('w, unit) eff) option \<Rightarrow> ('t session_manager \<times> 'w, unit) eff" where
  "session_forEach action =
     eff_bind get_local (\<lambda>sm.
       eff_catch_std
         (eff_for (m_sessions sm) (\<lambda>e. in_world (call_function action (snd e))))
         (\<lambda>ex. eff_return ()))"

text \<open>\<^verbatim>\<open>std::find_if\<close> calls the predicate until it holds.\<close>

primrec find_entry ::
  "('t session_ptr \<Rightarrow> ('w, bool) eff) \<Rightarrow> (session_id \<times> 't session_ptr) list
     \<Rightarrow> ('w, 't session_ptr option) eff" where
  "find_entry predicate [] = eff_return None"
| "find_entry predicate (e # es) =
     eff_bind (predicate (snd e)) (\<lambda>b. if b then eff_return (Some (snd e)) else find_entry predicate es)"

definition session_find ::
  "('t session_ptr \<Rightarrow> ('w, bool) eff) option \<Rightarrow> ('t session_manager \<times> 'w, 't session_ptr) eff" where
  "session_find predicate =
     eff_bind get_local (\<lambda>sm.
       eff_bind (in_world (find_entry (call_function predicate) (m_sessions sm))) (\<lambda>r.
         case r of None \<Rightarrow> eff_return None
         | Some entry \<Rightarrow> eff_bind (deref entry) (\<lambda>s. eff_return (Some s))))"

text \<open>
  \<open>property_is key val\<close> stands for \<^verbatim>\<open>session->properties[key] == val\<close> on a session
  object.
\<close>

definition findSessionByProperty ::
  "('t session \<Rightarrow> ('w, bool) eff) \<Rightarrow> ('t session_manager \<times> 'w, 't session_ptr) eff" where
  "findSessionByProperty property_is =
     session_find (Some (\<lambda>session. eff_bind (deref session) property_is))"

subsection \<open>Invariant\<close>

text \<open>
  Keys are distinct, every session is filed under its own identifier, and no
  identifier is above the counter.  \<open>no_null_entry\<close> is the property the code
  relies on when it dereferences the entries.
\<close>

definition sm_inv :: "'t session_manager \<Rightarrow> bool" where
  "sm_inv sm \<longleftrightarrow> distinct (map fst (m_sessions sm))
     \<and> (\<forall>(sid, entry) \<in> set (m_sessions sm). pred_option (\<lambda>s. session_m_id s = sid) entry)"

definition no_null_entry :: "'t session_manager \<Rightarrow> bool" where
  "no_null_entry sm \<longleftrightarrow> (\<forall>entry \<in> snd ` set (m_sessions sm). entry \<noteq> None)"

lemma sm_inv_new [simp]: "sm_inv session_manager_new" "no_null_entry session_manager_new"
  by (simp_all add: sm_inv_def no_null_entry_def session_manager_new_def)

lemma distinct_keys_update [simp]:
  "distinct (map fst al) \<Longrightarrow> distinct (map fst (AList.update k v al))"
  by (rule distinct_update)

lemma sm_inv_insert:
  "sm_inv sm \<Longrightarrow> session_m_id s = sid \<Longrightarrow>
   sm_inv (sm\<lparr>m_sessions := al_insert sid (Some s) (m_sessions sm)\<rparr>)"
  by (auto simp: sm_inv_def al_insert_def map_of_eq_None_iff)

lemma sm_inv_update_None:
  "sm_inv sm \<Longrightarrow> sm_inv (sm\<lparr>m_sessions := AList.update sid None (m_sessions sm)\<rparr>)"
  using set_update_subset [of sid None "m_sessions sm"] by (fastforce simp: sm_inv_def)

lemma sm_inv_delete:
  "sm_inv sm \<Longrightarrow> sm_inv (sm\<lparr>m_sessions := AList.delete sid (m_sessions sm)\<rparr>)"
  using set_delete_subset [of sid "m_sessions sm"] by (fastforce simp: sm_inv_def)

lemma sm_inv_count [simp]: "sm_inv (sm\<lparr>m_session_id := n\<rparr>) = sm_inv sm"
  by (simp add: sm_inv_def)

lemma keeps_case_option:
  "keeps P n \<Longrightarrow> (\<And>x. keeps P (f x)) \<Longrightarrow> keeps P (case p of None \<Rightarrow> n | Some x \<Rightarrow> f x)"
  by (cases p) auto

lemma keeps_deref: "keeps P (deref p)"
  by (cases p) (auto simp: deref_def keeps_pure)

lemma keeps_terminateSessionNoLock:
  "keeps (\<lambda>(sm, w). sm_inv sm) (terminateSessionNoLock c cb sid)"
  unfolding terminateSessionNoLock_def eff_simps
  by (intro keeps_bind keeps_then keeps_get_local keeps_case_option keeps_catch_std keeps_pure
      keeps_in_world keeps_deref keeps_set_local sm_inv_update_None sm_inv_delete)

lemma keeps_terminateAll: "keeps (\<lambda>(sm, w). sm_inv sm) (terminateAll c cb)"
  unfolding terminateAll_def eff_simps
  by (intro keeps_bind keeps_get_local keeps_pure keeps_for keeps_terminateSessionNoLock)

lemma keeps_session_forEach: "keeps (\<lambda>(sm, w). sm_inv sm) (session_forEach action)"
  unfolding session_forEach_def eff_simps
  by (intro keeps_bind keeps_get_local keeps_pure keeps_for keeps_catch_std keeps_in_world)

lemma createNew_id:
  "session_createNew c sid transport w = (Inr s, w') \<Longrightarrow> session_m_id s = sid"
  by (auto simp: session_createNew_def eff_then_def eff_bind_def
      split: option.splits prod.splits sum.splits)

lemma sm_inv_createSession:
  assumes "sm_inv sm"
  shows "sm_inv (fst (snd (createSession c cb transport (sm, w))))"
proof -
  let ?sm = "sm\<lparr>m_session_id := m_session_id sm + 1\<rparr>"
  have gen: "factory_createSession c transport (sm, w)
      = in_world (session_createNew c (m_session_id sm + 1) transport) (?sm, w)"
    by (simp add: factory_createSession_def session_generateId_def eff_bind_def eff_then_def)
  obtain r w' where r: "session_createNew c (m_session_id sm + 1) transport w = (r, w')"
    by fastforce
  show ?thesis
  proof (cases r)
    case (Inl e)
    with assms show ?thesis
      by (simp add: createSession_def eff_bind_def gen in_world_def r)
  next
    case (Inr s)
    have "sm_inv (?sm\<lparr>m_sessions := al_insert (session_m_id s) (Some s) (m_sessions sm)\<rparr>)"
      using sm_inv_insert [of ?sm s] assms by simp
    then show ?thesis
      using Inr by (auto simp: createSession_def eff_bind_def eff_then_def gen in_world_def r Let_def
          deref_def split: option.splits prod.splits sum.splits)
  qed
qed

subsection \<open>Reachable states\<close>

text \<open>
  Requests in any order, and between them whatever the rest of the program does to
  its own state.
\<close>

inductive sm_reachable ::
  "('w, 't) transport_class \<Rightarrow> ('w, 't) session_callbacks \<Rightarrow> 't session_manager \<Rightarrow> 'w \<Rightarrow> bool"
  for c cb where
  start: "sm_reachable c cb session_manager_new w"
| environment: "sm_reachable c cb sm w \<Longrightarrow> sm_reachable c cb sm w'"
| create: "sm_reachable c cb sm w \<Longrightarrow> createSession c cb transport (sm, w) = (r, (sm', w'))
    \<Longrightarrow> sm_reachable c cb sm' w'"
| terminate: "sm_reachable c cb sm w \<Longrightarrow> terminate_session c cb sid (sm, w) = (r, (sm', w'))
    \<Longrightarrow> sm_reachable c cb sm' w'"
| terminate_all: "sm_reachable c cb sm w \<Longrightarrow> terminateAll c cb (sm, w) = (r, (sm', w'))
    \<Longrightarrow> sm_reachable c cb sm' w'"
| for_each: "sm_reachable c cb sm w \<Longrightarrow> session_forEach action (sm, w) = (r, (sm', w'))
    \<Longrightarrow> sm_reachable c cb sm' w'"

lemma sm_reachable_inv: "sm_reachable c cb sm w \<Longrightarrow> sm_inv sm"
proof (induction rule: sm_reachable.induct)
  case (create sm w transport r sm' w')
  then show ?case
    using sm_inv_createSession [of sm c cb transport w] by simp
next
  case (terminate sm w sid r sm' w')
  then show ?case
    using keepsD [OF keeps_terminateSessionNoLock, of "(sm, w)" c cb sid]
    by (simp add: terminate_session_def)
next
  case (terminate_all sm w r sm' w')
  then show ?case
    using keepsD [OF keeps_terminateAll, of "(sm, w)" c cb] by simp
next
  case (for_each sm w action r sm' w')
  then show ?case
    using keepsD [OF keeps_session_forEach, of "(sm, w)" action] by simp
qed simp_all

text \<open>Callbacks and transports that end a session without an exception.\<close>

definition ends_quietly :: "('w, 't) transport_class \<Rightarrow> ('w, 't) session_callbacks \<Rightarrow> bool" where
  "ends_quietly c cb \<longleftrightarrow>
     (\<forall>p w. fst (call_if_set (onSessionTerminating cb) p w) = Inr ())
     \<and> (\<forall>t w. fst (doStop c t w) = Inr ())
     \<and> (\<forall>p w. fst (call_if_set (onSessionTerminated cb) p w) = Inr ())"

definition closing :: "('w, 't) transport_class \<Rightarrow> ('w, 't) session_callbacks \<Rightarrow> 't session \<Rightarrow> 'w \<Rightarrow> 'w" where
  "closing c cb s w =
     (let w1 = snd (call_if_set (onSessionTerminating cb) (Some s) w);
          w2 = snd (doStop c (session_m_transport s) w1)
      in snd (call_if_set (onSessionTerminated cb) (Some s) w2))"

lemma delete_update_None: "AList.delete k (AList.update k v al) = AList.delete k al"
  by (induction al) (auto simp: delete_id)

lemma terminate_quiet:
  assumes "ends_quietly c cb" and "map_of (m_sessions sm) sid = Some (Some s)"
  shows "terminateSessionNoLock c cb sid (sm, w)
       = (Inr (), (sm\<lparr>m_sessions := AList.delete sid (m_sessions sm)\<rparr>, closing c cb s w))"
proof -
  have q: "fst (call_if_set (onSessionTerminating cb) (Some s) v) = Inr ()"
    "fst (doStop c t v) = Inr ()" "fst (call_if_set (onSessionTerminated cb) (Some s) v) = Inr ()" for t v
    using assms(1) by (simp_all add: ends_quietly_def)
  then show ?thesis
    by (simp add: terminateSessionNoLock_def assms(2) catch_std_cases(1) then_in_world
        deref_def session_shutdown_def delete_update_None closing_def Let_def)
qed

lemma session_ids_ok:
  "sm_inv sm \<Longrightarrow> no_null_entry sm \<Longrightarrow> session_ids (m_sessions sm) = Inr (map fst (m_sessions sm))"
proof -
  have "session_ids es = Inr (map fst es)"
    if "\<forall>(sid, entry) \<in> set es. pred_option (\<lambda>s. session_m_id s = sid) entry"
      and "\<forall>entry \<in> snd ` set es. entry \<noteq> None" for es :: "(session_id \<times> 't session_ptr) list"
    using that by (induction es) auto
  then show "sm_inv sm \<Longrightarrow> no_null_entry sm \<Longrightarrow> session_ids (m_sessions sm) = Inr (map fst (m_sessions sm))"
    by (auto simp: sm_inv_def no_null_entry_def)
qed

lemma session_ids_null:
  "(sid, None) \<in> set es \<Longrightarrow> session_ids es = Inl (Fault NullDereference)"
  by (induction es) (auto split: option.split)

lemma terminateAll_quiet:
  assumes "ends_quietly c cb" and "sm_inv sm" and "no_null_entry sm"
  shows "terminateAll c cb (sm, w)
     = (Inr (), (sm\<lparr>m_sessions := []\<rparr>, fold (\<lambda>(sid, s) w. closing c cb (the s) w) (m_sessions sm) w))"
proof -
  have "eff_for (map fst es) (terminateSessionNoLock c cb) (sm\<lparr>m_sessions := es\<rparr>, w)
      = (Inr (), (sm\<lparr>m_sessions := []\<rparr>, fold (\<lambda>(sid, s) w. closing c cb (the s) w) es w))"
    if "distinct (map fst es)" and "\<forall>entry \<in> snd ` set es. entry \<noteq> None" for es w
    using that
  proof (induction es arbitrary: w)
    case (Cons e es)
    obtain sid s where e: "e = (sid, Some s)"
      using Cons.prems(2) by (cases e) auto
    have "AList.delete sid es = es"
      using Cons.prems(1) e by (simp add: delete_id)
    then have "terminateSessionNoLock c cb sid (sm\<lparr>m_sessions := e # es\<rparr>, w)
        = (Inr (), (sm\<lparr>m_sessions := es\<rparr>, closing c cb s w))"
      using terminate_quiet [OF assms(1), of "sm\<lparr>m_sessions := e # es\<rparr>" sid s w] by (simp add: e)
    then show ?case
      using Cons e by (simp add: eff_then_cases(2))
  qed simp
  from this [of "m_sessions sm" w] assms show ?thesis
    by (simp add: terminateAll_def session_ids_ok) (simp add: sm_inv_def no_null_entry_def)
qed

lemma no_null_delete:
  "no_null_entry sm \<Longrightarrow> no_null_entry (sm\<lparr>m_sessions := AList.delete sid (m_sessions sm)\<rparr>)"
  using set_delete_subset [of sid "m_sessions sm"] by (fastforce simp: no_null_entry_def)

lemma no_null_terminate:
  assumes "ends_quietly c cb" and "no_null_entry sm"
    and "terminateSessionNoLock c cb sid (sm, w) = (r, (sm', w'))"
  shows "no_null_entry sm'"
proof (cases "map_of (m_sessions sm) sid")
  case None
  with assms show ?thesis by (simp add: terminateSessionNoLock_def)
next
  case (Some entry)
  then obtain s where "entry = Some s"
    using assms(2) by (force simp: no_null_entry_def dest: map_of_SomeD)
  with terminate_quiet [OF assms(1), of sm sid s w] Some assms show ?thesis
    by (auto intro: no_null_delete)
qed

lemma no_null_createSession:
  assumes "no_null_entry sm"
  shows "no_null_entry (fst (snd (createSession c cb transport (sm, w))))"
proof -
  let ?sm = "sm\<lparr>m_session_id := m_session_id sm + 1\<rparr>"
  have gen: "factory_createSession c transport (sm, w)
      = in_world (session_createNew c (m_session_id sm + 1) transport) (?sm, w)"
    by (simp add: factory_createSession_def session_generateId_def eff_bind_def eff_then_def)
  obtain r w' where r: "session_createNew c (m_session_id sm + 1) transport w = (r, w')"
    by fastforce
  have "no_null_entry (sm\<lparr>m_session_id := n, m_sessions := al_insert sid (Some s) (m_sessions sm)\<rparr>)" for n sid s
    using assms by (auto simp: no_null_entry_def al_insert_def)
  moreover have "no_null_entry ?sm"
    using assms by (simp add: no_null_entry_def)
  ultimately show ?thesis
    by (cases r) (auto simp: createSession_def eff_bind_def eff_then_def gen in_world_def r Let_def
          deref_def split: option.splits prod.splits sum.splits)
qed

lemma forEach_same: "session_forEach action (sm, w) = (r, (sm', w')) \<Longrightarrow> sm' = sm"
proof -
  have "keeps (\<lambda>(sm', w). sm' = sm) (session_forEach action)"
    unfolding session_forEach_def eff_simps
    by (intro keeps_bind keeps_get_local keeps_pure keeps_for keeps_catch_std keeps_in_world)
  from keepsD [OF this, of "(sm, w)"]
  show "session_forEach action (sm, w) = (r, (sm', w')) \<Longrightarrow> sm' = sm" by simp
qed

lemma sm_reachable_no_null:
  "sm_reachable c cb sm w \<Longrightarrow> ends_quietly c cb \<Longrightarrow> no_null_entry sm"
proof (induction rule: sm_reachable.induct)
  case (create sm w transport r sm' w')
  then show ?case using no_null_createSession [of sm c cb transport w] by simp
next
  case (terminate sm w sid r sm' w')
  then show ?case using no_null_terminate [of c cb sm sid w r sm' w'] by (simp add: terminate_session_def)
next
  case (terminate_all sm w r sm' w')
  then show ?case
    using terminateAll_quiet [of c cb sm w] sm_reachable_inv [of c cb sm w]
    by (auto simp: no_null_entry_def)
next
  case (for_each sm w action r sm' w')
  with forEach_same [OF for_each.hyps(2)] show ?case by simp
qed simp_all

subsection \<open>An example\<close>

text \<open>
  The transport of the tests, \<^verbatim>\<open>FakeTransport\<close>, with a world that counts stops; and one
  that throws when it is stopped.
\<close>

definition fake_transport :: "(nat, nat) transport_class" where
  "fake_transport =
     \<lparr>doStart = (\<lambda>t w. (Inr (), w)), doInit = (\<lambda>t w. (Inr (), w)), doStop = (\<lambda>t w. (Inr (), Suc w)),
      service_m_state = (\<lambda>t w. Started),
      doSend = (\<lambda>t m w. (Inr (), w)), doReceive = (\<lambda>t w. (Inr None, w)),
      doRequest = (\<lambda>t m w. (Inr 0, w)), removeExpiredRequests = (\<lambda>t w. (Inr (), w)),
      get_m_session = (\<lambda>t w. None), put_m_session = (\<lambda>t sid w. w)\<rparr>"

definition failing_transport :: "(nat, nat) transport_class" where
  "failing_transport = fake_transport\<lparr>doStop := (\<lambda>t w. (Inl (Thrown (mk_exn IOException [])), Suc w))\<rparr>"

lemma fake_ends_quietly: "ends_quietly fake_transport session_callbacks_new"
  by (simp add: ends_quietly_def session_callbacks_new_def fake_transport_def call_if_set_def)

definition demo_sessions :: "nat session_manager" where
  "demo_sessions =
     \<lparr>m_session_id = 1, m_sessions = [(1, Some \<lparr>session_m_id = 1, session_m_transport = 4\<rparr>)]\<rparr>"

lemma demo_sessions_created:
  "createSession fake_transport session_callbacks_new (Some 4) (session_manager_new, 0)
     = (Inr \<lparr>session_m_id = 1, session_m_transport = 4\<rparr>, (demo_sessions, 0))"
  by (simp add: createSession_def factory_createSession_def session_generateId_def session_createNew_def
      setOwner_def fake_transport_def session_manager_new_def session_callbacks_new_def demo_sessions_def
      eff_bind_def eff_then_def in_world_def al_insert_def call_if_set_def deref_def set_local_def Let_def)

subsection \<open>Properties\<close>

text \<open>C11: Whatever the requests, callbacks and transports do, the manager keeps its sessions under
  distinct identifiers, each under its own; and when ending a session never throws, every
  entry holds a session, \<^verbatim>\<open>terminateAll\<close> returns normally, ends each session once in the
  order \<^verbatim>\<open>onSessionTerminating\<close>, \<^verbatim>\<open>stop\<close>, \<^verbatim>\<open>onSessionTerminated\<close>, and leaves no session.\<close>

theorem sessions_invariant:
  assumes "sm_reachable c cb sm w"
  shows "sm_inv sm
    \<and> (ends_quietly c cb \<longrightarrow> no_null_entry sm
        \<and> terminateAll c cb (sm, w)
          = (Inr (), (sm\<lparr>m_sessions := []\<rparr>,
               fold (\<lambda>(sid, s) w. closing c cb (the s) w) (m_sessions sm) w)))"
  using sm_reachable_inv [OF assms] sm_reachable_no_null [OF assms] terminateAll_quiet [of c cb sm w]
  by blast

theorem sessions_invariant_witness:
  "terminateAll fake_transport session_callbacks_new (demo_sessions, 0)
     = (Inr (), (demo_sessions\<lparr>m_sessions := []\<rparr>, 1))"
proof -
  have "sm_reachable fake_transport session_callbacks_new demo_sessions 0"
    by (rule sm_reachable.create [OF sm_reachable.start demo_sessions_created])
  from sessions_invariant [OF this] fake_ends_quietly show ?thesis
    by (simp add: demo_sessions_def closing_def Let_def fake_transport_def session_callbacks_new_def
        call_if_set_def)
qed

text \<open>Terminating a session calls \<^verbatim>\<open>onSessionTerminating\<close>, stops the transport, removes exactly that
  session and then calls \<^verbatim>\<open>onSessionTerminated\<close>; an unknown identifier is ignored.\<close>

theorem terminate_session_effect:
  assumes "ends_quietly c cb" and "no_null_entry sm"
  shows "\<exists>w'. terminate_session c cb sid (sm, w)
        = (Inr (), (sm\<lparr>m_sessions := AList.delete sid (m_sessions sm)\<rparr>, w'))
      \<and> w' = (case map_of (m_sessions sm) sid of None \<Rightarrow> w | Some s \<Rightarrow> closing c cb (the s) w)
      \<and> (\<forall>k. hasSession k (sm\<lparr>m_sessions := AList.delete sid (m_sessions sm)\<rparr>)
             = (k \<noteq> sid \<and> hasSession k sm))"
proof (cases "map_of (m_sessions sm) sid")
  case None
  then have "AList.delete sid (m_sessions sm) = m_sessions sm"
    by (simp add: delete_id map_of_eq_None_iff)
  with None show ?thesis
    by (auto simp: terminate_session_def terminateSessionNoLock_def hasSession_def al_contains_def)
next
  case (Some entry)
  then obtain s where "entry = Some s"
    using assms(2) by (force simp: no_null_entry_def dest: map_of_SomeD)
  with terminate_quiet [OF assms(1), of sm sid s w] Some show ?thesis
    by (simp add: terminate_session_def hasSession_def)
qed

theorem terminate_session_effect_witness:
  "terminate_session fake_transport session_callbacks_new 1 (demo_sessions, 0)
     = (Inr (), (demo_sessions\<lparr>m_sessions := []\<rparr>, 1))"
proof -
  have "no_null_entry demo_sessions"
    by (simp add: demo_sessions_def no_null_entry_def)
  from terminate_session_effect [OF fake_ends_quietly this, of 1 0] show ?thesis
    by (simp add: demo_sessions_def closing_def Let_def fake_transport_def session_callbacks_new_def
        call_if_set_def)
qed

text \<open>A session whose transport throws while stopping is lost but not forgotten: \<^verbatim>\<open>terminate\<close>
  reports nothing, its entry stays as a null pointer, \<^verbatim>\<open>hasSession\<close> still answers true, and
  the next \<^verbatim>\<open>terminateAll\<close> dereferences the null pointer.\<close>

theorem failed_termination_leaves_null_entry:
  assumes "map_of (m_sessions sm) sid = Some (Some s)"
    and "call_if_set (onSessionTerminating cb) (Some s) w = (Inr (), w1)"
    and "doStop c (session_m_transport s) w1 = (Inl (Thrown e), w2)" and "ex_class e \<noteq> Foreign"
  shows "\<exists>sm'. terminate_session c cb sid (sm, w) = (Inr (), (sm', w2))
      \<and> map_of (m_sessions sm') sid = Some None \<and> hasSession sid sm'
      \<and> terminateAll c cb (sm', w') = (Inl (Fault NullDereference), (sm', w'))"
proof -
  let ?sm = "sm\<lparr>m_sessions := AList.update sid None (m_sessions sm)\<rparr>"
  have "terminate_session c cb sid (sm, w) = (Inr (), (?sm, w2))"
    using assms(4)
    by (simp add: terminate_session_def terminateSessionNoLock_def assms(1-3) eff_catch_std_def
        then_in_world(1) then_in_world(2) [where e = "Thrown e"] deref_def session_shutdown_def
        caught_as_std_iff)
  moreover have "map_of (m_sessions ?sm) sid = Some None"
    by (simp add: update_conv')
  moreover from this have "(sid, None) \<in> set (m_sessions ?sm)"
    by (rule map_of_SomeD)
  then have "terminateAll c cb (?sm, w') = (Inl (Fault NullDereference), (?sm, w'))"
    by (simp add: terminateAll_def session_ids_null)
  ultimately show ?thesis
    by (auto simp: hasSession_def al_contains_def)
qed

theorem failed_termination_leaves_null_entry_witness:
  "\<exists>sm'. terminate_session failing_transport session_callbacks_new 1 (demo_sessions, 0) = (Inr (), (sm', 1))
     \<and> hasSession 1 sm'
     \<and> terminateAll failing_transport session_callbacks_new (sm', 1)
       = (Inl (Fault NullDereference), (sm', 1))"
proof -
  have "map_of (m_sessions demo_sessions) 1 = Some (Some \<lparr>session_m_id = 1, session_m_transport = 4\<rparr>)"
    "call_if_set (onSessionTerminating session_callbacks_new)
       (Some \<lparr>session_m_id = 1, session_m_transport = (4::nat)\<rparr>) (0::nat) = (Inr (), 0)"
    "doStop failing_transport (session_m_transport \<lparr>session_m_id = 1, session_m_transport = 4\<rparr>) 0
       = (Inl (Thrown (mk_exn IOException [])), 1)"
    by (simp_all add: demo_sessions_def session_callbacks_new_def call_if_set_def failing_transport_def)
  from failed_termination_leaves_null_entry [OF this] show ?thesis by auto
qed

end
