(* ===== verification/PubSub_Channel.thy ===== *)
theory PubSub_Channel
  imports Session_Model
begin

text \<open>
  \<^verbatim>\<open>channels/subscribable_channel.hpp\<close> and \<^verbatim>\<open>channels/pubsub_message_channel\<close>.  All
  operations run under the channel's mutex.  The state next to the channel is the
  counter of message identifiers, which cloning a message advances, and the rest of
  the program \<open>'w\<close>.
\<close>

datatype subscribe_result = SubscribeDone | AlreadySubscribed

datatype unsubscribe_result = UnsubscribeDone | UnsubscribeNotFound

datatype reason_for_leaving =
    UnknownReason | SubscriberTransportHasBeenStopped | SubscriberLeftChannelOnHisOwn

text \<open>
  The handler of unsubscriptions gets a reference to the subscriber's pointer; what
  matters is whether it reads it.
\<close>

datatype ('w, 't) unsubscribe_handler =
    IgnoresSubscriber "reason_for_leaving \<Rightarrow> ('w, unit) eff"
  | ReadsSubscriber "'t session_ptr \<Rightarrow> reason_for_leaving \<Rightarrow> ('w, unit) eff"

record ('w, 't) pubsub_channel =
  m_subscribers :: "(session_id \<times> 't session_ptr) list"
  onUnsubscribed :: "('w, 't) unsubscribe_handler option"

type_synonym ('w, 't) channel_state = "('w, 't) pubsub_channel \<times> (message_id \<times> 'w)"

definition pubsub_new :: "('w, 't) pubsub_channel" where
  "pubsub_new =
     \<lparr>m_subscribers = [], onUnsubscribed = Some (IgnoresSubscriber (\<lambda>reason. eff_return ()))\<rparr>"

text \<open>
  \<^verbatim>\<open>const auto&& subscriber = std::move(m_subscribers.at(id))\<close> binds a reference to
  the entry, it moves nothing; \<^verbatim>\<open>erase\<close> then destroys the entry, and the handler is
  given a reference to it.
\<close>

definition call_with_dangling ::
  "('w, 't) unsubscribe_handler option \<Rightarrow> reason_for_leaving \<Rightarrow> ('w, unit) eff" where
  "call_with_dangling h reason =
     (case h of
        None \<Rightarrow> eff_throw (mk_exn StdBadFunctionCall ''bad_function_call'')
      | Some (IgnoresSubscriber f) \<Rightarrow> f reason
      | Some (ReadsSubscriber f) \<Rightarrow> eff_fail (Fault DanglingReference))"

definition helper_unsubscribe ::
  "session_id \<Rightarrow> reason_for_leaving \<Rightarrow> (('w, 't) channel_state, unsubscribe_result) eff" where
  "helper_unsubscribe sid reason =
     eff_bind get_local (\<lambda>ch.
       if al_contains (m_subscribers ch) sid
       then eff_then (set_local (\<lambda>ch. ch\<lparr>m_subscribers := AList.delete sid (m_subscribers ch)\<rparr>))
         (eff_then (in_world (in_world (call_with_dangling (onUnsubscribed ch) reason)))
           (eff_return UnsubscribeDone))
       else eff_return UnsubscribeNotFound)"

definition internal_unsubscribe ::
  "'t session_ptr \<Rightarrow> (('w, 't) channel_state, unsubscribe_result) eff" where
  "internal_unsubscribe subscriber =
     eff_bind (deref subscriber) (\<lambda>s.
       helper_unsubscribe (session_m_id s) SubscriberLeftChannelOnHisOwn)"

definition internal_subscribe ::
  "'t session_ptr \<Rightarrow> (('w, 't) channel_state, subscribe_result) eff" where
  "internal_subscribe subscriber =
     eff_bind (deref subscriber) (\<lambda>s.
       eff_bind get_local (\<lambda>ch.
         if \<not> al_contains (m_subscribers ch) (session_m_id s)
         then eff_then
           (set_local (\<lambda>ch. ch\<lparr>m_subscribers := al_insert (session_m_id s) (Some s) (m_subscribers ch)\<rparr>))
           (eff_return SubscribeDone)
         else eff_return AlreadySubscribed))"

definition subscribe :: "'t session_ptr \<Rightarrow> (('w, 't) channel_state, subscribe_result) eff" where
  "subscribe subscriber = internal_subscribe subscriber"

definition unsubscribe :: "'t session_ptr \<Rightarrow> (('w, 't) channel_state, unsubscribe_result) eff" where
  "unsubscribe subscriber = internal_unsubscribe subscriber"

subsection \<open>Publishing\<close>

text \<open>
  The body of the loop, for a source of messages: a subscriber that is not active,
  or whose turn ends in a \<^verbatim>\<open>std::exception\<close>, is noted as broken.
\<close>

definition publish_one ::
  "('w, 't) transport_class \<Rightarrow> ('t session_ptr \<Rightarrow> (message_id \<times> 'w, message option) eff)
     \<Rightarrow> 't session_ptr \<Rightarrow> (message_id \<times> 'w, bool) eff" where
  "publish_one c source subscriber =
     eff_catch_std
       (eff_bind (deref subscriber) (\<lambda>s (n, w).
          if session_active c s w
          then eff_bind (source subscriber) (\<lambda>msg.
                 eff_then (in_world (session_send c s msg)) (eff_return True)) (n, w)
          else (Inr False, (n, w))))
       (\<lambda>ex. eff_return False)"

primrec collect_broken ::
  "('t session_ptr \<Rightarrow> ('w, bool) eff) \<Rightarrow> (session_id \<times> 't session_ptr) list
     \<Rightarrow> ('w, session_id list) eff" where
  "collect_broken turn [] = eff_return []"
| "collect_broken turn (e # es) =
     eff_bind (turn (snd e)) (\<lambda>ok.
       eff_bind (collect_broken turn es) (\<lambda>ids.
         eff_return (if ok then ids else fst e # ids)))"

definition publish_from ::
  "('w, 't) transport_class \<Rightarrow> ('t session_ptr \<Rightarrow> (message_id \<times> 'w, message option) eff)
     \<Rightarrow> (('w, 't) channel_state, unit) eff" where
  "publish_from c source =
     eff_bind get_local (\<lambda>ch.
       eff_bind (in_world (collect_broken (publish_one c source) (m_subscribers ch))) (\<lambda>broken.
         eff_for broken (\<lambda>sid.
           eff_bind (helper_unsubscribe sid SubscriberTransportHasBeenStopped) (\<lambda>r. eff_return ()))))"

definition publishWithProducer ::
  "('w, 't) transport_class \<Rightarrow> ('t session_ptr \<Rightarrow> (message_id \<times> 'w, message option) eff) option
     \<Rightarrow> (('w, 't) channel_state, unit) eff" where
  "publishWithProducer c producer = publish_from c (call_function producer)"

text \<open>\<^verbatim>\<open>msg->clone()\<close>\<close>

definition clone_message :: "message option \<Rightarrow> (message_id \<times> 'w, message option) eff" where
  "clone_message msg =
     (case msg of
        None \<Rightarrow> eff_fail (Fault NullDereference)
      | Some m \<Rightarrow> (\<lambda>(n, w). let (m', n') = message_clone m n in (Inr (Some m'), (n', w))))"

definition internal_send :: "('w, 't) transport_class \<Rightarrow> message option \<Rightarrow> (('w, 't) channel_state, unit) eff" where
  "internal_send c msg = publish_from c (\<lambda>subscriber. clone_message msg)"

definition channel_send :: "('w, 't) transport_class \<Rightarrow> message option \<Rightarrow> (('w, 't) channel_state, unit) eff" where
  "channel_send c msg = internal_send c msg"

subsection \<open>Subscriptions\<close>

definition pubsub_inv :: "('w, 't) pubsub_channel \<Rightarrow> bool" where
  "pubsub_inv ch \<longleftrightarrow> distinct (map fst (m_subscribers ch))
     \<and> (\<forall>(sid, p) \<in> set (m_subscribers ch). \<exists>s. p = Some s \<and> session_m_id s = sid)"

definition subscriber_ids :: "('w, 't) pubsub_channel \<Rightarrow> session_id set" where
  "subscriber_ids ch = fst ` set (m_subscribers ch)"

lemma pubsub_inv_delete:
  "pubsub_inv ch \<Longrightarrow> pubsub_inv (ch\<lparr>m_subscribers := AList.delete sid (m_subscribers ch)\<rparr>)"
  using set_delete_subset [of sid "m_subscribers ch"]
  by (simp add: pubsub_inv_def subset_iff) blast

lemma subscriber_ids_delete:
  "subscriber_ids (ch\<lparr>m_subscribers := AList.delete sid (m_subscribers ch)\<rparr>) = subscriber_ids ch - {sid}"
  by (simp add: subscriber_ids_def)

lemma keeps_pubsub_if: "(b \<Longrightarrow> keeps P m) \<Longrightarrow> (\<not> b \<Longrightarrow> keeps P k) \<Longrightarrow> keeps P (if b then m else k)"
  by simp

lemma keeps_helper_unsubscribe: "keeps (\<lambda>(ch, w). pubsub_inv ch) (helper_unsubscribe sid reason)"
  unfolding helper_unsubscribe_def eff_simps
  by (intro keeps_bind keeps_get_local keeps_pubsub_if keeps_then keeps_pure keeps_in_world
      keeps_set_local pubsub_inv_delete)

lemma keeps_publish_from: "keeps (\<lambda>(ch, w). pubsub_inv ch) (publish_from c source)"
  unfolding publish_from_def eff_simps
  by (intro keeps_bind keeps_get_local keeps_in_world keeps_for keeps_helper_unsubscribe keeps_pure)

subsection \<open>A round of publishing\<close>

text \<open>
  Transports whose answers are fixed: \<open>act t\<close> tells whether the session of \<open>t\<close> is
  active, \<open>good t\<close> whether a send succeeds.
\<close>

definition fixed_answers ::
  "('w, 't) transport_class \<Rightarrow> ('t \<Rightarrow> bool) \<Rightarrow> ('t \<Rightarrow> bool) \<Rightarrow> bool" where
  "fixed_answers c act good \<longleftrightarrow>
     (\<forall>s w. session_active c s w = act (session_m_transport s))
     \<and> (\<forall>t msg w. case fst (doSend c t msg w) of
          Inr u \<Rightarrow> good t | Inl (Thrown e) \<Rightarrow> \<not> good t \<and> ex_class e \<noteq> Foreign | Inl (Fault f) \<Rightarrow> False)"

text \<open>What the subscribers receive: every active one its own clone, in order.\<close>

definition deliver_clone ::
  "('w, 't) transport_class \<Rightarrow> ('t \<Rightarrow> bool) \<Rightarrow> message \<Rightarrow> session_id \<times> 't session_ptr
     \<Rightarrow> message_id \<times> 'w \<Rightarrow> message_id \<times> 'w" where
  "deliver_clone c act msg e nw =
     (let t = session_m_transport (the (snd e)) in
      if act t
      then (fst nw + 1, snd (doSend c t (Some (fst (message_clone msg (fst nw)))) (snd nw)))
      else nw)"

definition healthy :: "('t \<Rightarrow> bool) \<Rightarrow> ('t \<Rightarrow> bool) \<Rightarrow> session_id \<times> 't session_ptr \<Rightarrow> bool" where
  "healthy act good e \<longleftrightarrow>
     act (session_m_transport (the (snd e))) \<and> good (session_m_transport (the (snd e)))"

lemma message_clone_id: "snd (message_clone msg n) = n + 1"
  by (simp add: message_clone_def message_copy_def generateId_def Let_def)

lemma publish_one_clone:
  assumes "fixed_answers c act good" and "snd e = Some s"
  shows "publish_one c (\<lambda>p. clone_message (Some msg)) (snd e) nw
       = (Inr (healthy act good e), deliver_clone c act msg e nw)"
proof -
  let ?t = "session_m_transport s"
  obtain n w where nw: "nw = (n, w)" by fastforce
  obtain m' where m': "message_clone msg n = (m', n + 1)"
    using message_clone_id [of msg n] by (cases "message_clone msg n") auto
  have act: "session_active c s w = act ?t"
    using assms(1) by (simp add: fixed_answers_def)
  show ?thesis
  proof (cases "act ?t")
    case False
    then show ?thesis
      by (simp add: publish_one_def assms(2) deref_def act nw eff_catch_std_def healthy_def
          deliver_clone_def)
  next
    case True
    obtain r w' where r: "doSend c ?t (Some m') w = (r, w')" by fastforce
    have "case r of Inr u \<Rightarrow> good ?t | Inl (Thrown e) \<Rightarrow> \<not> good ?t \<and> ex_class e \<noteq> Foreign
          | Inl (Fault f) \<Rightarrow> False"
      using assms(1) r unfolding fixed_answers_def by (metis fst_conv)
    then show ?thesis
      using True
      by (cases r) (auto simp: publish_one_def assms(2) deref_def act nw eff_catch_std_def healthy_def
          deliver_clone_def clone_message_def m' eff_bind_def eff_then_def in_world_def session_send_def
          transport_send_def r caught_as_std_iff split: failure.splits)
  qed
qed

lemma collect_broken_clone:
  assumes "fixed_answers c act good" and "\<forall>e \<in> set es. snd e \<noteq> None"
  shows "collect_broken (publish_one c (\<lambda>p. clone_message (Some msg))) es nw
       = (Inr (map fst (filter (\<lambda>e. \<not> healthy act good e) es)), fold (deliver_clone c act msg) es nw)"
  using assms(2)
proof (induction es arbitrary: nw)
  case (Cons e es)
  then obtain s where s: "snd e = Some s" by auto
  then have *: "publish_one c (\<lambda>p. clone_message (Some msg)) (Some s) nw
       = (Inr (healthy act good e), deliver_clone c act msg e nw)"
    using publish_one_clone [OF assms(1) s] by simp
  show ?case
    using Cons by (simp add: eff_bind_def s *)
qed simp

lemma delete_not_in: "k \<notin> fst ` set al \<Longrightarrow> AList.delete k al = al"
  by (simp add: delete_id)

lemma unsubscribe_all:
  assumes "onUnsubscribed ch = Some (IgnoresSubscriber f)" and "\<And>w. fst (f reason w) = Inr ()"
    and "set ids \<subseteq> fst ` set (m_subscribers ch)" and "distinct ids"
  shows "eff_for ids (\<lambda>sid. eff_bind (helper_unsubscribe sid reason) (\<lambda>r. Pair (Inr ()))) (ch, (n, w))
     = (Inr (), (ch\<lparr>m_subscribers := filter (\<lambda>e. fst e \<notin> set ids) (m_subscribers ch)\<rparr>,
                 (n, fold (\<lambda>sid w. snd (f reason w)) ids w)))"
  using assms
proof (induction ids arbitrary: ch w)
  case (Cons sid ids)
  let ?ch = "ch\<lparr>m_subscribers := AList.delete sid (m_subscribers ch)\<rparr>"
  have call: "in_world (in_world (call_with_dangling (onUnsubscribed ch) reason)) (?ch, (n, w))
      = (Inr (), (?ch, (n, snd (f reason w))))"
    using Cons.prems(1) Cons.prems(2) [of w]
    by (cases "f reason w") (simp add: in_world_def call_with_dangling_def)
  have one: "eff_bind (helper_unsubscribe sid reason) (\<lambda>r. Pair (Inr ())) (ch, (n, w))
      = (Inr (), (?ch, (n, snd (f reason w))))"
    using Cons.prems(3) call
    by (simp add: helper_unsubscribe_def al_contains_iff eff_bind_def eff_then_def get_local_def set_local_def)
  have "fst ` set (m_subscribers ?ch) = fst ` set (m_subscribers ch) - {sid}"
    by simp
  then have "set ids \<subseteq> fst ` set (m_subscribers ?ch)"
    using Cons.prems(3,4) by auto
  moreover have "filter (\<lambda>e. fst e \<notin> set ids) (AList.delete sid (m_subscribers ch))
      = filter (\<lambda>e. fst e \<notin> set (sid # ids)) (m_subscribers ch)"
    by (auto simp: AList.delete_eq intro!: filter_cong)
  ultimately show ?case
    using Cons one by (simp add: eff_then_cases(2))
qed simp

subsection \<open>Properties\<close>

text \<open>C26: Subscriptions form a set of session identifiers: subscribing adds the session or reports that
  it was there, unsubscribing removes exactly that session or reports that it was not, and
  whatever publishing does, every entry stays a session filed once under its identifier.\<close>

theorem subscriptions_are_a_set:
  fixes ch :: "('w, 't) pubsub_channel"
  assumes "pubsub_inv ch" and "onUnsubscribed ch = Some (IgnoresSubscriber f)"
    and "\<And>w. fst (f SubscriberLeftChannelOnHisOwn w) = Inr ()"
  shows "(\<exists>ch'. subscribe (Some s) (ch, nw)
        = (Inr (if session_m_id s \<in> subscriber_ids ch then AlreadySubscribed else SubscribeDone), (ch', nw))
      \<and> subscriber_ids ch' = insert (session_m_id s) (subscriber_ids ch) \<and> pubsub_inv ch')
    \<and> (\<exists>ch' nw'. unsubscribe (Some s) (ch, nw)
        = (Inr (if session_m_id s \<in> subscriber_ids ch then UnsubscribeDone else UnsubscribeNotFound), (ch', nw'))
      \<and> subscriber_ids ch' = subscriber_ids ch - {session_m_id s} \<and> pubsub_inv ch')
    \<and> pubsub_inv (fst (snd (publishWithProducer c p (ch, nw))))
    \<and> pubsub_inv (fst (snd (channel_send c msg (ch, nw))))"
proof (intro conjI)
  let ?sid = "session_m_id s"
  show "\<exists>ch'. subscribe (Some s) (ch, nw)
        = (Inr (if ?sid \<in> subscriber_ids ch then AlreadySubscribed else SubscribeDone), (ch', nw))
      \<and> subscriber_ids ch' = insert ?sid (subscriber_ids ch) \<and> pubsub_inv ch'"
    using assms(1) by (auto simp: subscribe_def internal_subscribe_def deref_def al_contains_iff
        subscriber_ids_def pubsub_inv_def al_insert_def map_of_eq_None_iff)
  obtain n w where nw: "nw = (n, w)" by fastforce
  have call: "in_world (in_world (call_with_dangling (onUnsubscribed ch) SubscriberLeftChannelOnHisOwn)) (ch', nw)
      = (Inr (), (ch', (n, snd (f SubscriberLeftChannelOnHisOwn w))))" for ch' :: "('w, 't) pubsub_channel"
    using assms(3) [of w]
    by (cases "f SubscriberLeftChannelOnHisOwn w") (simp add: in_world_def call_with_dangling_def assms(2) nw)
  show "\<exists>ch' nw'. unsubscribe (Some s) (ch, nw)
        = (Inr (if ?sid \<in> subscriber_ids ch then UnsubscribeDone else UnsubscribeNotFound), (ch', nw'))
      \<and> subscriber_ids ch' = subscriber_ids ch - {?sid} \<and> pubsub_inv ch'"
    using pubsub_inv_delete [OF assms(1), of ?sid] assms(1) subscriber_ids_delete [of ?sid ch]
    by (auto simp: unsubscribe_def internal_unsubscribe_def deref_def helper_unsubscribe_def
        al_contains_iff eff_then_def eff_bind_def call subscriber_ids_def)
  show "pubsub_inv (fst (snd (publishWithProducer c p (ch, nw))))"
    "pubsub_inv (fst (snd (channel_send c msg (ch, nw))))"
    using keepsD [OF keeps_publish_from, of "(ch, nw)" c] assms(1)
    by (simp_all add: publishWithProducer_def channel_send_def internal_send_def split_def)
qed


text \<open>A handler of unsubscriptions that looks at the subscriber it is given reads a destroyed
  pointer, whenever somebody is unsubscribed.\<close>

theorem unsubscribe_handler_gets_dangling_reference:
  assumes "onUnsubscribed ch = Some (ReadsSubscriber f)" and "session_m_id s \<in> subscriber_ids ch"
  shows "fst (unsubscribe (Some s) (ch, nw)) = Inl (Fault DanglingReference)"
  using assms
  by (simp add: unsubscribe_def internal_unsubscribe_def deref_def helper_unsubscribe_def al_contains_iff
      subscriber_ids_def eff_then_def eff_bind_def call_with_dangling_def in_world_def split: prod.split)

subsection \<open>An example\<close>

definition demo_channel :: "(nat, nat) pubsub_channel" where
  "demo_channel = pubsub_new\<lparr>m_subscribers :=
     [(1, Some \<lparr>session_m_id = 1, session_m_transport = 0\<rparr>),
      (2, Some \<lparr>session_m_id = 2, session_m_transport = 1\<rparr>)]\<rparr>"

text \<open>A transport that sends for handle 0 and throws for every other one.\<close>

definition half_transport :: "(nat, nat) transport_class" where
  "half_transport = fake_transport\<lparr>doSend := (\<lambda>t m w.
     if t = 0 then (Inr (), w + 1) else (Inl (Thrown (mk_exn IOException [])), w))\<rparr>"

lemma demo_channel_inv: "pubsub_inv demo_channel"
  "onUnsubscribed demo_channel = Some (IgnoresSubscriber (\<lambda>reason. Pair (Inr ())))"
  by (simp_all add: demo_channel_def pubsub_new_def pubsub_inv_def)

theorem subscriptions_are_a_set_witness:
  "\<exists>ch'. subscribe (Some \<lparr>session_m_id = 1, session_m_transport = 0\<rparr>) (demo_channel, (0, 0))
     = (Inr AlreadySubscribed, (ch', (0, 0))) \<and> subscriber_ids ch' = {1, 2}"
proof -
  have "fst ((\<lambda>w::nat. (Inr () :: unit outcome, w)) w) = Inr ()" for w
    by simp
  from subscriptions_are_a_set [OF demo_channel_inv this, THEN conjunct1,
      of "\<lparr>session_m_id = 1, session_m_transport = 0\<rparr>" "(0, 0)"]
  obtain ch' where "subscribe (Some \<lparr>session_m_id = 1, session_m_transport = 0\<rparr>) (demo_channel, (0, 0))
      = (Inr AlreadySubscribed, (ch', (0, 0)))" "subscriber_ids ch' = insert 1 (subscriber_ids demo_channel)"
    by (auto simp: subscriber_ids_def demo_channel_def)
  then show ?thesis
    by (auto simp: subscriber_ids_def demo_channel_def)
qed


theorem unsubscribe_handler_gets_dangling_reference_witness:
  "fst (unsubscribe (Some \<lparr>session_m_id = 1, session_m_transport = 0\<rparr>)
      (demo_channel\<lparr>onUnsubscribed := Some (ReadsSubscriber (\<lambda>p reason. eff_return ()))\<rparr>, (0, 0)))
   = Inl (Fault DanglingReference)"
  by (rule unsubscribe_handler_gets_dangling_reference)
    (simp_all add: demo_channel_def subscriber_ids_def)

end
