(* ===== verification/Tcp_Transport.thy ===== *)
theory Tcp_Transport
  imports Transport_Model Message_Queue
begin

text \<open>
  \<^verbatim>\<open>src/transport/tcp_transport.cpp\<close>.  Boost.Asio starts a read or a write and calls
  the handler when it is done: here the started writes are part of the state, and a
  handler is a step of its own.  A write refers to the buffer it was started with,
  by the number of the allocation.  Time is in nanoseconds; the field serializers
  and the values of two Asio error codes are parameters.
\<close>

record asio_errors =
  connection_refused :: int
  eof :: int

text \<open>
  What a promise received: a message or an exception.  The shared states are
  numbered; \<open>tcp_ids\<close> is the process-wide counter of message identifiers.
\<close>

type_synonym promise_result = "exn + message"

record tcp_transport =
  tcp_m_state :: service_state
  tcp_m_session :: "session_id option"
  m_pending_requests :: "(message_id \<times> future_message) list"
  m_pending_requests_ts :: "(message_id \<times> int) list"
  m_outgoing_messages :: "message message_queue"
  m_outgoing_data_buffer :: nat
  m_outgoing_data_length :: message_length
  m_incoming_messages :: "message message_queue"
  m_incoming_data_buffer :: "byte list"
  m_incoming_data_length :: message_length
  started_writes :: "(nat \<times> byte list) list"
  sent_bytes :: "byte list"
  reading :: bool
  futures :: "future_message \<rightharpoonup> promise_result"
  next_future :: future_message
  tcp_ids :: message_id

definition tcp_new :: tcp_transport where
  "tcp_new =
     \<lparr>tcp_m_state = Stopped, tcp_m_session = None, m_pending_requests = [], m_pending_requests_ts = [],
      m_outgoing_messages = queue_new, m_outgoing_data_buffer = 0, m_outgoing_data_length = 0,
      m_incoming_messages = queue_new, m_incoming_data_buffer = [], m_incoming_data_length = 0,
      started_writes = [], sent_bytes = [], reading = False,
      futures = Map.empty, next_future = 0, tcp_ids = 0\<rparr>"

subsection \<open>Starting and stopping\<close>

definition readMessageLength :: "tcp_transport \<Rightarrow> tcp_transport" where
  "readMessageLength T = T\<lparr>reading := True\<rparr>"

definition tcp_doStart :: "tcp_transport \<Rightarrow> tcp_transport" where
  "tcp_doStart T = readMessageLength (T\<lparr>tcp_m_state := Started\<rparr>)"

definition tcp_doInit :: "tcp_transport \<Rightarrow> tcp_transport" where
  "tcp_doInit T = T"

text \<open>Cancelling and closing the socket completes what was started, with an error code.\<close>

definition tcp_doStop :: "tcp_transport \<Rightarrow> tcp_transport" where
  "tcp_doStop T = T"

definition disconnected :: "asio_errors \<Rightarrow> int \<Rightarrow> tcp_transport \<Rightarrow> bool \<times> tcp_transport" where
  "disconnected ae ec T =
     (if ec = connection_refused ae \<or> ec = eof ae then (True, T\<lparr>tcp_m_state := StopPending\<rparr>)
      else (False, T))"

subsection \<open>Writing\<close>

text \<open>A new allocation; whoever still uses the old one uses freed memory.\<close>

definition resizeOutgoingDataBuffer :: "tcp_transport \<Rightarrow> tcp_transport" where
  "resizeOutgoingDataBuffer T = T\<lparr>m_outgoing_data_buffer := Suc (m_outgoing_data_buffer T)\<rparr>"

text \<open>
  The two additions to the 16-bit length; \<^verbatim>\<open>std::copy\<close> writes all the serialized
  bytes into the buffer of that length.
\<close>

definition outgoing_length :: "message \<Rightarrow> message_length" where
  "outgoing_length msg =
     0 + of_nat (binary_size (VScalar (SI16 0))) + of_nat (message_serializedSize msg)"

definition outgoing_data ::
  "platform \<Rightarrow> serializer list \<Rightarrow> message \<Rightarrow> byte list outcome" where
  "outgoing_data pl pack msg =
     bind_outcome (serialize_scalar pl (SI16 (outgoing_length msg)) (stream_context BinarySerializerTag empty_stream))
       (\<lambda>ctx. bind_outcome (message_serialize pack msg ctx) (\<lambda>ctx'.
         bind_outcome (context_stream ctx') (\<lambda>s. Inr (sbuf s))))"

definition writeMessage :: "platform \<Rightarrow> serializer list \<Rightarrow> (tcp_transport, unit) eff" where
  "writeMessage pl pack T =
     (let (msg, q) = queue_pull (m_outgoing_messages T);
          T1 = T\<lparr>m_outgoing_messages := q\<rparr>
      in case msg of
           None \<Rightarrow> (Inr (), T1)
         | Some m \<Rightarrow>
             let T2 = T1\<lparr>m_outgoing_data_length := outgoing_length m\<rparr>
             in case outgoing_data pl pack m of
                  Inl e \<Rightarrow> (Inl e, T2)
                | Inr bytes \<Rightarrow>
                    let T3 = resizeOutgoingDataBuffer T2
                    in if length bytes > unat (outgoing_length m) then (Inl (Fault BufferOverflow), T3)
                       else (Inr (), T3\<lparr>started_writes :=
                               started_writes T3 @ [(m_outgoing_data_buffer T3, bytes)]\<rparr>))"

definition tcp_doSend :: "platform \<Rightarrow> serializer list \<Rightarrow> message option \<Rightarrow> (tcp_transport, unit) eff" where
  "tcp_doSend pl pack msg T =
     (let in_progress = (queue_size (m_outgoing_messages T) > 0);
          T' = T\<lparr>m_outgoing_messages := queue_push msg (m_outgoing_messages T)\<rparr>
      in if \<not> in_progress then writeMessage pl pack T' else (Inr (), T'))"

text \<open>
  The handler of the write started first.  On success the socket has read the
  buffer; a buffer freed meanwhile was read after its end of life.
\<close>

definition on_written ::
  "platform \<Rightarrow> serializer list \<Rightarrow> asio_errors \<Rightarrow> int \<Rightarrow> (tcp_transport, unit) eff" where
  "on_written pl pack ae ec T =
     (case started_writes T of
        [] \<Rightarrow> (Inr (), T)
      | (buffer, bytes) # rest \<Rightarrow>
          let T1 = T\<lparr>started_writes := rest\<rparr>
          in if ec = 0 \<and> buffer \<noteq> m_outgoing_data_buffer T1 then (Inl (Fault DanglingReference), T1)
             else let T2 = (if ec = 0 then T1\<lparr>sent_bytes := sent_bytes T1 @ bytes\<rparr> else T1);
                      (gone, T3) = disconnected ae ec T2
                  in if gone then (Inr (), T3)
                     else if ec \<noteq> 0 then (Inr (), T3\<lparr>tcp_m_state := StopPending\<rparr>)
                     else writeMessage pl pack T3)"

subsection \<open>Reading\<close>

definition tcp_doReceive :: "tcp_transport \<Rightarrow> message option option \<times> tcp_transport" where
  "tcp_doReceive T =
     (if queue_size (m_incoming_messages T) > 0
      then let (m, q) = queue_pull (m_incoming_messages T)
           in (Some m, T\<lparr>m_incoming_messages := q\<rparr>)
      else (None, T))"

text \<open>\<^verbatim>\<open>new char[m_incoming_data_length + 1]\<close>, computed in \<^verbatim>\<open>int\<close>\<close>

definition resizeIncomingDataBuffer :: "tcp_transport \<Rightarrow> tcp_transport" where
  "resizeIncomingDataBuffer T =
     T\<lparr>m_incoming_data_buffer := replicate (unat (m_incoming_data_length T) + 1) 0\<rparr>"

definition createMessageFromStream ::
  "platform \<Rightarrow> serializer list \<Rightarrow> message_factory \<Rightarrow> sstream \<Rightarrow> tcp_transport
     \<Rightarrow> message option outcome \<times> tcp_transport" where
  "createMessageFromStream pl pack factory stream T =
     (let ctx = stream_context BinarySerializerTag stream
      in case deserialize_scalar pl I16 (Some (SI16 0)) ctx of
           Inl e \<Rightarrow> (Inl e, T)
         | Inr (SI16 type, ctx') \<Rightarrow>
             if \<not> hasDescriptor type factory then (Inr None, T)
             else (case tcp_m_session T of
                     None \<Rightarrow> (Inl (Fault (if ndebug pl then NullDereference else AssertionFailure)), T)
                   | Some sid \<Rightarrow>
                       let (r, ids) = createMessage factory type sid (tcp_ids T);
                           T' = T\<lparr>tcp_ids := ids\<rparr>
                       in (bind_outcome r (\<lambda>m.
                             bind_outcome (message_deserialize pack m ctx') (\<lambda>(m', ctx''). Inr (Some m'))),
                           T'))
         | Inr (x, ctx') \<Rightarrow> (Inl (Fault IllTyped), T))"

text \<open>
  A response goes to the promise of the request it names, anything else to the
  queue.  The exception of an access to a \<^verbatim>\<open>srcMsgId\<close> field of another type, like
  every exception here, drops the message.
\<close>

definition deliver_incoming :: "message \<Rightarrow> (tcp_transport, unit) eff" where
  "deliver_incoming m T =
     (let queued = T\<lparr>m_incoming_messages := queue_push (Some m) (m_incoming_messages T)\<rparr>
      in if message_hasField ''srcMsgId'' m
         then case message_field_get typeid_MessageId ''srcMsgId'' m of
                Inl e \<Rightarrow> (Inl e, T)
              | Inr v \<Rightarrow>
                  (case v of
                     VScalar (SI32 src_msg_id) \<Rightarrow>
                       (case map_of (m_pending_requests T) src_msg_id of
                          None \<Rightarrow> (Inr (), queued)
                        | Some promise \<Rightarrow>
                            if futures T promise \<noteq> None
                            then (Inl (Thrown (mk_exn StdFutureError ''Promise already satisfied'')), T)
                            else (Inr (), T\<lparr>futures := (futures T)(promise \<mapsto> Inr m),
                                   m_pending_requests := AList.delete src_msg_id (m_pending_requests T),
                                   m_pending_requests_ts := AList.delete src_msg_id (m_pending_requests_ts T)\<rparr>))
                   | _ \<Rightarrow> (Inl (Fault IllTyped), T))
         else (Inr (), queued))"

definition onMessageRead :: "platform \<Rightarrow> serializer list \<Rightarrow> message_factory \<Rightarrow> (tcp_transport, unit) eff" where
  "onMessageRead pl pack factory =
     eff_catch_std
       (\<lambda>T. let bytes = take (unat (m_incoming_data_length T)) (m_incoming_data_buffer T);
                (r, T') = createMessageFromStream pl pack factory \<lparr>sbuf = bytes, sgood = True\<rparr> T
            in case r of
                 Inl e \<Rightarrow> (Inl e, T')
               | Inr None \<Rightarrow> (Inr (), T')
               | Inr (Some m) \<Rightarrow> deliver_incoming m T')
       (\<lambda>ex T. (Inr (), T))"

text \<open>
  The handlers of the two reads; \<open>bytes\<close> is what the socket stored, exactly as many
  bytes as asked for when there is no error.  The length is stored as it came, in
  the byte order of the machine.
\<close>

definition on_length_read ::
  "platform \<Rightarrow> asio_errors \<Rightarrow> int \<Rightarrow> byte list \<Rightarrow> tcp_transport \<Rightarrow> tcp_transport" where
  "on_length_read pl ae ec bytes T =
     (let T0 = (if ec = 0
                then T\<lparr>m_incoming_data_length := of_bytes_le (native_image (big_endian pl) bytes)\<rparr> else T);
          (gone, T1) = disconnected ae ec T0
      in if gone then T1\<lparr>reading := False\<rparr>
         else if ec \<noteq> 0 then T1\<lparr>tcp_m_state := StopPending, reading := False\<rparr>
         else resizeIncomingDataBuffer T1)"

definition on_message_read ::
  "platform \<Rightarrow> serializer list \<Rightarrow> message_factory \<Rightarrow> asio_errors \<Rightarrow> int \<Rightarrow> byte list
     \<Rightarrow> (tcp_transport, unit) eff" where
  "on_message_read pl pack factory ae ec bytes T =
     (let T0 = (if ec = 0 then T\<lparr>m_incoming_data_buffer := bytes @ [0]\<rparr> else T);
          (gone, T1) = disconnected ae ec T0
      in if gone then (Inr (), T1\<lparr>reading := False\<rparr>)
         else if ec \<noteq> 0 then (Inr (), T1\<lparr>tcp_m_state := StopPending, reading := False\<rparr>)
         else case onMessageRead pl pack factory T1 of
                (Inl e, T2) \<Rightarrow> (Inl e, T2)
              | (Inr u, T2) \<Rightarrow> (Inr (), readMessageLength T2))"

subsection \<open>Requests\<close>

text \<open>
  \<^verbatim>\<open>insert\<close> keeps an entry of the same identifier; the promise made for nothing is
  then destroyed unsatisfied.
\<close>

definition tcp_doRequest ::
  "platform \<Rightarrow> serializer list \<Rightarrow> int \<Rightarrow> message option \<Rightarrow> (tcp_transport, future_message) eff" where
  "tcp_doRequest pl pack now msg T =
     (case msg of
        None \<Rightarrow> (Inl (Fault NullDereference), T)
      | Some m \<Rightarrow>
          let promise = next_future T;
              fresh_id = (map_of (m_pending_requests T) (msg_id m) = None);
              T1 = T\<lparr>next_future := Suc promise,
                     m_pending_requests := al_insert (msg_id m) promise (m_pending_requests T),
                     futures := (if fresh_id then futures T
                       else (futures T)(promise \<mapsto> Inl (mk_exn StdFutureError ''Broken promise''))),
                     m_pending_requests_ts := al_insert (msg_id m) now (m_pending_requests_ts T)\<rparr>
          in case tcp_doSend pl pack msg T1 of
               (Inl e, T2) \<Rightarrow> (Inl e, T2)
             | (Inr u, T2) \<Rightarrow> (Inr promise, T2))"

text \<open>
  \<^verbatim>\<open>duration_cast<seconds>(now - ts) > 30s\<close>: the quotient is truncated towards zero.
\<close>

definition expired :: "int \<Rightarrow> int \<Rightarrow> bool" where
  "expired now ts \<longleftrightarrow> (if now \<ge> ts then (now - ts) div 1000000000 else - ((ts - now) div 1000000000)) > 30"

definition expire_request :: "message_id \<Rightarrow> tcp_transport \<Rightarrow> tcp_transport" where
  "expire_request rid T =
     (let T1 = T\<lparr>m_pending_requests_ts := AList.delete rid (m_pending_requests_ts T)\<rparr>
      in case map_of (m_pending_requests T1) rid of
           None \<Rightarrow> T1
         | Some promise \<Rightarrow>
             if futures T1 promise \<noteq> None then T1
             else T1\<lparr>futures := (futures T1)(promise \<mapsto> Inl (mk_exn RuntimeException ''Request is expired'')),
                     m_pending_requests := AList.delete rid (m_pending_requests T1)\<rparr>)"

definition tcp_removeExpiredRequests :: "int \<Rightarrow> tcp_transport \<Rightarrow> tcp_transport" where
  "tcp_removeExpiredRequests now T =
     fold expire_request (map fst (filter (\<lambda>(rid, ts). expired now ts) (m_pending_requests_ts T))) T"

subsection \<open>Steps of a transport\<close>

inductive tcp_step ::
  "platform \<Rightarrow> serializer list \<Rightarrow> message_factory \<Rightarrow> asio_errors \<Rightarrow> tcp_transport \<Rightarrow> tcp_transport \<Rightarrow> bool"
  for pl pack factory ae where
  send: "tcp_doSend pl pack msg T = (r, T') \<Longrightarrow> tcp_step pl pack factory ae T T'"
| receive: "tcp_doReceive T = (m, T') \<Longrightarrow> tcp_step pl pack factory ae T T'"
| request: "tcp_doRequest pl pack now msg T = (f, T') \<Longrightarrow> tcp_step pl pack factory ae T T'"
| expire: "tcp_step pl pack factory ae T (tcp_removeExpiredRequests now T)"
| stop: "tcp_step pl pack factory ae T (tcp_doStop T)"
| written: "on_written pl pack ae ec T = (r, T') \<Longrightarrow> tcp_step pl pack factory ae T T'"
| length_read: "tcp_step pl pack factory ae T (on_length_read pl ae ec bytes T)"
| message_read: "on_message_read pl pack factory ae ec bytes T = (r, T') \<Longrightarrow>
    tcp_step pl pack factory ae T T'"

inductive tcp_run ::
  "platform \<Rightarrow> serializer list \<Rightarrow> message_factory \<Rightarrow> asio_errors \<Rightarrow> tcp_transport \<Rightarrow> bool"
  for pl pack factory ae where
  start: "tcp_run pl pack factory ae (tcp_doStart (tcp_new\<lparr>tcp_m_session := s, tcp_ids := n\<rparr>))"
| step: "tcp_run pl pack factory ae T \<Longrightarrow> tcp_step pl pack factory ae T T' \<Longrightarrow>
    tcp_run pl pack factory ae T'"

inductive_cases tcp_stepE: "tcp_step pl pack factory ae T T'"

text \<open>The part of the state that belongs to requests; most steps leave it alone.\<close>

definition request_part ::
  "tcp_transport \<Rightarrow> (message_id \<times> future_message) list \<times> (message_id \<times> int) list
     \<times> (future_message \<rightharpoonup> promise_result) \<times> future_message" where
  "request_part T = (m_pending_requests T, m_pending_requests_ts T, futures T, next_future T)"

lemma request_part_updates [state_simps]:
  "request_part (T\<lparr>tcp_m_state := a\<rparr>) = request_part T"
  "request_part (T\<lparr>reading := b\<rparr>) = request_part T"
  "request_part (T\<lparr>m_outgoing_messages := q\<rparr>) = request_part T"
  "request_part (T\<lparr>m_incoming_messages := q\<rparr>) = request_part T"
  "request_part (T\<lparr>started_writes := ws\<rparr>) = request_part T"
  "request_part (T\<lparr>sent_bytes := bs\<rparr>) = request_part T"
  "request_part (T\<lparr>m_outgoing_data_length := l\<rparr>) = request_part T"
  "request_part (T\<lparr>m_outgoing_data_buffer := n\<rparr>) = request_part T"
  "request_part (T\<lparr>m_incoming_data_buffer := bs\<rparr>) = request_part T"
  "request_part (T\<lparr>m_incoming_data_length := l\<rparr>) = request_part T"
  "request_part (T\<lparr>tcp_ids := i\<rparr>) = request_part T"
  by (simp_all add: request_part_def)

lemma request_part_writeMessage [state_simps]:
  "request_part (snd (writeMessage pl pack T)) = request_part T"
  by (auto simp: writeMessage_def Let_def resizeOutgoingDataBuffer_def state_simps
      split: prod.split option.split sum.split)

lemma request_part_doSend [state_simps]:
  "request_part (snd (tcp_doSend pl pack msg T)) = request_part T"
  by (simp add: tcp_doSend_def Let_def state_simps)

lemma request_part_disconnected [state_simps]:
  "request_part (snd (disconnected ae ec T)) = request_part T"
  by (simp add: disconnected_def state_simps)

lemma disconnected_eq:
  "disconnected ae ec T = (g, T') \<Longrightarrow> request_part T' = request_part T \<and> (tcp_m_state T = Started \<or> tcp_m_state T = StopPending \<longrightarrow> tcp_m_state T' = Started \<or> tcp_m_state T' = StopPending)"
  by (auto simp: disconnected_def state_simps split: if_splits)

lemma request_part_written [state_simps]:
  "request_part (snd (on_written pl pack ae ec T)) = request_part T"
  by (auto simp: on_written_def Let_def state_simps split: list.split prod.split dest!: disconnected_eq)

lemma request_part_length_read [state_simps]:
  "request_part (on_length_read pl ae ec bytes T) = request_part T"
  by (auto simp: on_length_read_def Let_def state_simps resizeIncomingDataBuffer_def
      split: prod.split dest!: disconnected_eq)

lemma request_part_receive [state_simps]:
  "request_part (snd (tcp_doReceive T)) = request_part T"
  by (simp add: tcp_doReceive_def state_simps split: prod.split)

lemma request_part_create [state_simps]:
  "request_part (snd (createMessageFromStream pl pack factory stream T)) = request_part T"
  by (auto simp: createMessageFromStream_def Let_def state_simps
      split: sum.split prod.split scalar.split option.split)

text \<open>
  A request is open while its identifier is in both maps; its promise has no result
  then, and every promise made is open or has a result.
\<close>

definition requests_inv :: "tcp_transport \<Rightarrow> bool" where
  "requests_inv T \<longleftrightarrow>
     distinct (map fst (m_pending_requests T)) \<and> distinct (map snd (m_pending_requests T))
     \<and> distinct (map fst (m_pending_requests_ts T))
     \<and> fst ` set (m_pending_requests T) = fst ` set (m_pending_requests_ts T)
     \<and> (\<forall>p \<in> snd ` set (m_pending_requests T). p < next_future T \<and> futures T p = None)
     \<and> (\<forall>p < next_future T. futures T p \<noteq> None \<or> p \<in> snd ` set (m_pending_requests T))
     \<and> (\<forall>p. futures T p \<noteq> None \<longrightarrow> p < next_future T)"

lemma requests_inv_cong: "request_part T' = request_part T \<Longrightarrow> requests_inv T' = requests_inv T"
  by (simp add: request_part_def requests_inv_def)

lemma snd_delete:
  assumes "distinct (map fst al)" and "distinct (map snd al)" and "map_of al k = Some v"
  shows "snd ` set (AList.delete k al) = snd ` set al - {v}"
    and "distinct (map snd (AList.delete k al))"
proof -
  have "(k, v) \<in> set al"
    using assms(3) by (rule map_of_SomeD)
  then have same: "fst e = k \<longleftrightarrow> snd e = v" if "e \<in> set al" for e
    using that assms(1,2) by (metis distinct_map inj_onD prod.collapse snd_conv fst_conv)
  have key: "(case e of (k', u) \<Rightarrow> k \<noteq> k') = (snd e \<noteq> v)" if "e \<in> set al" for e
    using same [OF that] by (cases e) auto
  have "AList.delete k al = filter (\<lambda>e. snd e \<noteq> v) al"
    unfolding AList.delete_eq by (rule filter_cong [OF refl key])
  then show "snd ` set (AList.delete k al) = snd ` set al - {v}"
    by auto
  show "distinct (map snd (AList.delete k al))"
    using assms(2) by (simp add: AList.delete_eq distinct_map_filter)
qed

text \<open>Resolving an open request, by a response or by expiry.\<close>

definition resolve_request :: "message_id \<Rightarrow> promise_result \<Rightarrow> tcp_transport \<Rightarrow> tcp_transport" where
  "resolve_request rid x T =
     (case map_of (m_pending_requests T) rid of
        None \<Rightarrow> T
      | Some p \<Rightarrow> T\<lparr>futures := (futures T)(p \<mapsto> x),
                    m_pending_requests := AList.delete rid (m_pending_requests T),
                    m_pending_requests_ts := AList.delete rid (m_pending_requests_ts T)\<rparr>)"

lemma pending_unresolved:
  "requests_inv T \<Longrightarrow> map_of (m_pending_requests T) rid = Some p \<Longrightarrow> futures T p = None"
  by (force simp: requests_inv_def dest: map_of_SomeD)

lemma requests_inv_resolve [inv_intros]:
  assumes "requests_inv T"
  shows "requests_inv (resolve_request rid x T)"
proof (cases "map_of (m_pending_requests T) rid")
  case None
  with assms show ?thesis by (simp add: resolve_request_def)
next
  case (Some p)
  have "p \<in> snd ` set (m_pending_requests T)"
    using map_of_SomeD [OF Some] by force
  with assms snd_delete [of "m_pending_requests T" rid p] Some show ?thesis
    by (auto simp: requests_inv_def resolve_request_def)
qed

lemma expire_request_eq:
  assumes "requests_inv T" and "rid \<in> fst ` set (m_pending_requests_ts T)"
  shows "expire_request rid T
       = resolve_request rid (Inl (mk_exn RuntimeException ''Request is expired'')) T"
proof -
  have "rid \<in> fst ` set (m_pending_requests T)"
    using assms by (simp add: requests_inv_def)
  then obtain p where p: "map_of (m_pending_requests T) rid = Some p"
    by (metis map_of_eq_None_iff not_None_eq)
  with pending_unresolved [OF assms(1) p] show ?thesis
    by (simp add: expire_request_def resolve_request_def Let_def)
qed

lemma resolve_keys:
  "requests_inv T \<Longrightarrow>
   fst ` set (m_pending_requests_ts (resolve_request rid x T)) = fst ` set (m_pending_requests_ts T) - {rid}"
  by (auto simp: resolve_request_def requests_inv_def map_of_eq_None_iff split: option.split)

lemma expire_all:
  assumes "requests_inv T" and "distinct rids" and "set rids \<subseteq> fst ` set (m_pending_requests_ts T)"
  shows "fold expire_request rids T
       = fold (\<lambda>rid. resolve_request rid (Inl (mk_exn RuntimeException ''Request is expired''))) rids T
     \<and> requests_inv (fold expire_request rids T)"
  using assms
proof (induction rids arbitrary: T)
  case (Cons rid rids)
  let ?x = "Inl (mk_exn RuntimeException ''Request is expired'')"
  have e: "expire_request rid T = resolve_request rid ?x T"
    using Cons.prems by (intro expire_request_eq) auto
  have "set rids \<subseteq> fst ` set (m_pending_requests_ts (resolve_request rid ?x T))"
    using Cons.prems resolve_keys [OF Cons.prems(1), of rid ?x] by auto
  then have ih: "fold expire_request rids (resolve_request rid ?x T)
      = fold (\<lambda>rid. resolve_request rid ?x) rids (resolve_request rid ?x T)
    \<and> requests_inv (fold expire_request rids (resolve_request rid ?x T))"
    using Cons.prems by (intro Cons.IH) (simp_all add: requests_inv_resolve)
  show ?case
    unfolding fold_simps(2) e by (rule ih)
qed simp

lemma expired_ids:
  assumes "requests_inv T"
  shows "distinct (map fst (filter (\<lambda>(rid, ts). expired now ts) (m_pending_requests_ts T)))"
    and "set (map fst (filter (\<lambda>(rid, ts). expired now ts) (m_pending_requests_ts T)))
       \<subseteq> fst ` set (m_pending_requests_ts T)"
  using assms by (auto simp: requests_inv_def distinct_map_filter)

lemma requests_inv_expire [inv_intros]:
  "requests_inv T \<Longrightarrow> requests_inv (tcp_removeExpiredRequests now T)"
  unfolding tcp_removeExpiredRequests_def using expire_all expired_ids by blast

lemma requests_inv_request [inv_intros]:
  assumes "requests_inv T"
  shows "requests_inv (snd (tcp_doRequest pl pack now msg T))"
proof (cases msg)
  case (Some m)
  let ?p = "next_future T" and ?new = "map_of (m_pending_requests T) (msg_id m) = None"
  let ?T = "T\<lparr>next_future := Suc ?p,
      m_pending_requests := al_insert (msg_id m) ?p (m_pending_requests T),
      futures := (if ?new then futures T
         else (futures T)(?p \<mapsto> Inl (mk_exn StdFutureError ''Broken promise''))),
      m_pending_requests_ts := al_insert (msg_id m) now (m_pending_requests_ts T)\<rparr>"
  have keys: "fst ` set (m_pending_requests T) = fst ` set (m_pending_requests_ts T)"
    using assms by (simp add: requests_inv_def)
  have fresh: "?p \<notin> snd ` set (m_pending_requests T)" "futures T ?p = None"
    using assms by (auto simp: requests_inv_def)
  have "requests_inv ?T"
  proof (cases ?new)
    case True
    moreover from this have "map_of (m_pending_requests_ts T) (msg_id m) = None"
      using keys by (simp add: map_of_eq_None_iff)
    ultimately show ?thesis
      using assms fresh keys
      by (auto simp: requests_inv_def al_insert_def map_of_eq_None_iff less_Suc_eq)
  next
    case False
    moreover from this have "map_of (m_pending_requests_ts T) (msg_id m) \<noteq> None"
      using keys by (simp add: map_of_eq_None_iff)
    ultimately show ?thesis
      using assms fresh
      by (auto simp: requests_inv_def al_insert_def less_Suc_eq)
  qed
  then have "requests_inv (snd (tcp_doSend pl pack msg ?T))"
    using requests_inv_cong [OF request_part_doSend] by blast
  then show ?thesis
    by (auto simp: tcp_doRequest_def Some Let_def split: prod.splits sum.splits)
qed (use assms in \<open>simp add: tcp_doRequest_def\<close>)

lemma deliver_incoming_inv:
  assumes "requests_inv T"
  shows "requests_inv (snd (deliver_incoming m T))"
proof -
  have q: "requests_inv (T\<lparr>m_incoming_messages := q\<rparr>)" for q
    using assms requests_inv_cong [OF request_part_updates(4)] by blast
  have r: "requests_inv (T\<lparr>futures := (futures T)(p \<mapsto> Inr m),
        m_pending_requests := AList.delete rid (m_pending_requests T),
        m_pending_requests_ts := AList.delete rid (m_pending_requests_ts T)\<rparr>)"
    if "map_of (m_pending_requests T) rid = Some p" for rid p
    using requests_inv_resolve [OF assms, of rid "Inr m"] that by (simp add: resolve_request_def)
  show ?thesis
    using assms
    by (auto simp: deliver_incoming_def Let_def q r split: sum.split val.split scalar.split option.split)
qed

lemma keeps_catch_quiet:
  "P (snd (m w)) \<Longrightarrow> P (snd (eff_catch_std m (\<lambda>ex T. (Inr u, T)) w))"
  by (auto simp: eff_catch_std_def split: prod.split sum.split failure.split)

lemma onMessageRead_inv:
  assumes "requests_inv T"
  shows "requests_inv (snd (onMessageRead pl pack factory T))"
proof -
  let ?s = "\<lparr>sbuf = take (unat (m_incoming_data_length T)) (m_incoming_data_buffer T), sgood = True\<rparr>"
  obtain r T' where r: "createMessageFromStream pl pack factory ?s T = (r, T')" by (rule prod.exhaust)
  have "requests_inv T'"
    using requests_inv_cong [OF request_part_create, of pl pack factory ?s T] assms
    unfolding r snd_conv by (rule iffD2)
  then have T': "requests_inv (snd (case r of Inl e \<Rightarrow> (Inl e, T') | Inr None \<Rightarrow> (Inr (), T')
      | Inr (Some m) \<Rightarrow> deliver_incoming m T'))"
    using deliver_incoming_inv by (simp split: sum.split option.split)
  show ?thesis
    unfolding onMessageRead_def Let_def
    by (rule keeps_catch_quiet [where P = requests_inv]) (simp only: r prod.case T')
qed

lemma message_read_inv [inv_intros]:
  assumes "requests_inv T"
  shows "requests_inv (snd (on_message_read pl pack factory ae ec bytes T))"
proof -
  let ?T = "if ec = 0 then T\<lparr>m_incoming_data_buffer := bytes @ [0]\<rparr> else T"
  obtain g T1 where d: "disconnected ae ec ?T = (g, T1)" by (rule prod.exhaust)
  have "request_part T1 = request_part T"
    using disconnected_eq [OF d] by (auto simp: state_simps split: if_splits)
  then have T1: "requests_inv T1"
    using requests_inv_cong assms by blast
  obtain r T2 where o: "onMessageRead pl pack factory T1 = (r, T2)" by (rule prod.exhaust)
  have "requests_inv T2"
    using onMessageRead_inv [OF T1, of pl pack factory] o by simp
  moreover have "requests_inv (T\<lparr>reading := b\<rparr>) = requests_inv T"
    "requests_inv (T\<lparr>tcp_m_state := a\<rparr>) = requests_inv T" for T a b
    by (rule requests_inv_cong, simp add: state_simps)+
  ultimately show ?thesis
    using T1 by (auto simp: on_message_read_def Let_def d o readMessageLength_def split: sum.split)
qed

lemma tcp_step_inv:
  assumes "tcp_step pl pack factory ae T T'" and "requests_inv T"
  shows "requests_inv T'"
  using assms(1)
proof cases
  case (send msg r)
  then show ?thesis using request_part_doSend requests_inv_cong assms(2) by (metis snd_conv)
next
  case (receive m)
  then show ?thesis using request_part_receive requests_inv_cong assms(2) by (metis snd_conv)
next
  case (request now msg f)
  then show ?thesis using requests_inv_request [OF assms(2)] by (metis snd_conv)
next
  case (expire now)
  then show ?thesis using requests_inv_expire [OF assms(2)] by simp
next
  case stop
  then show ?thesis using assms(2) by (simp add: tcp_doStop_def)
next
  case (written ec r)
  then show ?thesis using request_part_written requests_inv_cong assms(2) by (metis snd_conv)
next
  case (length_read ec bytes)
  then show ?thesis using request_part_length_read requests_inv_cong assms(2) by metis
next
  case (message_read ec bytes r)
  then show ?thesis using message_read_inv [OF assms(2)] by (metis snd_conv)
qed

lemma tcp_run_inv: "tcp_run pl pack factory ae T \<Longrightarrow> requests_inv T"
proof (induction rule: tcp_run.induct)
  case (start s n)
  show ?case by (simp add: tcp_doStart_def readMessageLength_def tcp_new_def requests_inv_def)
qed (rule tcp_step_inv)

subsection \<open>Frames\<close>

text \<open>The bytes of a message on the wire: its length with the prefix, then its fields; no type.\<close>

definition frame :: "message \<Rightarrow> byte list" where
  "frame m = count_bytes (2 + message_serializedSize m) @ fields_wire (message_fields m)"

definition sendable :: "message \<Rightarrow> bool" where
  "sendable m \<longleftrightarrow> list_all field_ok (message_fields m)"

lemma serializedSize_wire:
  "sendable m \<Longrightarrow> message_serializedSize m = length (fields_wire (message_fields m))"
  by (simp add: sendable_def message_serializedSize_def fs_serializedSize_wire)

lemma length_frame: "sendable m \<Longrightarrow> length (frame m) = 2 + message_serializedSize m"
  by (simp add: frame_def serializedSize_wire)

lemma outgoing_length_eq: "outgoing_length m = of_nat (2 + message_serializedSize m)"
  by (simp add: outgoing_length_def)

lemma outgoing_data_frame:
  assumes "binary_pack pl pack" and "sendable m"
  shows "outgoing_data pl pack m = Inr (frame m)"
  using assms fs_serialize_wire [OF assms(1), of "msg_fieldset m"]
  by (simp add: outgoing_data_def serialize_scalar_stream empty_stream_def message_serialize_def
      sendable_def frame_def count_bytes_def outgoing_length_eq)

lemma unat_outgoing_length:
  "unat (outgoing_length m) = (2 + message_serializedSize m) mod 65536"
  unfolding outgoing_length_eq unat_of_nat by simp

text \<open>A transport with nothing to send and no write under way.\<close>

definition idle :: "tcp_transport \<Rightarrow> bool" where
  "idle T \<longleftrightarrow> m_queue (m_outgoing_messages T) = [] \<and> started_writes T = []"

definition after_send :: "message \<Rightarrow> tcp_transport \<Rightarrow> tcp_transport" where
  "after_send m T =
     T\<lparr>m_outgoing_messages := \<lparr>m_queue = []\<rparr>, m_outgoing_data_length := outgoing_length m,
       m_outgoing_data_buffer := Suc (m_outgoing_data_buffer T),
       started_writes := started_writes T @ [(Suc (m_outgoing_data_buffer T), frame m)]\<rparr>"

lemma doSend_empty_queue:
  assumes "binary_pack pl pack" and "sendable m" and "message_serializedSize m \<le> 65533"
    and "m_queue (m_outgoing_messages T) = []"
  shows "tcp_doSend pl pack (Some m) T = (Inr (), after_send m T)"
proof -
  have "\<not> length (frame m) > unat (outgoing_length m)"
    using assms(2,3) by (simp add: length_frame unat_outgoing_length)
  then show ?thesis
    using assms(4)
    by (simp add: tcp_doSend_def writeMessage_def queue_size_def internal_size_def queue_push_def
        internal_push_def queue_pull_def internal_pull_def outgoing_data_frame [OF assms(1,2)]
        resizeOutgoingDataBuffer_def after_send_def Let_def)
qed

lemma on_written_after_send:
  assumes "idle T" and "connection_refused ae \<noteq> 0" and "eof ae \<noteq> 0"
  shows "\<exists>T'. on_written pl pack ae 0 (after_send m T) = (Inr (), T') \<and> idle T'
    \<and> sent_bytes T' = sent_bytes T @ frame m"
  using assms
  by (simp add: on_written_def after_send_def idle_def disconnected_def Let_def writeMessage_def
      queue_pull_def internal_pull_def)

text \<open>Messages sent one after the other, each when the write before it is done.\<close>

primrec send_each_completed ::
  "platform \<Rightarrow> serializer list \<Rightarrow> asio_errors \<Rightarrow> message list \<Rightarrow> (tcp_transport, unit) eff" where
  "send_each_completed pl pack ae [] T = (Inr (), T)"
| "send_each_completed pl pack ae (m # ms) T =
     eff_then (tcp_doSend pl pack (Some m))
       (eff_then (on_written pl pack ae 0) (send_each_completed pl pack ae ms)) T"

lemma send_each_completed:
  assumes "binary_pack pl pack" and "connection_refused ae \<noteq> 0" and "eof ae \<noteq> 0" and "idle T"
    and "\<forall>m \<in> set ms. sendable m \<and> message_serializedSize m \<le> 65533"
  shows "\<exists>T'. send_each_completed pl pack ae ms T = (Inr (), T') \<and> idle T'
    \<and> sent_bytes T' = sent_bytes T @ concat (map frame ms)"
  using assms(4,5)
proof (induction ms arbitrary: T)
  case (Cons m ms)
  have send: "tcp_doSend pl pack (Some m) T = (Inr (), after_send m T)"
    using Cons.prems assms(1) by (intro doSend_empty_queue) (auto simp: idle_def)
  obtain T1 where T1: "on_written pl pack ae 0 (after_send m T) = (Inr (), T1)" "idle T1"
      "sent_bytes T1 = sent_bytes T @ frame m"
    using on_written_after_send [OF Cons.prems(1) assms(2,3)] by blast
  have "send_each_completed pl pack ae (m # ms) T = send_each_completed pl pack ae ms T1"
    by (simp add: eff_then_def eff_bind_def send T1(1))
  with Cons.IH [OF T1(2)] Cons.prems(2) T1(3) show ?case by simp
qed simp

subsection \<open>Results of requests\<close>

lemma resolve_keeps_results:
  assumes "requests_inv T" and "futures T p = Some x"
  shows "futures (resolve_request rid y T) p = Some x"
  using assms pending_unresolved [OF assms(1), of rid]
  by (auto simp: resolve_request_def split: option.split)

lemma resolve_all:
  assumes "requests_inv T"
  shows "m_pending_requests (fold (\<lambda>rid. resolve_request rid x) rids T)
       = filter (\<lambda>e. fst e \<notin> set rids) (m_pending_requests T)
    \<and> m_pending_requests_ts (fold (\<lambda>rid. resolve_request rid x) rids T)
       = filter (\<lambda>e. fst e \<notin> set rids) (m_pending_requests_ts T)
    \<and> (\<forall>p. futures (fold (\<lambda>rid. resolve_request rid x) rids T) p
       = (if \<exists>rid \<in> set rids. (rid, p) \<in> set (m_pending_requests T) then Some x else futures T p))"
  using assms
proof (induction rids arbitrary: T)
  case (Cons rid rids)
  let ?T = "resolve_request rid x T"
  have del: "AList.delete rid al = filter (\<lambda>e. fst e \<noteq> rid) al" for al :: "(message_id \<times> 'v) list"
    unfolding AList.delete_eq by (rule filter_cong) auto
  have keys: "fst ` set (m_pending_requests T) = fst ` set (m_pending_requests_ts T)"
    and dist: "distinct (map fst (m_pending_requests T))"
    using Cons.prems by (simp_all add: requests_inv_def)
  have other: "filter (\<lambda>e. fst e \<noteq> rid) al = al" if "rid \<notin> fst ` set al" for al :: "(message_id \<times> 'v) list"
    using that by (auto simp: filter_id_conv)
  have pend: "m_pending_requests ?T = filter (\<lambda>e. fst e \<noteq> rid) (m_pending_requests T)"
    and ts: "m_pending_requests_ts ?T = filter (\<lambda>e. fst e \<noteq> rid) (m_pending_requests_ts T)"
  proof -
    have "m_pending_requests ?T = filter (\<lambda>e. fst e \<noteq> rid) (m_pending_requests T)
        \<and> m_pending_requests_ts ?T = filter (\<lambda>e. fst e \<noteq> rid) (m_pending_requests_ts T)"
    proof (cases "map_of (m_pending_requests T) rid")
      case None
      then have "rid \<notin> fst ` set (m_pending_requests T)"
        by (simp add: map_of_eq_None_iff)
      with None other [of "m_pending_requests T"] other [of "m_pending_requests_ts T"] keys show ?thesis
        by (simp add: resolve_request_def)
    qed (simp add: resolve_request_def del)
    then show "m_pending_requests ?T = filter (\<lambda>e. fst e \<noteq> rid) (m_pending_requests T)"
      and "m_pending_requests_ts ?T = filter (\<lambda>e. fst e \<noteq> rid) (m_pending_requests_ts T)"
      by simp_all
  qed
  have fut: "futures ?T p = (if (rid, p) \<in> set (m_pending_requests T) then Some x else futures T p)" for p
    using dist by (auto simp: resolve_request_def map_of_eq_Some_iff map_of_eq_None_iff
        split: option.split intro: rev_image_eqI)
  note ih = Cons.IH [OF requests_inv_resolve [OF Cons.prems, of rid x]]
  have "filter (\<lambda>e. fst e \<notin> set rids) (filter (\<lambda>e. fst e \<noteq> rid) al)
      = filter (\<lambda>e. fst e \<notin> set (rid # rids)) al" for al :: "(message_id \<times> 'v) list"
    unfolding filter_filter by (rule filter_cong) auto
  moreover have "(if \<exists>r \<in> set rids. (r, p) \<in> set (m_pending_requests ?T) then Some x else futures ?T p)
      = (if \<exists>r \<in> set (rid # rids). (r, p) \<in> set (m_pending_requests T) then Some x else futures T p)" for p
    by (auto simp: pend fut)
  ultimately show ?case
    unfolding fold_simps(2) using ih by (simp only: pend ts) simp
qed simp

lemma expiry_effect:
  assumes "requests_inv T"
  shows "m_pending_requests_ts (tcp_removeExpiredRequests now T)
       = filter (\<lambda>(rid, ts). \<not> expired now ts) (m_pending_requests_ts T)
    \<and> (\<forall>rid p. map_of (m_pending_requests (tcp_removeExpiredRequests now T)) rid = Some p \<longleftrightarrow>
         map_of (m_pending_requests T) rid = Some p
         \<and> (\<exists>ts. map_of (m_pending_requests_ts T) rid = Some ts \<and> \<not> expired now ts))
    \<and> (\<forall>p. futures (tcp_removeExpiredRequests now T) p
         = (if \<exists>rid ts. map_of (m_pending_requests T) rid = Some p
               \<and> map_of (m_pending_requests_ts T) rid = Some ts \<and> expired now ts
            then Some (Inl (mk_exn RuntimeException ''Request is expired'')) else futures T p))"
proof -
  let ?x = "Inl (mk_exn RuntimeException ''Request is expired'')"
  let ?old = "filter (\<lambda>(rid, ts). expired now ts) (m_pending_requests_ts T)"
  let ?T = "fold (\<lambda>rid. resolve_request rid ?x) (map fst ?old) T"
  have T': "tcp_removeExpiredRequests now T = ?T"
    unfolding tcp_removeExpiredRequests_def using expire_all [OF assms expired_ids [OF assms]] by simp
  have dist: "distinct (map fst (m_pending_requests_ts T))" "distinct (map fst (m_pending_requests T))"
    and keys: "fst ` set (m_pending_requests T) = fst ` set (m_pending_requests_ts T)"
    using assms by (simp_all add: requests_inv_def)
  have old: "rid \<in> set (map fst ?old) \<longleftrightarrow> (\<exists>ts. map_of (m_pending_requests_ts T) rid = Some ts \<and> expired now ts)" for rid
    using dist(1) by force
  have pend: "(rid, p) \<in> set (m_pending_requests T) \<longleftrightarrow> map_of (m_pending_requests T) rid = Some p" for rid p
    using dist(2) by simp
  note all = resolve_all [OF assms, of ?x "map fst ?old"]
  have ts: "filter (\<lambda>e. fst e \<notin> set (map fst ?old)) (m_pending_requests_ts T)
      = filter (\<lambda>(rid, ts). \<not> expired now ts) (m_pending_requests_ts T)"
  proof (rule filter_cong [OF refl])
    fix e assume "e \<in> set (m_pending_requests_ts T)"
    then have "map_of (m_pending_requests_ts T) (fst e) = Some (snd e)"
      using dist(1) by simp
    then show "(fst e \<notin> set (map fst ?old)) = (case e of (rid, ts) \<Rightarrow> \<not> expired now ts)"
      unfolding old by (simp add: split_def)
  qed
  have "map_of (filter (\<lambda>e. fst e \<notin> R) al) rid = (if rid \<in> R then None else map_of al rid)"
    for R and al :: "(message_id \<times> future_message) list" and rid
    by (induction al) auto
  moreover have "rid \<notin> set (map fst ?old) \<longleftrightarrow> (\<exists>ts. map_of (m_pending_requests_ts T) rid = Some ts \<and> \<not> expired now ts)"
    if "map_of (m_pending_requests T) rid = Some p" for rid p
  proof -
    have "rid \<in> fst ` set (m_pending_requests_ts T)"
      unfolding keys [symmetric] using map_of_SomeD [OF that] by force
    then obtain ts where "map_of (m_pending_requests_ts T) rid = Some ts"
      by (metis map_of_eq_None_iff not_None_eq)
    then show ?thesis by (simp add: old del: set_map)
  qed
  ultimately have "map_of (m_pending_requests ?T) rid = Some p \<longleftrightarrow> map_of (m_pending_requests T) rid = Some p
         \<and> (\<exists>ts. map_of (m_pending_requests_ts T) rid = Some ts \<and> \<not> expired now ts)" for rid p
    using all by (metis option.distinct(1))
  moreover have "(\<exists>rid \<in> set (map fst ?old). (rid, p) \<in> set (m_pending_requests T)) \<longleftrightarrow>
      (\<exists>rid ts. map_of (m_pending_requests T) rid = Some p
         \<and> map_of (m_pending_requests_ts T) rid = Some ts \<and> expired now ts)" for p
    unfolding pend Bex_def old by blast
  ultimately show ?thesis
    using all unfolding T' ts by simp
qed

lemma request_part_futures: "request_part T' = request_part T \<Longrightarrow> futures T' = futures T"
  by (simp add: request_part_def)

lemma request_keeps_results:
  assumes "requests_inv T" and "futures T p = Some x"
  shows "futures (snd (tcp_doRequest pl pack now msg T)) p = Some x"
proof -
  have "p \<noteq> next_future T"
    using assms by (auto simp: requests_inv_def)
  then have new: "futures (T\<lparr>next_future := n, m_pending_requests := a, futures := (if b then futures T
      else (futures T)(next_future T \<mapsto> y)), m_pending_requests_ts := ts\<rparr>) p = Some x" for n a b y ts
    using assms(2) by simp
  have send: "futures (snd (tcp_doSend pl pack msg T1)) p = Some x" if "futures T1 p = Some x" for T1
    using that request_part_futures [OF request_part_doSend, of pl pack msg T1] by simp
  have "futures (snd (case r of (Inl e, T2) \<Rightarrow> (Inl e, T2) | (Inr u, T2) \<Rightarrow> (Inr v, T2))) p = Some x"
    if "futures (snd r) p = Some x" for r :: "unit outcome \<times> tcp_transport" and v :: future_message
    using that by (cases r; cases "fst r") auto
  note case_result = this [OF send [OF new]]
  show ?thesis
    using assms(2) case_result by (cases msg) (simp_all add: tcp_doRequest_def Let_def)
qed

lemma deliver_incoming_keeps_results:
  "futures T p = Some x \<Longrightarrow> futures (snd (deliver_incoming m T)) p = Some x"
  by (auto simp: deliver_incoming_def Let_def split: sum.split val.split scalar.split option.split)

lemma message_read_keeps_results:
  assumes "futures T p = Some x"
  shows "futures (snd (on_message_read pl pack factory ae ec bytes T)) p = Some x"
proof -
  let ?T = "if ec = 0 then T\<lparr>m_incoming_data_buffer := bytes @ [0]\<rparr> else T"
  obtain g T1 where d: "disconnected ae ec ?T = (g, T1)" by (rule prod.exhaust)
  have T1: "futures T1 p = Some x"
    using disconnected_eq [OF d] assms by (auto simp: request_part_def split: if_splits)
  let ?s = "\<lparr>sbuf = take (unat (m_incoming_data_length T1)) (m_incoming_data_buffer T1), sgood = True\<rparr>"
  obtain r T2 where c: "createMessageFromStream pl pack factory ?s T1 = (r, T2)" by (rule prod.exhaust)
  have T2: "futures T2 p = Some x"
    using request_part_futures [OF request_part_create, of pl pack factory ?s T1] T1 unfolding c by simp
  have T2': "futures (snd (case r of Inl e \<Rightarrow> (Inl e, T2) | Inr None \<Rightarrow> (Inr (), T2)
      | Inr (Some m) \<Rightarrow> deliver_incoming m T2)) p = Some x"
    using T2 deliver_incoming_keeps_results by (simp split: sum.split option.split)
  have "futures (snd (onMessageRead pl pack factory T1)) p = Some x"
    unfolding onMessageRead_def Let_def
    by (rule keeps_catch_quiet [where P = "\<lambda>T. futures T p = Some x"]) (simp only: c prod.case T2')
  then show ?thesis
    using T1 by (auto simp: on_message_read_def Let_def d readMessageLength_def split: sum.split prod.split)
qed

lemma tcp_step_results:
  assumes "tcp_step pl pack factory ae T T'" and "requests_inv T" and "futures T p = Some x"
  shows "futures T' p = Some x"
  using assms(1)
proof cases
  case (send msg r)
  then show ?thesis using request_part_futures [OF request_part_doSend] assms(3) by (metis snd_conv)
next
  case (receive m)
  then show ?thesis using request_part_futures [OF request_part_receive] assms(3) by (metis snd_conv)
next
  case (request now msg f)
  then show ?thesis using request_keeps_results [OF assms(2,3)] by (metis snd_conv)
next
  case (expire now)
  then show ?thesis using expiry_effect [OF assms(2), of now] assms(2,3) pending_unresolved by fastforce
next
  case stop
  then show ?thesis using assms(3) by (simp add: tcp_doStop_def)
next
  case (written ec r)
  then show ?thesis using request_part_futures [OF request_part_written] assms(3) by (metis snd_conv)
next
  case (length_read ec bytes)
  then show ?thesis using request_part_futures [OF request_part_length_read] assms(3) by metis
next
  case (message_read ec bytes r)
  then show ?thesis using message_read_keeps_results [OF assms(3)] by (metis snd_conv)
qed

subsection \<open>Properties\<close>

text \<open>An example\<close>

definition demo_asio :: asio_errors where
  "demo_asio = \<lparr>connection_refused = 111, eof = 2\<rparr>"

definition demo_tcp :: tcp_transport where
  "demo_tcp = tcp_doStart (tcp_new\<lparr>tcp_m_session := Some 5, tcp_ids := 1\<rparr>)"

lemma demo_sendable: "sendable demo_message" "message_serializedSize demo_message = 4"
proof -
  show s: "sendable demo_message"
    by (simp add: sendable_def demo_message_ok)
  show "message_serializedSize demo_message = 4"
    unfolding serializedSize_wire [OF s]
    by (simp add: demo_message(2) demo_fields_def fields_wire_def bytes_le_explicit)
qed

lemma demo_idle: "idle demo_tcp"
  by (simp add: demo_tcp_def tcp_doStart_def readMessageLength_def tcp_new_def idle_def queue_new_def)

lemma demo_run: "tcp_run pl pack factory ae demo_tcp"
  unfolding demo_tcp_def by (rule tcp_run.start)

text \<open>C20: Sending: when each write is done before the next message is sent, an idle transport writes
  exactly the frames of the messages, in order, and is idle again; a frame is the 16-bit
  length (prefix included) and the serialized fields.\<close>

theorem sequential_sends_write_frames:
  assumes "binary_pack pl pack" and "connection_refused ae \<noteq> 0" and "eof ae \<noteq> 0" and "idle T"
    and "\<forall>m \<in> set ms. sendable m \<and> message_serializedSize m \<le> 65533"
  shows "\<exists>T'. send_each_completed pl pack ae ms T = (Inr (), T') \<and> idle T'
    \<and> sent_bytes T' = sent_bytes T @ concat (map frame ms)"
  using assms by (rule send_each_completed)

theorem sequential_sends_write_frames_witness:
  "\<exists>T'. send_each_completed demo_platform (field_serializer demo_platform) demo_asio
        [demo_message, demo_message] demo_tcp = (Inr (), T')
     \<and> sent_bytes T' = frame demo_message @ frame demo_message"
proof -
  have "sent_bytes demo_tcp = []"
    by (simp add: demo_tcp_def tcp_doStart_def readMessageLength_def tcp_new_def)
  then show ?thesis
    using sequential_sends_write_frames [OF binary_pack_single _ _ demo_idle,
        of demo_asio "[demo_message, demo_message]" demo_platform] demo_sendable
    by (auto simp: demo_asio_def)
qed

text \<open>C35: Sending a second message while the write of the first is under way starts a second write and
  frees the buffer of the first: the queue is already empty again, so \<^verbatim>\<open>doSend\<close> does not
  see that a write is in progress.\<close>

theorem overlapping_send_frees_buffer:
  assumes "binary_pack pl pack" and "idle T"
    and "sendable m1" "message_serializedSize m1 \<le> 65533"
    and "sendable m2" "message_serializedSize m2 \<le> 65533"
  shows "\<exists>T1 T2. tcp_doSend pl pack (Some m1) T = (Inr (), T1)
      \<and> tcp_doSend pl pack (Some m2) T1 = (Inr (), T2)
      \<and> map snd (started_writes T2) = [frame m1, frame m2]
      \<and> fst (on_written pl pack ae 0 T2) = Inl (Fault DanglingReference)"
proof -
  have "tcp_doSend pl pack (Some m1) T = (Inr (), after_send m1 T)"
    using assms by (intro doSend_empty_queue) (auto simp: idle_def)
  moreover have "tcp_doSend pl pack (Some m2) (after_send m1 T) = (Inr (), after_send m2 (after_send m1 T))"
    using assms by (intro doSend_empty_queue) (auto simp: after_send_def)
  ultimately show ?thesis
    using assms(2) by (auto simp: after_send_def idle_def on_written_def Let_def)
qed

theorem overlapping_send_frees_buffer_witness:
  "\<exists>T1 T2. tcp_doSend demo_platform (field_serializer demo_platform) (Some demo_message) demo_tcp = (Inr (), T1)
      \<and> tcp_doSend demo_platform (field_serializer demo_platform) (Some demo_message) T1 = (Inr (), T2)
      \<and> map snd (started_writes T2) = [frame demo_message, frame demo_message]
      \<and> fst (on_written demo_platform (field_serializer demo_platform) demo_asio 0 T2)
        = Inl (Fault DanglingReference)"
  by (rule overlapping_send_frees_buffer [OF binary_pack_single demo_idle])
    (simp_all add: demo_sendable)

text \<open>C36: A message of 65534 bytes or more overruns the outgoing buffer: the 16-bit length wraps, the
  buffer has that length, and all serialized bytes are copied into it.\<close>

theorem oversized_message_overflows:
  assumes "binary_pack pl pack" and "idle T" and "sendable m" and "message_serializedSize m \<ge> 65534"
  shows "fst (tcp_doSend pl pack (Some m) T) = Inl (Fault BufferOverflow)"
proof -
  have "unat (outgoing_length m) < 65536"
    by (simp add: unat_outgoing_length)
  then have "length (frame m) > unat (outgoing_length m)"
    using assms(3,4) by (simp add: length_frame)
  then show ?thesis
    using assms(2)
    by (simp add: idle_def tcp_doSend_def writeMessage_def queue_size_def internal_size_def queue_push_def
        internal_push_def queue_pull_def internal_pull_def outgoing_data_frame [OF assms(1,3)]
        resizeOutgoingDataBuffer_def Let_def)
qed

text \<open>A message with 65535 bytes in one field.\<close>

definition big_descriptor :: message_descriptor where
  "big_descriptor = md_new 9"

definition big_message :: message where
  "big_message =
     (let f = \<lparr>fld_name = ''d'', fld_typeid = 3, fld_type = SeqT (ScalarT I8),
                fld_value = VSeq (replicate 65533 (VScalar (SI8 1)))\<rparr>
      in \<lparr>msg_id = 1, msg_type = 9, msg_fieldset = kl_add fld_name f fs_new, msg_session = None\<rparr>)"

lemma big_message: "sendable big_message" "message_serializedSize big_message = 65535"
proof -
  let ?f = "\<lparr>fld_name = ''d'', fld_typeid = 3, fld_type = SeqT (ScalarT I8),
                fld_value = VSeq (replicate 65533 (VScalar (SI8 1)))\<rparr>"
  have items: "message_fields big_message = [?f]"
    using kl_add(2) [of fld_name kl_empty ?f]
    by (simp add: big_message_def fs_new_def insert_before_last_def)
  then show s: "sendable big_message"
    by (simp add: sendable_def field_ok_def list_all_length)
  have "length (concat (replicate n [b])) = n" for n and b :: byte
    by (induction n) simp_all
  then show "message_serializedSize big_message = 65535"
    unfolding serializedSize_wire [OF s] by (simp add: items fields_wire_def bytes_le_explicit)
qed

theorem oversized_message_overflows_witness:
  "fst (tcp_doSend demo_platform (field_serializer demo_platform) (Some big_message) demo_tcp)
     = Inl (Fault BufferOverflow)"
  by (rule oversized_message_overflows [OF binary_pack_single demo_idle big_message(1)])
    (simp add: big_message(2))

text \<open>C34: The two ends of a connection disagree about frames.  Of a frame the reader takes the length,
  then reads that many bytes although two fewer are left, so it waits for the next frame and
  takes its first bytes; and it looks up the first two bytes of the payload as the message
  type, which the writer never wrote.  When no such type is registered the message is
  dropped without a report.\<close>

theorem reader_misreads_frames:
  assumes "\<not> big_endian pl" and "sendable m" and "message_serializedSize m \<le> 65533"
    and "connection_refused ae \<noteq> 0" and "eof ae \<noteq> 0" and "length rest \<ge> 2"
    and "T1 = on_length_read pl ae 0 (take 2 (frame m @ rest)) T"
    and "bytes = take (unat (m_incoming_data_length T1)) (drop 2 (frame m @ rest))"
    and "factory (of_bytes_le (take 2 (fields_wire (message_fields m) @ rest))) = None"
  shows "unat (m_incoming_data_length T1) = length (drop 2 (frame m)) + 2
    \<and> bytes = drop 2 (frame m) @ take 2 rest
    \<and> (\<exists>T2. on_message_read pl pack factory ae 0 bytes T1 = (Inr (), T2)
        \<and> m_incoming_messages T2 = m_incoming_messages T \<and> futures T2 = futures T)"
proof -
  let ?payload = "fields_wire (message_fields m)"
  have size: "message_serializedSize m = length ?payload"
    using assms(2) by (rule serializedSize_wire)
  have frame: "take 2 (frame m @ rest) = count_bytes (2 + length ?payload)"
    "drop 2 (frame m @ rest) = ?payload @ rest" "drop 2 (frame m) = ?payload"
    by (simp_all add: frame_def size)
  have T1: "m_incoming_data_length T1 = of_nat (2 + length ?payload)"
    "m_incoming_messages T1 = m_incoming_messages T" "futures T1 = futures T"
    using assms(1,4,5) unfolding assms(7) frame(1)
    by (simp_all add: on_length_read_def disconnected_def native_image_def count_bytes_def Let_def
        resizeIncomingDataBuffer_def)
  have len: "unat (m_incoming_data_length T1) = 2 + length ?payload"
    unfolding T1(1) unat_of_nat using assms(3) size by simp
  have bytes: "bytes = ?payload @ take 2 rest"
    unfolding assms(8) len frame(2) by simp
  have head: "bytes = take 2 bytes @ drop 2 bytes" "length (take 2 bytes) = 2"
    using assms(6) by (simp, simp add: bytes)
  define w :: "16 word" where "w = of_bytes_le (take 2 bytes)"
  have w: "take 2 bytes = bytes_le w"
    unfolding w_def by (rule bytes_le_of_bytes_le [symmetric]) (simp only: head(2), simp)
  have "take 2 (?payload @ rest) = take 2 bytes"
    by (simp add: bytes)
  then have type: "factory w = None"
    using assms(9) by (simp add: w_def)
  have "deserialize_scalar pl I16 (Some (SI16 0)) (bin_stream bytes)
      = Inr (SI16 w, bin_stream (drop 2 bytes))"
    using deserialize_scalar_exact [of "SI16 w" I16 "Some (SI16 0)" pl BinarySerializerTag "drop 2 bytes"]
      head(1) w by simp
  then have "createMessageFromStream pl pack factory \<lparr>sbuf = bytes, sgood = True\<rparr> T' = (Inr None, T')" for T'
    using type by (simp add: createMessageFromStream_def hasDescriptor_def)
  then have "on_message_read pl pack factory ae 0 bytes T1
      = (Inr (), readMessageLength (T1\<lparr>m_incoming_data_buffer := bytes @ [0]\<rparr>))"
    using assms(4,5,6) len
    by (simp add: on_message_read_def disconnected_def onMessageRead_def eff_catch_std_def Let_def bytes)
  then show ?thesis
    using len bytes frame(3) T1 by (simp add: readMessageLength_def)
qed

theorem reader_misreads_frames_witness:
  "unat (m_incoming_data_length (on_length_read demo_platform demo_asio 0 (take 2 (frame demo_message @ frame demo_message)) demo_tcp)) = 6
   \<and> (\<exists>T2. on_message_read demo_platform (field_serializer demo_platform) [7 \<mapsto> demo_descriptor] demo_asio 0
        [0, 0, 0, 0, 6, 0]
        (on_length_read demo_platform demo_asio 0 (take 2 (frame demo_message @ frame demo_message)) demo_tcp)
        = (Inr (), T2) \<and> m_incoming_messages T2 = m_incoming_messages demo_tcp)"
proof -
  let ?T1 = "on_length_read demo_platform demo_asio 0 (take 2 (frame demo_message @ frame demo_message)) demo_tcp"
  let ?bytes = "take (unat (m_incoming_data_length ?T1)) (drop 2 (frame demo_message @ frame demo_message))"
  have fields: "fields_wire (message_fields demo_message) = [0, 0, 0, 0]"
    by (simp add: demo_message(2) demo_fields_def fields_wire_def bytes_le_explicit count_bytes_def)
  have frame: "frame demo_message = [6, 0, 0, 0, 0, 0]"
    by (simp add: frame_def fields demo_sendable(2) count_bytes_def bytes_le_explicit)
  have type: "[7 \<mapsto> demo_descriptor] (of_bytes_le (take 2 (fields_wire (message_fields demo_message) @ frame demo_message)) :: message_type) = None"
    by (simp add: fields)
  have "\<not> big_endian demo_platform" "message_serializedSize demo_message \<le> 65533"
    "connection_refused demo_asio \<noteq> 0" "eof demo_asio \<noteq> 0" "length (frame demo_message) \<ge> 2"
    by (simp_all add: demo_platform_def demo_asio_def demo_sendable(2) frame)
  note r = reader_misreads_frames [of demo_platform demo_message demo_asio "frame demo_message" ?T1 demo_tcp
      ?bytes "[7 \<mapsto> demo_descriptor]" "field_serializer demo_platform",
      OF this(1) demo_sendable(1) this(2-5) refl refl type]
  have "?bytes = [0, 0, 0, 0, 6, 0]"
    using conjunct1 [OF conjunct2 [OF r]] by (simp only: frame) simp
  moreover have "unat (m_incoming_data_length ?T1) = 6"
    using conjunct1 [OF r] by (simp only: frame) simp
  ultimately show ?thesis
    using conjunct2 [OF conjunct2 [OF r]] by auto
qed

text \<open>C10: Requests: in every reachable state the two maps of pending requests have the same
  identifiers, each with a promise of its own that has no result yet, and every promise
  handed out either is pending or has a result; a result once given never changes.\<close>

theorem requests_are_answered_once:
  assumes "tcp_run pl pack factory ae T" and "tcp_step pl pack factory ae T T'"
  shows "requests_inv T \<and> requests_inv T'
    \<and> (\<forall>p x. futures T p = Some x \<longrightarrow> futures T' p = Some x)"
  using tcp_run_inv [OF assms(1)] tcp_step_inv [OF assms(2)] tcp_step_results [OF assms(2)] by blast

text \<open>C32: Expiry: \<^verbatim>\<open>removeExpiredRequests\<close> removes exactly the requests that are older than 30 whole
  seconds, from both maps, answers each of them with a \<^verbatim>\<open>RuntimeException\<close> and leaves every
  other promise as it is.\<close>

theorem expiry_answers_old_requests:
  assumes "requests_inv T"
  shows "m_pending_requests_ts (tcp_removeExpiredRequests now T)
       = filter (\<lambda>(rid, ts). \<not> expired now ts) (m_pending_requests_ts T)
    \<and> (\<forall>rid p. map_of (m_pending_requests (tcp_removeExpiredRequests now T)) rid = Some p \<longleftrightarrow>
         map_of (m_pending_requests T) rid = Some p
         \<and> (\<exists>ts. map_of (m_pending_requests_ts T) rid = Some ts \<and> \<not> expired now ts))
    \<and> (\<forall>p. futures (tcp_removeExpiredRequests now T) p
         = (if \<exists>rid ts. map_of (m_pending_requests T) rid = Some p
               \<and> map_of (m_pending_requests_ts T) rid = Some ts \<and> expired now ts
            then Some (Inl (mk_exn RuntimeException ''Request is expired'')) else futures T p))"
  by (rule expiry_effect [OF assms])

definition demo_pending :: tcp_transport where
  "demo_pending = demo_tcp\<lparr>m_pending_requests := [(3, 0)], m_pending_requests_ts := [(3, 0)], next_future := 1\<rparr>"

lemma demo_pending_inv: "requests_inv demo_pending"
  by (simp add: requests_inv_def demo_pending_def demo_tcp_def tcp_doStart_def readMessageLength_def
      tcp_new_def)

theorem requests_are_answered_once_witness:
  "requests_inv (snd (tcp_doRequest demo_platform (field_serializer demo_platform) 0 (Some demo_message) demo_tcp))"
proof -
  have "tcp_step demo_platform (field_serializer demo_platform) Map.empty demo_asio demo_tcp
      (snd (tcp_doRequest demo_platform (field_serializer demo_platform) 0 (Some demo_message) demo_tcp))"
    by (rule tcp_step.request, rule surjective_pairing)
  from requests_are_answered_once [OF demo_run this] show ?thesis by blast
qed

theorem expiry_answers_old_requests_witness:
  "futures (tcp_removeExpiredRequests 31000000000 demo_pending) 0
     = Some (Inl (mk_exn RuntimeException ''Request is expired''))
   \<and> m_pending_requests_ts (tcp_removeExpiredRequests 30999999999 demo_pending) = [(3, 0)]"
proof -
  have state: "m_pending_requests demo_pending = [(3, 0)]" "m_pending_requests_ts demo_pending = [(3, 0)]"
    by (simp_all add: demo_pending_def)
  have "expired 31000000000 0" "\<not> expired 30999999999 0"
    by (simp_all add: expired_def)
  with expiry_answers_old_requests [OF demo_pending_inv, of 31000000000]
    expiry_answers_old_requests [OF demo_pending_inv, of 30999999999] state
  show ?thesis by auto
qed

text \<open>Responses: a message whose \<^verbatim>\<open>srcMsgId\<close> field names a pending request answers that request and
  is not queued; one that names no pending request is queued like any other message.\<close>

theorem response_answers_its_request:
  assumes "requests_inv T" and "message_hasField ''srcMsgId'' m"
    and "message_field_get typeid_MessageId ''srcMsgId'' m = Inr (VScalar (SI32 rid))"
  shows "deliver_incoming m T
    = (Inr (), if map_of (m_pending_requests T) rid \<noteq> None then resolve_request rid (Inr m) T
               else T\<lparr>m_incoming_messages := queue_push (Some m) (m_incoming_messages T)\<rparr>)"
  using assms pending_unresolved [OF assms(1), of rid]
  by (auto simp: deliver_incoming_def resolve_request_def Let_def split: option.split)

text \<open>The message of type 7 with one 4-byte field \<^verbatim>\<open>srcMsgId\<close> of value 3.\<close>

definition demo_response :: message where
  "demo_response =
     (let f = \<lparr>fld_name = ''srcMsgId'', fld_typeid = typeid_MessageId, fld_type = ScalarT I32,
                fld_value = VScalar (SI32 3)\<rparr>
      in \<lparr>msg_id = 9, msg_type = 7, msg_fieldset = kl_add fld_name f fs_new, msg_session = None\<rparr>)"

theorem response_answers_its_request_witness:
  "futures (snd (deliver_incoming demo_response demo_pending)) 0 = Some (Inr demo_response)"
proof -
  have "message_hasField ''srcMsgId'' demo_response"
    "message_field_get typeid_MessageId ''srcMsgId'' demo_response = Inr (VScalar (SI32 3))"
    by code_simp+
  from response_answers_its_request [OF demo_pending_inv this] show ?thesis
    by (simp add: demo_pending_def resolve_request_def)
qed

subsection \<open>The state that \<^verbatim>\<open>Service\<close> reports\<close>

definition tcp_running :: "tcp_transport \<Rightarrow> bool" where
  "tcp_running T \<longleftrightarrow> tcp_m_state T = Started \<or> tcp_m_state T = StopPending"

lemma m_state_send [state_simps]:
  "tcp_m_state (snd (writeMessage pl pack T)) = tcp_m_state T"
  "tcp_m_state (snd (tcp_doSend pl pack msg T)) = tcp_m_state T"
  by (auto simp: tcp_doSend_def writeMessage_def Let_def resizeOutgoingDataBuffer_def
      split: prod.split option.split sum.split)

lemma snd_pass_error [simp]:
  "snd (case x of (Inl e, T) \<Rightarrow> (Inl e, T) | (Inr u, T) \<Rightarrow> (Inr p, T)) = snd x"
  by (simp split: prod.split sum.split)

lemma m_state_request [state_simps]: "tcp_m_state (snd (tcp_doRequest pl pack now msg T)) = tcp_m_state T"
  by (simp add: tcp_doRequest_def Let_def state_simps split: option.split)

lemma m_state_expire [state_simps]: "tcp_m_state (tcp_removeExpiredRequests now T) = tcp_m_state T"
proof -
  have "tcp_m_state (fold expire_request rids T) = tcp_m_state T" for rids
    by (induction rids arbitrary: T) (simp_all add: expire_request_def Let_def split: option.split)
  then show ?thesis by (simp add: tcp_removeExpiredRequests_def)
qed

lemma m_state_deliver [state_simps]: "tcp_m_state (snd (deliver_incoming m T)) = tcp_m_state T"
  by (auto simp: deliver_incoming_def Let_def split: sum.split val.split scalar.split option.split)

lemma m_state_create [state_simps]:
  "tcp_m_state (snd (createMessageFromStream pl pack factory stream T)) = tcp_m_state T"
  by (auto simp: createMessageFromStream_def Let_def split: sum.split prod.split scalar.split option.split)

lemma m_state_message [state_simps]: "tcp_m_state (snd (onMessageRead pl pack factory T)) = tcp_m_state T"
  unfolding onMessageRead_def Let_def
  by (rule keeps_catch_quiet [where P = "\<lambda>T'. tcp_m_state T' = tcp_m_state T"])
    (auto simp: state_simps split: prod.split sum.split option.split dest: arg_cong [where f = "tcp_m_state \<circ> snd"])
lemma tcp_running_updates [state_simps]:
  "tcp_running (T\<lparr>tcp_m_state := StopPending\<rparr>)"
  "tcp_m_state T' = tcp_m_state T \<Longrightarrow> tcp_running T' = tcp_running T"
  by (simp_all add: tcp_running_def)

lemma running_disconnected:
  assumes "disconnected ae ec T = (g, T')" and "tcp_running T"
  shows "tcp_running T'"
  using disconnected_eq [OF assms(1)] assms(2) by (auto simp: tcp_running_def)

lemma running_written: "tcp_running T \<Longrightarrow> tcp_running (snd (on_written pl pack ae ec T))"
  by (auto simp: on_written_def Let_def tcp_running_def state_simps
      split: list.split prod.split dest!: disconnected_eq)

lemma running_length_read: "tcp_running T \<Longrightarrow> tcp_running (on_length_read pl ae ec bytes T)"
  by (auto simp: on_length_read_def Let_def tcp_running_def resizeIncomingDataBuffer_def
      split: prod.split dest!: disconnected_eq)

lemma running_message_read:
  assumes "tcp_running T"
  shows "tcp_running (snd (on_message_read pl pack factory ae ec bytes T))"
proof -
  let ?T = "if ec = 0 then T\<lparr>m_incoming_data_buffer := bytes @ [0]\<rparr> else T"
  obtain g T1 where d: "disconnected ae ec ?T = (g, T1)" by (rule prod.exhaust)
  have T1: "tcp_running T1"
    by (rule running_disconnected [OF d]) (use assms in \<open>simp add: tcp_running_def\<close>)
  have "tcp_running (snd (onMessageRead pl pack factory T1))"
    using T1 by (simp add: tcp_running_def state_simps)
  then show ?thesis
    using T1 by (auto simp: on_message_read_def Let_def d readMessageLength_def tcp_running_def
        split: sum.split prod.split)
qed

lemma tcp_step_running:
  assumes "tcp_step pl pack factory ae T T'" and "tcp_running T"
  shows "tcp_running T'"
  using assms(1)
proof cases
  case (receive m)
  then have "tcp_m_state T' = tcp_m_state T"
    by (auto simp: tcp_doReceive_def split: if_splits prod.splits)
  then show ?thesis using assms(2) by (simp add: tcp_running_def)
next
  case (written ec r)
  then show ?thesis using running_written [OF assms(2)] by (metis snd_conv)
next
  case (length_read ec bytes)
  then show ?thesis using running_length_read [OF assms(2)] by simp
next
  case (message_read ec bytes r)
  then show ?thesis using running_message_read [OF assms(2)] by (metis snd_conv)
qed (use assms(2) in \<open>auto simp: tcp_running_def state_simps tcp_doStop_def
      dest!: arg_cong [where f = "tcp_m_state \<circ> snd"]\<close>)

text \<open>A transport that was started never reports \<^verbatim>\<open>Stopped\<close>, not even after \<^verbatim>\<open>stop()\<close>: \<^verbatim>\<open>doStop\<close>
  cancels and closes the socket but leaves the state alone, and every other handler sets it
  to \<^verbatim>\<open>StopPending\<close> at most.\<close>

theorem started_transport_never_stopped:
  assumes "tcp_run pl pack factory ae T"
  shows "tcp_m_state T = Started \<or> tcp_m_state T = StopPending"
  using assms unfolding tcp_running_def [symmetric]
proof (induction rule: tcp_run.induct)
  case (start s n)
  show ?case by (simp add: tcp_doStart_def readMessageLength_def tcp_running_def)
qed (rule tcp_step_running)

theorem started_transport_never_stopped_witness:
  "tcp_m_state (tcp_doStop demo_tcp) = Started \<or> tcp_m_state (tcp_doStop demo_tcp) = StopPending"
  by (rule started_transport_never_stopped [OF tcp_run.step [OF demo_run tcp_step.stop]])

end
