(* ===== verification/Maybe_Result.thy ===== *)
theory Maybe_Result
  imports Effects
begin

text \<open>
  \<^verbatim>\<open>base/maybe.hpp\<close>, \<^verbatim>\<open>base/result.hpp\<close> and \<^verbatim>\<open>utility/value_holder.hpp\<close>.  A
  \<^verbatim>\<open>Maybe<T>\<close> is a \<^verbatim>\<open>std::variant<None, T>\<close>, which loses its value when the construction of
  a new one throws; a \<^verbatim>\<open>Maybe<T&>\<close> is a pointer; a \<^verbatim>\<open>Result<T, E>\<close> is a variant that starts
  out with neither a value nor an error.  What copying and moving a \<^verbatim>\<open>T\<close> does is a
  parameter.
\<close>

subsection \<open>Copying and moving a value\<close>

text \<open>
  The state of an assignment is the target, for a move with the source beside it; that
  of a move construction is the source.
\<close>

record 'a cpp_type =
  copy_construct :: "'a \<Rightarrow> 'a outcome"
  copy_assign :: "'a \<Rightarrow> ('a, unit) eff"
  move_construct :: "('a, 'a) eff"
  move_assign :: "('a \<times> 'a, unit) eff"
  nothrow_copy_construct :: bool
  nothrow_copy_assign :: bool
  nothrow_move_construct :: bool
  nothrow_move_assign :: bool

definition noexcept_if :: "bool \<Rightarrow> ('w, 'a) eff \<Rightarrow> ('w, 'a) eff" where
  "noexcept_if b m = (if b then eff_noexcept m else m)"

lemma noexcept_if_pure [simp]:
  "noexcept_if b (Pair (Inr x)) = Pair (Inr x)"
  "noexcept_if False m = m"
  by (auto simp: noexcept_if_def eff_noexcept_def)

lemma noexcept_if_returns: "m w = (Inr x, w') \<Longrightarrow> noexcept_if b m w = (Inr x, w')"
  by (simp add: noexcept_if_def eff_noexcept_def)

text \<open>A type whose operations do what their names and their \<^verbatim>\<open>noexcept\<close> say.\<close>

definition truthful :: "'a cpp_type \<Rightarrow> bool" where
  "truthful t \<longleftrightarrow>
     (\<forall>x e. nothrow_copy_construct t \<longrightarrow> copy_construct t x \<noteq> Inl e)
     \<and> (\<forall>x e. nothrow_move_construct t \<longrightarrow> fst (move_construct t x) \<noteq> Inl e)
     \<and> (\<forall>x y. copy_construct t x = Inr y \<longrightarrow> y = x)
     \<and> (\<forall>x y. fst (move_construct t x) = Inr y \<longrightarrow> y = x)
     \<and> (\<forall>x y. fst (copy_assign t x y) = Inr () \<longrightarrow> snd (copy_assign t x y) = x)
     \<and> (\<forall>x y. fst (move_assign t (x, y)) = Inr () \<longrightarrow> fst (snd (move_assign t (x, y))) = y)"

lemma truthfulD:
  assumes "truthful t"
  shows "nothrow_copy_construct t \<Longrightarrow> copy_construct t x \<noteq> Inl e"
    and "nothrow_move_construct t \<Longrightarrow> fst (move_construct t x) \<noteq> Inl e"
    and "copy_construct t x = Inr y \<Longrightarrow> y = x"
    and "fst (move_construct t x) = Inr y \<Longrightarrow> y = x"
    and "fst (copy_assign t x z) = Inr () \<Longrightarrow> snd (copy_assign t x z) = x"
    and "fst (move_assign t (z, x)) = Inr () \<Longrightarrow> fst (snd (move_assign t (z, x))) = x"
  using assms by (simp_all add: truthful_def)

text \<open>A built-in type, and one whose copies may fail.\<close>

definition plain_type :: "'a cpp_type" where
  "plain_type =
     \<lparr>copy_construct = Inr, copy_assign = (\<lambda>x y. (Inr (), x)),
      move_construct = (\<lambda>x. (Inr x, x)), move_assign = (\<lambda>(x, y). (Inr (), y, y)),
      nothrow_copy_construct = True, nothrow_copy_assign = True,
      nothrow_move_construct = True, nothrow_move_assign = True\<rparr>"

lemma plain_type_truthful [simp]: "truthful plain_type"
  by (auto simp: truthful_def plain_type_def)

subsection \<open>Maybe of a value\<close>

datatype 'a maybe = Nothing | Just 'a | Valueless

text \<open>\<^verbatim>\<open>m_var = other.m_var\<close>, \<^verbatim>\<open>m_var = std::move(other.m_var)\<close>: assignment of variants.\<close>

definition emplace :: "'a outcome \<Rightarrow> ('a maybe, unit) eff" where
  "emplace r m = (case r of Inl e \<Rightarrow> (Inl e, Valueless) | Inr x \<Rightarrow> (Inr (), Just x))"

definition variant_copy_assign :: "'a cpp_type \<Rightarrow> 'a maybe \<Rightarrow> ('a maybe, unit) eff" where
  "variant_copy_assign t other m =
     (case other of
        Just y \<Rightarrow>
          (case m of
             Just x \<Rightarrow> let (r, x') = copy_assign t y x in (r, Just x')
           | _ \<Rightarrow>
               if nothrow_copy_construct t \<or> \<not> nothrow_move_construct t then emplace (copy_construct t y) m
               else (case copy_construct t y of
                       Inl e \<Rightarrow> (Inl e, m)
                     | Inr z \<Rightarrow> emplace (fst (move_construct t z)) m))
      | _ \<Rightarrow> (Inr (), other))"

definition variant_move_assign :: "'a cpp_type \<Rightarrow> ('a maybe \<times> 'a maybe, unit) eff" where
  "variant_move_assign t = (\<lambda>(m, other).
     (case other of
        Just y \<Rightarrow>
          (case m of
             Just x \<Rightarrow> let (r, x', y') = move_assign t (x, y) in (r, Just x', Just y')
           | _ \<Rightarrow> let (r, y') = move_construct t y; (r', m') = emplace r m in (r', m', Just y'))
      | _ \<Rightarrow> (Inr (), other, other)))"

definition maybe_of_none :: "'a maybe" where
  "maybe_of_none = Nothing"

definition maybe_copy :: "'a cpp_type \<Rightarrow> 'a maybe \<Rightarrow> ('w, 'a maybe) eff" where
  "maybe_copy t other =
     noexcept_if (nothrow_copy_construct t)
       (case other of
          Just y \<Rightarrow> eff_bind (eff_lift (copy_construct t y)) (\<lambda>z. eff_return (Just z))
        | _ \<Rightarrow> eff_return other)"

text \<open>A moved-from \<^verbatim>\<open>Maybe\<close> still holds what the move left of its value.\<close>

definition maybe_move :: "'a cpp_type \<Rightarrow> ('a maybe, 'a maybe) eff" where
  "maybe_move t =
     noexcept_if (nothrow_move_construct t)
       (\<lambda>other. case other of
          Just y \<Rightarrow> let (r, y') = move_construct t y in (case r of Inl e \<Rightarrow> Inl e | Inr z \<Rightarrow> Inr (Just z), Just y')
        | _ \<Rightarrow> (Inr other, other))"

definition maybe_of_copy :: "'a cpp_type \<Rightarrow> 'a \<Rightarrow> ('w, 'a maybe) eff" where
  "maybe_of_copy t x =
     noexcept_if (nothrow_copy_construct t)
       (eff_bind (eff_lift (copy_construct t x)) (\<lambda>z. eff_return (Just z)))"

definition maybe_of_move :: "'a cpp_type \<Rightarrow> ('a, 'a maybe) eff" where
  "maybe_of_move t =
     noexcept_if (nothrow_move_construct t) (eff_bind (move_construct t) (\<lambda>z. eff_return (Just z)))"

definition maybe_assign_none :: "('a maybe, unit) eff" where
  "maybe_assign_none m = (Inr (), Nothing)"

text \<open>\<open>self\<close>: the two operands are one object.\<close>

definition maybe_copy_assign :: "'a cpp_type \<Rightarrow> bool \<Rightarrow> 'a maybe \<Rightarrow> ('a maybe, unit) eff" where
  "maybe_copy_assign t self other =
     noexcept_if (nothrow_copy_assign t) (if \<not> self then variant_copy_assign t other else eff_return ())"

definition maybe_move_assign :: "'a cpp_type \<Rightarrow> bool \<Rightarrow> ('a maybe \<times> 'a maybe, unit) eff" where
  "maybe_move_assign t self =
     noexcept_if (nothrow_move_assign t) (if \<not> self then variant_move_assign t else eff_return ())"

text \<open>\<^verbatim>\<open>operator=(U&&)\<close> for a \<^verbatim>\<open>const T&\<close> and for a \<^verbatim>\<open>T&&\<close>; it has no \<^verbatim>\<open>noexcept\<close>.\<close>

definition maybe_assign_value :: "'a cpp_type \<Rightarrow> 'a \<Rightarrow> ('a maybe, unit) eff" where
  "maybe_assign_value t y = variant_copy_assign t (Just y)"

definition maybe_assign_rvalue :: "'a cpp_type \<Rightarrow> ('a maybe \<times> 'a, unit) eff" where
  "maybe_assign_rvalue t = (\<lambda>(m, y).
     case variant_move_assign t (m, Just y) of
       (r, m', Just y') \<Rightarrow> (r, m', y')
     | (r, m', _) \<Rightarrow> (r, m', y))"

definition isSome :: "'a maybe \<Rightarrow> bool" where
  "isSome m = (case m of Just x \<Rightarrow> True | _ \<Rightarrow> False)"

definition isNone :: "'a maybe \<Rightarrow> bool" where
  "isNone m = (case m of Nothing \<Rightarrow> True | _ \<Rightarrow> False)"

definition maybe_bool :: "'a maybe \<Rightarrow> bool" where
  "maybe_bool m = (case m of Just x \<Rightarrow> True | _ \<Rightarrow> False)"

text \<open>\<^verbatim>\<open>std::get<T>(m_var)\<close>\<close>

definition variant_get :: "'a maybe \<Rightarrow> 'a outcome" where
  "variant_get m = (case m of Just x \<Rightarrow> Inr x
     | _ \<Rightarrow> Inl (Thrown (mk_exn StdBadVariantAccess ''bad_variant_access'')))"

definition maybe_deref :: "'a maybe \<Rightarrow> 'a outcome" where
  "maybe_deref m =
     (if isNone m then Inl (Thrown (mk_exn InvalidOperationException ''Value is not present''))
      else variant_get m)"

definition maybe_value :: "'a maybe \<Rightarrow> 'a outcome" where
  "maybe_value m =
     (if isNone m then Inl (Thrown (mk_exn InvalidOperationException ''Value is not present''))
      else variant_get m)"

text \<open>The comparisons: with another \<^verbatim>\<open>Maybe\<close>, with a value, with \<^verbatim>\<open>none\<close>.\<close>

definition maybe_equal :: "('a \<Rightarrow> 'a \<Rightarrow> bool) \<Rightarrow> 'a maybe \<Rightarrow> 'a maybe \<Rightarrow> bool" where
  "maybe_equal eq lhs rhs =
     (case (lhs, rhs) of
        (Just x, Just y) \<Rightarrow> eq x y
      | (Nothing, Nothing) \<Rightarrow> True
      | (Valueless, Valueless) \<Rightarrow> True
      | _ \<Rightarrow> False)"

definition maybe_equal_value :: "('a \<Rightarrow> 'b \<Rightarrow> bool) \<Rightarrow> 'a maybe \<Rightarrow> 'b \<Rightarrow> bool outcome" where
  "maybe_equal_value eq lhs rhs =
     (if maybe_bool lhs then bind_outcome (maybe_value lhs) (\<lambda>x. Inr (eq x rhs)) else Inr False)"

definition maybe_equal_none :: "'a maybe \<Rightarrow> bool" where
  "maybe_equal_none lhs = isNone lhs"

subsection \<open>Maybe of a reference\<close>

text \<open>\<^verbatim>\<open>m_ptr\<close>; addresses are numbers, and \<open>mem\<close> holds the objects.\<close>

type_synonym maybe_ref = "nat option"

definition ref_of_none :: maybe_ref where
  "ref_of_none = None"

definition ref_copy :: "maybe_ref \<Rightarrow> maybe_ref" where
  "ref_copy other = other"

definition ref_move :: "(maybe_ref, maybe_ref) eff" where
  "ref_move other = (Inr other, None)"

definition ref_of :: "nat \<Rightarrow> maybe_ref" where
  "ref_of a = Some a"

definition ref_assign_none :: "(maybe_ref, unit) eff" where
  "ref_assign_none m = (Inr (), None)"

definition ref_copy_assign :: "bool \<Rightarrow> maybe_ref \<Rightarrow> (maybe_ref, unit) eff" where
  "ref_copy_assign self other m = (Inr (), if \<not> self then other else m)"

definition ref_move_assign :: "bool \<Rightarrow> (maybe_ref \<times> maybe_ref, unit) eff" where
  "ref_move_assign self = (\<lambda>(m, other). (Inr (), if \<not> self then (other, None) else (m, other)))"

definition ref_assign :: "nat \<Rightarrow> (maybe_ref, unit) eff" where
  "ref_assign a m = (Inr (), Some a)"

definition ref_isSome :: "maybe_ref \<Rightarrow> bool" where
  "ref_isSome m \<longleftrightarrow> m \<noteq> None"

definition ref_isNone :: "maybe_ref \<Rightarrow> bool" where
  "ref_isNone m \<longleftrightarrow> m = None"

definition ref_bool :: "maybe_ref \<Rightarrow> bool" where
  "ref_bool m \<longleftrightarrow> m \<noteq> None"

definition ref_deref :: "maybe_ref \<Rightarrow> nat outcome" where
  "ref_deref m =
     (if ref_isNone m then Inl (Thrown (mk_exn InvalidOperationException ''Value is not present''))
      else Inr (the m))"

definition ref_value :: "maybe_ref \<Rightarrow> nat outcome" where
  "ref_value m =
     (if ref_isNone m then Inl (Thrown (mk_exn InvalidOperationException ''Value is not present''))
      else Inr (the m))"

text \<open>\<^verbatim>\<open>operator->\<close> does not check; the access through its result is on a null pointer then.\<close>

definition ref_arrow :: "maybe_ref \<Rightarrow> nat option" where
  "ref_arrow m = m"

definition ref_equal :: "maybe_ref \<Rightarrow> maybe_ref \<Rightarrow> bool" where
  "ref_equal lhs rhs \<longleftrightarrow> lhs = rhs"

definition ref_equal_value :: "(nat \<Rightarrow> 'a) \<Rightarrow> ('a \<Rightarrow> 'b \<Rightarrow> bool) \<Rightarrow> maybe_ref \<Rightarrow> 'b \<Rightarrow> bool" where
  "ref_equal_value mem eq lhs rhs = (if ref_bool lhs then eq (mem (the lhs)) rhs else False)"

definition ref_equal_none :: "maybe_ref \<Rightarrow> bool" where
  "ref_equal_none lhs \<longleftrightarrow> lhs = None"

subsection \<open>Mapping and binding\<close>

text \<open>
  The two function templates work on either kind of \<^verbatim>\<open>Maybe\<close>, through \<^verbatim>\<open>isSome\<close> and
  \<^verbatim>\<open>operator*\<close>; \<open>nothrow\<close> is \<^verbatim>\<open>is_nothrow_invocable_v<F, T>\<close>, and \<open>t\<close> the type of the results.
\<close>

definition maybe_map ::
  "('m \<Rightarrow> bool) \<Rightarrow> ('m \<Rightarrow> 'a outcome) \<Rightarrow> 'b cpp_type \<Rightarrow> bool \<Rightarrow> ('a \<Rightarrow> ('w, 'b) eff) \<Rightarrow> 'm
     \<Rightarrow> ('w, 'b maybe) eff" where
  "maybe_map some deref t nothrow fn m =
     noexcept_if nothrow
       (if some m
        then eff_bind (eff_lift (deref m)) (\<lambda>x. eff_bind (fn x) (\<lambda>y.
               eff_lift (fst (maybe_of_move t y))))
        else eff_return Nothing)"

definition maybe_bind ::
  "('m \<Rightarrow> bool) \<Rightarrow> ('m \<Rightarrow> 'a outcome) \<Rightarrow> 'n \<Rightarrow> bool \<Rightarrow> ('a \<Rightarrow> ('w, 'n) eff) \<Rightarrow> 'm \<Rightarrow> ('w, 'n) eff" where
  "maybe_bind some deref none nothrow fn m =
     noexcept_if nothrow (if some m then eff_bind (eff_lift (deref m)) fn else eff_return none)"

subsection \<open>Result\<close>

text \<open>\<^verbatim>\<open>ValueHolder\<close>, the base of \<^verbatim>\<open>Success\<close> and \<^verbatim>\<open>Failure\<close>.\<close>

record 'a value_holder =
  m_value :: 'a

definition holder_copy :: "'a cpp_type \<Rightarrow> 'a \<Rightarrow> 'a value_holder outcome" where
  "holder_copy t x = bind_outcome (copy_construct t x) (\<lambda>z. Inr \<lparr>m_value = z\<rparr>)"

definition holder_move :: "'a cpp_type \<Rightarrow> ('a, 'a value_holder) eff" where
  "holder_move t = eff_bind (move_construct t) (\<lambda>z. eff_return \<lparr>m_value = z\<rparr>)"

definition holder_get :: "'a value_holder \<Rightarrow> 'a" where
  "holder_get h = m_value h"

datatype ('a, 'e) result = Monostate | HasValue 'a | HasError 'e

definition result_default :: "('a, 'e) result" where
  "result_default = Monostate"

definition result_of_value :: "'a cpp_type \<Rightarrow> ('a, ('a, 'e) result) eff" where
  "result_of_value t = eff_bind (move_construct t) (\<lambda>z. eff_return (HasValue z))"

definition result_of_success :: "'a cpp_type \<Rightarrow> 'a value_holder \<Rightarrow> ('a, 'e) result outcome" where
  "result_of_success t s = bind_outcome (copy_construct t (holder_get s)) (\<lambda>z. Inr (HasValue z))"

definition result_of_success_rvalue :: "'a cpp_type \<Rightarrow> ('a value_holder, ('a, 'e) result) eff" where
  "result_of_success_rvalue t s =
     (let (r, x) = move_construct t (holder_get s)
      in (case r of Inl e \<Rightarrow> Inl e | Inr z \<Rightarrow> Inr (HasValue z), \<lparr>m_value = x\<rparr>))"

definition result_of_failure :: "'e cpp_type \<Rightarrow> 'e value_holder \<Rightarrow> ('a, 'e) result outcome" where
  "result_of_failure t s = bind_outcome (copy_construct t (holder_get s)) (\<lambda>z. Inr (HasError z))"

definition result_of_failure_rvalue :: "'e cpp_type \<Rightarrow> ('e value_holder, ('a, 'e) result) eff" where
  "result_of_failure_rvalue t s =
     (let (r, x) = move_construct t (holder_get s)
      in (case r of Inl e \<Rightarrow> Inl e | Inr z \<Rightarrow> Inr (HasError z), \<lparr>m_value = x\<rparr>))"

definition result_bool :: "('a, 'e) result \<Rightarrow> bool" where
  "result_bool r = (case r of HasValue x \<Rightarrow> True | _ \<Rightarrow> False)"

definition result_success :: "('a, 'e) result \<Rightarrow> bool" where
  "result_success r = (case r of HasValue x \<Rightarrow> True | _ \<Rightarrow> False)"

definition result_failure :: "('a, 'e) result \<Rightarrow> bool" where
  "result_failure r = (case r of HasError e \<Rightarrow> True | _ \<Rightarrow> False)"

definition result_value :: "('a, 'e) result \<Rightarrow> 'a outcome" where
  "result_value r = (case r of HasValue x \<Rightarrow> Inr x
     | _ \<Rightarrow> Inl (Thrown (mk_exn StdBadVariantAccess ''bad_variant_access'')))"

definition result_error :: "('a, 'e) result \<Rightarrow> 'e outcome" where
  "result_error r = (case r of HasError e \<Rightarrow> Inr e
     | _ \<Rightarrow> Inl (Thrown (mk_exn StdBadVariantAccess ''bad_variant_access'')))"

definition result_arrow :: "('a, 'e) result \<Rightarrow> 'a outcome" where
  "result_arrow r = result_value r"

subsection \<open>What the three have in common\<close>

text \<open>
  A type with an absent state: \<open>val\<close> returns the value put in by \<open>wrap\<close>, and throws
  when there is none.
\<close>

locale optional_value =
  fixes some :: "'m \<Rightarrow> bool" and val :: "'m \<Rightarrow> 'a outcome" and wrap :: "'a \<Rightarrow> 'm"
    and nothing :: 'm and missing :: exn
  assumes some_wrap: "some (wrap x)"
    and val_wrap: "val (wrap x) = Inr x"
    and some_nothing: "\<not> some nothing"
    and val_nothing: "val nothing = Inl (Thrown missing)"
    and val_some: "some m \<Longrightarrow> \<exists>x. val m = Inr x"
    and val_absent: "\<not> some m \<Longrightarrow> \<exists>e. val m = Inl (Thrown e)"
begin

lemma some_iff: "some m \<longleftrightarrow> (\<exists>x. val m = Inr x)"
  using val_some [of m] val_absent [of m] by (cases "some m") auto

lemma wrap_inject: "wrap x = wrap y \<longleftrightarrow> x = y"
  by (metis val_wrap sum.inject(2))

lemma bind_wrap: "maybe_bind some val n0 b fn (wrap x) = noexcept_if b (fn x)"
  by (simp add: maybe_bind_def some_wrap val_wrap)

lemma bind_nothing: "\<not> some m \<Longrightarrow> maybe_bind some val n0 b fn m = Pair (Inr n0)"
  by (simp add: maybe_bind_def)

lemma bind_assoc:
  assumes "\<not> some' n0"
  shows "eff_bind (maybe_bind some val n0 False f m) (maybe_bind some' val' k0 False g)
       = maybe_bind some val k0 False (\<lambda>x. eff_bind (f x) (maybe_bind some' val' k0 False g)) m"
  using assms val_some [of m] by (cases "some m") (auto simp: maybe_bind_def)

lemma map_is_bind:
  "maybe_map some val t b fn m
     = maybe_bind some val Nothing b (\<lambda>x. eff_bind (fn x) (\<lambda>y. eff_lift (fst (maybe_of_move t y)))) m"
  by (simp add: maybe_map_def maybe_bind_def)

end

interpretation mb: optional_value isSome maybe_deref Just Nothing
    "mk_exn InvalidOperationException ''Value is not present''"
proof
  fix m :: "'a maybe"
  show "isSome m \<Longrightarrow> \<exists>x. maybe_deref m = Inr x" "\<not> isSome m \<Longrightarrow> \<exists>e. maybe_deref m = Inl (Thrown e)"
    by (cases m; simp add: isSome_def maybe_deref_def isNone_def variant_get_def)+
qed (simp_all add: isSome_def maybe_deref_def isNone_def variant_get_def)

interpretation rf: optional_value ref_isSome ref_deref ref_of ref_of_none
    "mk_exn InvalidOperationException ''Value is not present''"
  by unfold_locales
    (auto simp: ref_isSome_def ref_deref_def ref_isNone_def ref_of_def ref_of_none_def)

interpretation rs: optional_value result_success result_value HasValue Monostate
    "mk_exn StdBadVariantAccess ''bad_variant_access''"
proof
  fix m :: "('a, 'e) result"
  show "result_success m \<Longrightarrow> \<exists>x. result_value m = Inr x"
    "\<not> result_success m \<Longrightarrow> \<exists>e. result_value m = Inl (Thrown e)"
    by (cases m; simp add: result_success_def result_value_def)+
qed (simp_all add: result_success_def result_value_def)

subsection \<open>Losing the value\<close>

text \<open>The objects a program can make of one type, by any sequence of operations.\<close>

inductive maybe_reachable :: "'a cpp_type \<Rightarrow> 'a maybe \<Rightarrow> bool" for t where
  none: "maybe_reachable t maybe_of_none"
| copied: "maybe_reachable t other \<Longrightarrow> maybe_copy t other () = (Inr m, ()) \<Longrightarrow> maybe_reachable t m"
| moved: "maybe_reachable t other \<Longrightarrow> maybe_move t other = (Inr m, other') \<Longrightarrow> maybe_reachable t m"
| moved_from: "maybe_reachable t other \<Longrightarrow> maybe_move t other = (r, other') \<Longrightarrow> maybe_reachable t other'"
| of_copy: "maybe_of_copy t x () = (Inr m, ()) \<Longrightarrow> maybe_reachable t m"
| of_move: "maybe_of_move t x = (Inr m, x') \<Longrightarrow> maybe_reachable t m"
| assign_none: "maybe_reachable t m \<Longrightarrow> maybe_assign_none m = (r, m') \<Longrightarrow> maybe_reachable t m'"
| copy_assigned: "maybe_reachable t m \<Longrightarrow> maybe_reachable t other \<Longrightarrow>
    maybe_copy_assign t self other m = (r, m') \<Longrightarrow> maybe_reachable t m'"
| move_assigned: "maybe_reachable t m \<Longrightarrow> maybe_reachable t other \<Longrightarrow>
    maybe_move_assign t self (m, other) = (r, m', other') \<Longrightarrow> maybe_reachable t m'"
| move_assigned_from: "maybe_reachable t m \<Longrightarrow> maybe_reachable t other \<Longrightarrow>
    maybe_move_assign t self (m, other) = (r, m', other') \<Longrightarrow> maybe_reachable t other'"
| assigned: "maybe_reachable t m \<Longrightarrow> maybe_assign_value t y m = (r, m') \<Longrightarrow> maybe_reachable t m'"
| assigned_rvalue: "maybe_reachable t m \<Longrightarrow> maybe_assign_rvalue t (m, y) = (r, m', y') \<Longrightarrow>
    maybe_reachable t m'"

lemma snd_noexcept_if [simp]: "snd (noexcept_if b m w) = snd (m w)"
  by (simp add: noexcept_if_def eff_noexcept_def split: prod.split sum.split failure.split)

lemma noexcept_if_Inr: "fst (noexcept_if b m w) = Inr x \<longleftrightarrow> fst (m w) = Inr x"
  by (auto simp: noexcept_if_def eff_noexcept_def split: prod.split sum.split failure.split)

lemma variant_copy_assign_valued:
  assumes "truthful t" and "nothrow_move_construct t" and "other \<noteq> Valueless"
  shows "m \<noteq> Valueless \<Longrightarrow> snd (variant_copy_assign t other m) \<noteq> Valueless"
  using assms(3) truthfulD(1) [OF assms(1)] truthfulD(2) [OF assms(1,2)] assms(2)
  by (cases other; cases m) (auto simp: variant_copy_assign_def emplace_def split: prod.split sum.split)

lemma variant_move_assign_valued:
  assumes "truthful t" and "nothrow_move_construct t" and "other \<noteq> Valueless" and "m \<noteq> Valueless"
    and "variant_move_assign t (m, other) = (r, m', other')"
  shows "m' \<noteq> Valueless \<and> other' \<noteq> Valueless"
proof (cases other)
  case (Just y)
  obtain p z where mc: "move_construct t y = (p, z)" by (rule prod.exhaust)
  have "\<exists>v. p = Inr v"
    using truthfulD(2) [OF assms(1,2)] mc by (metis fst_conv sum.exhaust)
  then show ?thesis
    using assms(4,5) mc Just
    by (cases m) (auto simp: variant_move_assign_def emplace_def split: prod.splits)
qed (use assms in \<open>auto simp: variant_move_assign_def\<close>)

lemma maybe_move_assign_valued:
  assumes "truthful t" and "nothrow_move_construct t" and "m \<noteq> Valueless" and "other \<noteq> Valueless"
    and "maybe_move_assign t self (m, other) = (r, m', other')"
  shows "m' \<noteq> Valueless \<and> other' \<noteq> Valueless"
proof -
  obtain p m1 o1 where v: "variant_move_assign t (m, other) = (p, m1, o1)"
    by (metis prod_cases3)
  have "snd (maybe_move_assign t self (m, other)) = (if self then (m, other) else (m1, o1))"
    by (simp add: maybe_move_assign_def v)
  then have "(m', other') = (if self then (m, other) else (m1, o1))"
    unfolding assms(5) snd_conv .
  moreover have "m1 \<noteq> Valueless \<and> o1 \<noteq> Valueless"
    using variant_move_assign_valued [OF assms(1,2,4,3) v] .
  ultimately show ?thesis
    using assms(3,4) by (simp split: if_splits)
qed

lemma maybe_reachable_valued:
  assumes "truthful t" and "nothrow_move_construct t"
  shows "maybe_reachable t m \<Longrightarrow> m \<noteq> Valueless"
proof (induction rule: maybe_reachable.induct)
  case (copied other m)
  then show ?case
    by (auto simp: maybe_copy_def noexcept_if_def eff_noexcept_def eff_bind_def
        split: maybe.splits if_splits sum.splits failure.splits)
next
  case (moved other m other')
  then show ?case
    using noexcept_if_Inr [of "nothrow_move_construct t" _ other m]
    by (auto simp: maybe_move_def noexcept_if_def eff_noexcept_def
        split: maybe.splits if_splits sum.splits failure.splits prod.splits)
next
  case (moved_from other r other')
  then have "other' = snd (maybe_move t other)" by simp
  with moved_from show ?case
    by (auto simp: maybe_move_def split: maybe.splits prod.splits)
next
  case (of_copy x m)
  then show ?case
    by (auto simp: maybe_of_copy_def noexcept_if_def eff_noexcept_def eff_bind_def
        split: if_splits sum.splits failure.splits prod.splits)
next
  case (of_move x m x')
  then show ?case
    by (auto simp: maybe_of_move_def noexcept_if_def eff_noexcept_def eff_bind_def
        split: if_splits sum.splits failure.splits prod.splits)
next
  case (copy_assigned m other self r m')
  then have "m' = snd (maybe_copy_assign t self other m)" by simp
  with copy_assigned show ?case
    using variant_copy_assign_valued [OF assms] by (simp add: maybe_copy_assign_def)
next
  case (move_assigned m other self r m' other')
  then show ?case using maybe_move_assign_valued [OF assms] by blast
next
  case (move_assigned_from m other self r m' other')
  then show ?case using maybe_move_assign_valued [OF assms] by blast
next
  case (assigned m y r m')
  have "snd (variant_copy_assign t (Just y) m) = m'"
    using assigned.hyps(2) by (simp add: maybe_assign_value_def)
  with variant_copy_assign_valued [OF assms, of "Just y" m] assigned.IH show ?case by simp
next
  case (assigned_rvalue m y r m' y')
  obtain p m1 o1 where v: "variant_move_assign t (m, Just y) = (p, m1, o1)"
    by (metis prod_cases3)
  with variant_move_assign_valued [OF assms _ assigned_rvalue.IH v] have "m1 \<noteq> Valueless" by simp
  with assigned_rvalue v show ?case
    by (cases o1) (auto simp: maybe_assign_rvalue_def)
qed (auto simp: maybe_of_none_def maybe_assign_none_def)



text \<open>The assignment operators of \<^verbatim>\<open>Maybe\<close> promise \<^verbatim>\<open>noexcept\<close> for the assignment of \<^verbatim>\<open>T\<close>, but into an
  empty \<^verbatim>\<open>Maybe\<close> they construct: when the copy constructor throws, the program is terminated.\<close>

theorem copy_assignment_into_empty_terminates:
  assumes "nothrow_copy_assign t" and "copy_construct t y = Inl (Thrown e)" and "\<not> isSome m"
  shows "fst (maybe_copy_assign t False (Just y) m) = Inl (Fault TerminateCalled)"
  using assms
  by (cases m) (simp_all add: isSome_def maybe_copy_assign_def noexcept_if_def eff_noexcept_def
      variant_copy_assign_def emplace_def)

theorem copy_assignment_into_empty_terminates_witness:
  "fst (maybe_copy_assign (plain_type\<lparr>copy_construct := (\<lambda>x. Inl (Thrown (mk_exn StdException ''no memory''))),
       nothrow_copy_construct := False\<rparr>) False (Just (7::nat)) Nothing) = Inl (Fault TerminateCalled)"
  by (rule copy_assignment_into_empty_terminates) (simp_all add: plain_type_def isSome_def)

text \<open>\<^verbatim>\<open>map\<close> and \<^verbatim>\<open>bind\<close> obey the laws of a monad on both kinds of \<^verbatim>\<open>Maybe\<close>, effects of the function
  included: a present value is passed on, an absent one runs nothing, two binds in a row are
  one bind of the composed function, and \<^verbatim>\<open>map\<close> is a \<^verbatim>\<open>bind\<close> that wraps the result.\<close>

theorem maybe_monad_laws:
  "maybe_bind isSome maybe_deref n0 b fn (Just x) = noexcept_if b (fn x)
   \<and> maybe_bind isSome maybe_deref n0 b fn Nothing = Pair (Inr n0)
   \<and> eff_bind (maybe_bind isSome maybe_deref Nothing False f m) (maybe_bind isSome maybe_deref k0 False g)
       = maybe_bind isSome maybe_deref k0 False
           (\<lambda>x. eff_bind (f x) (maybe_bind isSome maybe_deref k0 False g)) m
   \<and> eff_bind (maybe_bind ref_isSome ref_deref ref_of_none False f' m') (maybe_bind ref_isSome ref_deref k0 False g')
       = maybe_bind ref_isSome ref_deref k0 False
           (\<lambda>x. eff_bind (f' x) (maybe_bind ref_isSome ref_deref k0 False g')) m'
   \<and> maybe_map isSome maybe_deref t b h m
       = maybe_bind isSome maybe_deref Nothing b (\<lambda>x. eff_bind (h x) (\<lambda>y. eff_lift (fst (maybe_of_move t y)))) m"
  by (intro conjI mb.bind_wrap mb.bind_nothing mb.bind_assoc rf.bind_assoc mb.map_is_bind
      mb.some_nothing rf.some_nothing)

end
