(* ===== verification/Task_Model.thy ===== *)
theory Task_Model
  imports Effects
begin

text \<open>
  \<^verbatim>\<open>task/task.hpp\<close>, \<^verbatim>\<open>task/task_base.hpp\<close> and \<^verbatim>\<open>task/task_executor.hpp\<close>.  A task is a handle of a
  cell that holds the status, the operation, the promise and the future of its action.
  \<^verbatim>\<open>compare_exchange_weak\<close> may fail although the values agree: whether it does is an
  argument (\<open>spurious\<close>).  \<open>ndebug\<close> is a build with \<^verbatim>\<open>NDEBUG\<close>, where \<^verbatim>\<open>assert\<close> does not
  evaluate its argument.
\<close>

subsection \<open>State\<close>

datatype status = Created | InProgress | Completed | Cancelled

datatype cancellation_result = CancelSuccess | TaskAlreadyInProgress | TaskAlreadyCompleted

instantiation status :: linorder
begin

primrec status_index :: "status \<Rightarrow> nat" where
  "status_index Created = 0"
| "status_index InProgress = 1"
| "status_index Completed = 2"
| "status_index Cancelled = 3"

definition less_eq_status :: "status \<Rightarrow> status \<Rightarrow> bool" where
  "less_eq_status p q \<longleftrightarrow> status_index p \<le> status_index q"

definition less_status :: "status \<Rightarrow> status \<Rightarrow> bool" where
  "less_status p q \<longleftrightarrow> status_index p < status_index q"

instance
proof
  fix p q :: status
  show "p \<le> q \<Longrightarrow> q \<le> p \<Longrightarrow> p = q"
    by (cases p; cases q) (simp_all add: less_eq_status_def)
qed (auto simp: less_eq_status_def less_status_def)

end

text \<open>\<^verbatim>\<open>x.compare_exchange_weak(expected, desired)\<close>: the answer, \<^verbatim>\<open>expected\<close> and \<^verbatim>\<open>x\<close> afterwards\<close>

definition compare_exchange_weak :: "bool \<Rightarrow> 'a \<Rightarrow> 'a \<Rightarrow> 'a \<Rightarrow> bool \<times> 'a \<times> 'a" where
  "compare_exchange_weak spurious expected desired x =
     (if x = expected \<and> \<not> spurious then (True, expected, desired) else (False, x, x))"

definition state_isCompleted :: "status \<Rightarrow> bool" where
  "state_isCompleted m_status \<longleftrightarrow> m_status = Completed"

definition state_create :: status where
  "state_create = Created"

definition state_isCancelled :: "status \<Rightarrow> bool" where
  "state_isCancelled m_status \<longleftrightarrow> m_status = Cancelled"

definition state_tryCancel :: "bool \<Rightarrow> status \<Rightarrow> cancellation_result \<times> status" where
  "state_tryCancel spurious m_status =
     (let (done, allowable_status, m_status') = compare_exchange_weak spurious Created Cancelled m_status
      in (if \<not> done
          then (if allowable_status = InProgress then TaskAlreadyInProgress
                else if allowable_status = Completed then TaskAlreadyCompleted else CancelSuccess)
          else CancelSuccess, m_status'))"

definition trySetInProgress :: "bool \<Rightarrow> status \<Rightarrow> bool \<times> status" where
  "trySetInProgress spurious m_status =
     (let (done, _, m_status') = compare_exchange_weak spurious Created InProgress m_status
      in (done, m_status'))"

definition trySetCompleted :: "bool \<Rightarrow> status \<Rightarrow> bool \<times> status" where
  "trySetCompleted spurious m_status =
     (let (done, _, m_status') = compare_exchange_weak spurious InProgress Completed m_status
      in (done, m_status'))"

subsection \<open>Action\<close>

text \<open>
  \<open>t_result\<close> is what the promise was given, \<open>t_retrieved\<close> that \<^verbatim>\<open>get()\<close> has taken it;
  \<open>t_runs\<close> counts the calls of the operation.
\<close>

record ('w, 'a) task_cell =
  t_status :: status
  t_fn :: "('w, 'a) eff"
  t_result :: "(exn + 'a) option"
  t_retrieved :: bool
  t_runs :: nat

definition action_create :: "('w, 'a) eff \<Rightarrow> ('w, 'a) task_cell" where
  "action_create fn =
     \<lparr>t_status = Created, t_fn = fn, t_result = None, t_retrieved = False, t_runs = 0\<rparr>"

text \<open>\<^verbatim>\<open>m_promise.set_value(x)\<close>, \<^verbatim>\<open>m_promise.set_exception(e)\<close>\<close>

definition set_promise :: "exn + 'a \<Rightarrow> (('w, 'a) task_cell \<times> 'w, unit) eff" where
  "set_promise x = (\<lambda>(c, w).
     if t_result c \<noteq> None
     then (Inl (Thrown (mk_exn StdFutureError ''Promise already satisfied'')), (c, w))
     else (Inr (), (c\<lparr>t_result := Some x\<rparr>, w)))"

definition cancelled_exn :: exn where
  "cancelled_exn = mk_exn InvalidOperationException ''Attempt to access the result of the canceled task''"

text \<open>
  \<^verbatim>\<open>perform\<close> in its four atomic parts: the test for cancellation (true: go on), the
  change to \<^verbatim>\<open>InProgress\<close>, the operation with its promise, the asserted change to
  \<^verbatim>\<open>Completed\<close>.
\<close>

definition perform_check :: "(('w, 'a) task_cell \<times> 'w, bool) eff" where
  "perform_check =
     eff_bind get_local (\<lambda>c.
       if state_isCancelled (t_status c)
       then eff_then (set_promise (Inl cancelled_exn)) (eff_return False)
       else eff_return True)"

definition perform_start :: "bool \<Rightarrow> (('w, 'a) task_cell \<times> 'w, bool) eff" where
  "perform_start spurious = (\<lambda>(c, w).
     let (ok, s) = trySetInProgress spurious (t_status c) in (Inr ok, (c\<lparr>t_status := s\<rparr>, w)))"

definition eff_catch_any :: "('w, 'a) eff \<Rightarrow> (exn \<Rightarrow> ('w, 'a) eff) \<Rightarrow> ('w, 'a) eff" where
  "eff_catch_any m h = (\<lambda>w. case m w of (Inl (Thrown e), w') \<Rightarrow> h e w' | r \<Rightarrow> r)"

definition perform_body :: "(('w, 'a) task_cell \<times> 'w, unit) eff" where
  "perform_body =
     eff_bind get_local (\<lambda>c.
       eff_then (set_local (\<lambda>c. c\<lparr>t_runs := Suc (t_runs c)\<rparr>))
         (eff_catch_any
           (eff_bind (in_world (t_fn c)) (\<lambda>res. set_promise (Inr res)))
           (\<lambda>e. set_promise (Inl e))))"

definition perform_finish :: "bool \<Rightarrow> bool \<Rightarrow> (('w, 'a) task_cell \<times> 'w, unit) eff" where
  "perform_finish ndebug spurious = (\<lambda>(c, w).
     if ndebug then (Inr (), (c, w))
     else let (ok, s) = trySetCompleted spurious (t_status c)
          in (if ok then Inr () else Inl (Fault AssertionFailure), (c\<lparr>t_status := s\<rparr>, w)))"

definition perform :: "bool \<Rightarrow> bool \<Rightarrow> bool \<Rightarrow> (('w, 'a) task_cell \<times> 'w, unit) eff" where
  "perform ndebug spurious1 spurious2 =
     eff_noexcept
       (eff_bind perform_check (\<lambda>go.
          if \<not> go then eff_return ()
          else eff_bind (perform_start spurious1) (\<lambda>ok.
            if ok then eff_then perform_body (perform_finish ndebug spurious2) else eff_return ())))"

text \<open>
  \<^verbatim>\<open>m_awaiter.get()\<close>: \<open>None\<close> is waiting for a result that is not there yet.  A future
  gives its result once.
\<close>

definition awaiter_get :: "('w, 'a) task_cell \<Rightarrow> 'a outcome option \<times> ('w, 'a) task_cell" where
  "awaiter_get c =
     (if t_retrieved c then (Some (Inl (Thrown (mk_exn StdFutureError ''No associated state''))), c)
      else case t_result c of
             None \<Rightarrow> (None, c)
           | Some (Inl e) \<Rightarrow> (Some (Inl (Thrown e)), c\<lparr>t_retrieved := True\<rparr>)
           | Some (Inr x) \<Rightarrow> (Some (Inr x), c\<lparr>t_retrieved := True\<rparr>))"

subsection \<open>Task\<close>

text \<open>The cells of all tasks, and the two pointers of a handle.\<close>

record ('w, 'a) task_heap =
  cells :: "nat \<Rightarrow> ('w, 'a) task_cell"
  next_cell :: nat

record task =
  m_shared_state :: "nat option"
  m_shared_action :: "nat option"

definition at_cell :: "nat \<Rightarrow> (('w, 'a) task_cell \<times> 'w, 'r) eff \<Rightarrow> (('w, 'a) task_heap \<times> 'w, 'r) eff" where
  "at_cell a m = (\<lambda>(h, w).
     case m (cells h a, w) of (r, (c, w')) \<Rightarrow> (r, (h\<lparr>cells := (cells h)(a := c)\<rparr>, w')))"

definition task_new :: "('w, 'a) eff \<Rightarrow> (('w, 'a) task_heap \<times> 'w, task) eff" where
  "task_new fn = (\<lambda>(h, w).
     let a = next_cell h
     in (Inr \<lparr>m_shared_state = Some a, m_shared_action = Some a\<rparr>,
         (h\<lparr>cells := (cells h)(a := action_create fn), next_cell := Suc a\<rparr>, w)))"

text \<open>The new object and what is left of the other.\<close>

definition task_move :: "task \<Rightarrow> task \<times> task" where
  "task_move other =
     (\<lparr>m_shared_state = m_shared_state other, m_shared_action = m_shared_action other\<rparr>,
      \<lparr>m_shared_state = None, m_shared_action = None\<rparr>)"

definition task_move_assign :: "bool \<Rightarrow> task \<times> task \<Rightarrow> task \<times> task" where
  "task_move_assign self = (\<lambda>(this, other).
     if \<not> self
     then (this\<lparr>m_shared_state := m_shared_state other, m_shared_action := m_shared_action other\<rparr>,
           other\<lparr>m_shared_state := None, m_shared_action := None\<rparr>)
     else (this, other))"

text \<open>Access through a pointer that may be null\<close>

definition through :: "nat option \<Rightarrow> (nat \<Rightarrow> ('w, 'r) eff) \<Rightarrow> ('w, 'r) eff" where
  "through p m = (case p of None \<Rightarrow> eff_fail (Fault NullDereference) | Some a \<Rightarrow> m a)"

definition task_run :: "bool \<Rightarrow> bool \<Rightarrow> bool \<Rightarrow> task \<Rightarrow> (('w, 'a) task_heap \<times> 'w, unit) eff" where
  "task_run ndebug s1 s2 t = through (m_shared_action t) (\<lambda>a. at_cell a (perform ndebug s1 s2))"

text \<open>\<^verbatim>\<open>runAsync\<close> starts a thread that performs the action with this address.\<close>

definition task_runAsync :: "task \<Rightarrow> (('w, 'a) task_heap \<times> 'w, nat) eff" where
  "task_runAsync t = through (m_shared_action t) eff_return"

definition getResult :: "task \<Rightarrow> (('w, 'a) task_heap \<times> 'w, 'a outcome option) eff" where
  "getResult t =
     through (m_shared_action t) (\<lambda>a. at_cell a (\<lambda>(c, w).
       let (r, c') = awaiter_get c in (Inr r, (c', w))))"

definition task_isCancelled :: "task \<Rightarrow> (('w, 'a) task_heap \<times> 'w, bool) eff" where
  "task_isCancelled t =
     through (m_shared_state t) (\<lambda>a (h, w). (Inr (state_isCancelled (t_status (cells h a))), (h, w)))"

definition task_isCompleted :: "task \<Rightarrow> (('w, 'a) task_heap \<times> 'w, bool) eff" where
  "task_isCompleted t =
     through (m_shared_state t) (\<lambda>a (h, w). (Inr (state_isCompleted (t_status (cells h a))), (h, w)))"

definition task_tryCancel :: "bool \<Rightarrow> task \<Rightarrow> (('w, 'a) task_heap \<times> 'w, cancellation_result) eff" where
  "task_tryCancel spurious t =
     through (m_shared_state t) (\<lambda>a. at_cell a (\<lambda>(c, w).
       let (r, s) = state_tryCancel spurious (t_status c) in (Inr r, (c\<lparr>t_status := s\<rparr>, w))))"

definition task_action :: "task \<Rightarrow> nat option" where
  "task_action t = m_shared_action t"

subsection \<open>TaskExecutor\<close>

text \<open>The virtual functions, and those of the base class.\<close>

record ('s, 'e) executor_class =
  doExecute :: "'e \<Rightarrow> nat \<Rightarrow> ('s, unit) eff"
  doTerminate :: "'e \<Rightarrow> ('s, unit) eff"
  doTerminatingCheck :: "'e \<Rightarrow> 's \<Rightarrow> bool"

definition base_executor :: "bool \<Rightarrow> bool \<Rightarrow> bool \<Rightarrow> (('w, 'a) task_heap \<times> 'w, 'e) executor_class" where
  "base_executor ndebug s1 s2 =
     \<lparr>doExecute = (\<lambda>_ a. at_cell a (perform ndebug s1 s2)),
      doTerminate = (\<lambda>_. eff_return ()),
      doTerminatingCheck = (\<lambda>_ _. False)\<rparr>"

definition executor_execute ::
  "(('w, 'a) task_heap \<times> 'w, 'e) executor_class \<Rightarrow> 'e \<Rightarrow> ('w, 'a) eff \<Rightarrow> (('w, 'a) task_heap \<times> 'w, unit) eff" where
  "executor_execute ec e fn =
     eff_noexcept (eff_bind (task_new fn) (\<lambda>t. through (task_action t) (doExecute ec e)))"

definition executor_submit ::
  "(('w, 'a) task_heap \<times> 'w, 'e) executor_class \<Rightarrow> 'e \<Rightarrow> ('w, 'a) eff \<Rightarrow> (('w, 'a) task_heap \<times> 'w, task) eff" where
  "executor_submit ec e fn =
     eff_noexcept (eff_bind (task_new fn) (\<lambda>t.
       eff_then (through (task_action t) (doExecute ec e)) (eff_return t)))"

definition executor_terminate :: "('s, 'e) executor_class \<Rightarrow> 'e \<Rightarrow> ('s, unit) eff" where
  "executor_terminate ec e = doTerminate ec e"

definition executor_isTerminating :: "('s, 'e) executor_class \<Rightarrow> 'e \<Rightarrow> 's \<Rightarrow> bool" where
  "executor_isTerminating ec e s = doTerminatingCheck ec e s"

subsection \<open>What one performance does\<close>

text \<open>The result of an operation as the promise stores it.\<close>

definition promised :: "'a outcome \<Rightarrow> (exn + 'a) option" where
  "promised r = (case r of Inr x \<Rightarrow> Some (Inr x) | Inl (Thrown e) \<Rightarrow> Some (Inl e) | Inl (Fault f) \<Rightarrow> None)"

lemmas cas_defs = compare_exchange_weak_def trySetInProgress_def trySetCompleted_def state_tryCancel_def

lemma perform_check_cases:
  "t_status c \<noteq> Cancelled \<Longrightarrow> perform_check (c, w) = (Inr True, (c, w))"
  "t_status c = Cancelled \<Longrightarrow> t_result c = None \<Longrightarrow>
     perform_check (c, w) = (Inr False, (c\<lparr>t_result := Some (Inl cancelled_exn)\<rparr>, w))"
  "t_status c = Cancelled \<Longrightarrow> t_result c = Some x \<Longrightarrow>
     perform_check (c, w) = (Inl (Thrown (mk_exn StdFutureError ''Promise already satisfied'')), (c, w))"
  by (simp_all add: perform_check_def state_isCancelled_def set_promise_def eff_then_def eff_bind_def)

lemma perform_start_cases:
  "perform_start s (c, w) =
     (if t_status c = Created \<and> \<not> s then (Inr True, (c\<lparr>t_status := InProgress\<rparr>, w)) else (Inr False, (c, w)))"
  by (simp add: perform_start_def cas_defs)

lemma perform_body_empty:
  assumes "t_result c = None" and "t_fn c w = (r, w')" and "promised r \<noteq> None"
  shows "perform_body (c, w) = (Inr (), (c\<lparr>t_runs := Suc (t_runs c), t_result := promised r\<rparr>, w'))"
  using assms
  by (auto simp: perform_body_def eff_catch_any_def eff_bind_def in_world_def set_promise_def promised_def
      split: sum.splits failure.splits)

lemma perform_body_state:
  assumes "perform_body (c, w) = (r, (c', w'))" and "t_result c = None"
  shows "t_status c' = t_status c \<and> t_runs c' = Suc (t_runs c) \<and> (t_result c' \<noteq> None \<or> (\<exists>f. r = Inl (Fault f)))"
proof -
  obtain q v where f: "t_fn c w = (q, v)" by (rule prod.exhaust)
  show ?thesis
    using assms
    by (auto simp: perform_body_def eff_catch_any_def eff_bind_def in_world_def set_promise_def f
        split: sum.splits failure.splits)
qed

lemma perform_finish_cases:
  "perform_finish True s (c, w) = (Inr (), (c, w))"
  "t_status c = InProgress \<Longrightarrow> perform_finish False False (c, w) = (Inr (), (c\<lparr>t_status := Completed\<rparr>, w))"
  "perform_finish nd s (c, w) = (r, (c', w')) \<Longrightarrow>
     c' = c \<or> (\<not> nd \<and> t_status c = InProgress \<and> c' = c\<lparr>t_status := Completed\<rparr>)"
  by (auto simp: perform_finish_def cas_defs split: if_splits)

lemma perform_created:
  assumes "t_status c = Created" and "t_result c = None" and "t_fn c w = (r, w')" and "promised r \<noteq> None"
  shows "perform ndebug False False (c, w)
    = (Inr (), (c\<lparr>t_status := (if ndebug then InProgress else Completed), t_runs := Suc (t_runs c),
                 t_result := promised r\<rparr>, w'))"
proof -
  have s: "perform_start False (c, w) = (Inr True, (c\<lparr>t_status := InProgress\<rparr>, w))"
    using assms(1) by (simp add: perform_start_cases)
  show ?thesis
    using assms perform_body_empty [of "c\<lparr>t_status := InProgress\<rparr>" w r w']
    by (cases ndebug) (auto simp: perform_def eff_noexcept_def eff_bind_def eff_then_def s perform_check_cases
        perform_finish_cases)
qed

text \<open>\<^verbatim>\<open>perform\<close>, with no spurious failure: a created task runs its operation once and keeps its
  value or exception for the future; a cancelled one keeps the cancellation instead, and
  performing it once more ends the program; one in progress or completed is left alone.\<close>

theorem perform_effect:
  assumes "t_fn c w = (r, w')" and "promised r \<noteq> None" and "t_status c = Created \<longrightarrow> t_result c = None"
  shows "perform ndebug False False (c, w) =
    (case t_status c of
       Created \<Rightarrow> (Inr (), (c\<lparr>t_status := (if ndebug then InProgress else Completed), t_runs := Suc (t_runs c),
                          t_result := promised r\<rparr>, w'))
     | Cancelled \<Rightarrow> if t_result c = None
         then (Inr (), (c\<lparr>t_result := Some (Inl cancelled_exn)\<rparr>, w))
         else (Inl (Fault TerminateCalled), (c, w))
     | _ \<Rightarrow> (Inr (), (c, w)))"
proof (cases "t_status c")
  case Created
  have "t_result c = None" using assms(3) Created by blast
  with perform_created [OF Created _ assms(1,2)] Created show ?thesis by simp
next
  case Cancelled
  then show ?thesis
    by (cases "t_result c") (simp_all add: perform_def eff_noexcept_def eff_bind_def perform_check_cases)
qed (simp_all add: perform_def eff_noexcept_def eff_bind_def perform_check_cases perform_start_cases)

theorem perform_effect_witness:
  "perform True False False (action_create (\<lambda>n. (Inr (n + 1), n * 2)), 21::nat)
     = (Inr (), (\<lparr>t_status = InProgress, t_fn = (\<lambda>n. (Inr (n + 1), n * 2)), t_result = Some (Inr 22),
                  t_retrieved = False, t_runs = 1\<rparr>, 42))"
  using perform_effect [of "action_create (\<lambda>n. (Inr (n + 1), n * 2))" "21::nat" "Inr 22" 42 True]
  by (simp add: action_create_def promised_def)

text \<open>Submitting: with the executor of the base class, \<^verbatim>\<open>submit\<close> runs the operation before it returns,
  and \<^verbatim>\<open>getResult\<close> of the task gives its value, or throws its exception, without waiting.\<close>

theorem submit_then_get_result:
  assumes "fn w = (r, w')" and "promised r \<noteq> None"
  shows "\<exists>t h'. executor_submit (base_executor ndebug False False) e fn (h, w) = (Inr t, (h', w'))
    \<and> fst (getResult t (h', w')) = Inr (Some r) \<and> (\<forall>a. a \<noteq> next_cell h \<longrightarrow> cells h' a = cells h a)"
proof -
  let ?a = "next_cell h" and ?c = "action_create fn"
  let ?h = "h\<lparr>cells := (cells h)(?a := ?c), next_cell := Suc ?a\<rparr>"
  have p: "perform ndebug False False (?c, w) =
      (Inr (), (?c\<lparr>t_status := (if ndebug then InProgress else Completed), t_runs := 1, t_result := promised r\<rparr>, w'))"
    using perform_created [of ?c w r w' ndebug] assms by (simp add: action_create_def)
  show ?thesis
    using assms(2) p
    by (auto simp: executor_submit_def base_executor_def task_new_def Let_def eff_noexcept_def eff_bind_def
        eff_then_def through_def task_action_def at_cell_def getResult_def awaiter_get_def action_create_def
        promised_def split: sum.splits failure.splits)
qed

subsection \<open>Threads on one task\<close>

datatype perform_pc = AtCheck | AtStart | AtBody | AtFinish | Returned | Crashed

text \<open>
  A cell, the rest of the program and the positions of the threads that perform the
  action.  Any other thread may cancel, start another performance (\<^verbatim>\<open>runAsync\<close>), or
  change the rest of the program between the steps.
\<close>

type_synonym ('w, 'a) task_system = "('w, 'a) task_cell \<times> 'w \<times> perform_pc list"

definition advance :: "perform_pc \<Rightarrow> perform_pc \<Rightarrow> bool outcome \<Rightarrow> perform_pc" where
  "advance next stop r = (case r of Inr go \<Rightarrow> if go then next else stop | Inl _ \<Rightarrow> Crashed)"

inductive task_step :: "bool \<Rightarrow> ('w, 'a) task_system \<Rightarrow> ('w, 'a) task_system \<Rightarrow> bool" for ndebug where
  check: "i < length ps \<Longrightarrow> ps ! i = AtCheck \<Longrightarrow> perform_check (c, w) = (r, (c', w')) \<Longrightarrow>
    task_step ndebug (c, w, ps) (c', w', ps[i := advance AtStart Returned r])"
| start: "i < length ps \<Longrightarrow> ps ! i = AtStart \<Longrightarrow> perform_start spurious (c, w) = (r, (c', w')) \<Longrightarrow>
    task_step ndebug (c, w, ps) (c', w', ps[i := advance AtBody Returned r])"
| body: "i < length ps \<Longrightarrow> ps ! i = AtBody \<Longrightarrow> perform_body (c, w) = (r, (c', w')) \<Longrightarrow>
    task_step ndebug (c, w, ps) (c', w', ps[i := (case r of Inr _ \<Rightarrow> AtFinish | Inl _ \<Rightarrow> Crashed)])"
| finish: "i < length ps \<Longrightarrow> ps ! i = AtFinish \<Longrightarrow> perform_finish ndebug spurious (c, w) = (r, (c', w')) \<Longrightarrow>
    task_step ndebug (c, w, ps) (c', w', ps[i := (case r of Inr _ \<Rightarrow> Returned | Inl _ \<Rightarrow> Crashed)])"
| cancel: "task_step ndebug (c, w, ps) (c\<lparr>t_status := snd (state_tryCancel spurious (t_status c))\<rparr>, w, ps)"
| run_async: "task_step ndebug (c, w, ps) (c, w, ps @ [AtCheck])"
| elsewhere: "task_step ndebug (c, w, ps) (c, w', ps)"

inductive task_run_of :: "bool \<Rightarrow> ('w, 'a) eff \<Rightarrow> ('w, 'a) task_system \<Rightarrow> bool" for ndebug fn where
  created: "task_run_of ndebug fn (action_create fn, w, [])"
| step: "task_run_of ndebug fn s \<Longrightarrow> task_step ndebug s s' \<Longrightarrow> task_run_of ndebug fn s'"

inductive_cases task_stepE: "task_step ndebug (c, w, ps) (c', w', ps')"

lemma count_list_update:
  "i < length xs \<Longrightarrow> count_list (xs[i := x]) y + (if xs ! i = y then 1 else 0)
     = count_list xs y + (if x = y then 1 else 0)"
proof (induction xs arbitrary: i)
  case (Cons a xs)
  show ?case
  proof (cases i)
    case (Suc j)
    then show ?thesis using Cons.IH [of j] Cons.prems by auto
  qed simp
qed simp

definition task_inv :: "('w, 'a) task_cell \<Rightarrow> perform_pc list \<Rightarrow> bool" where
  "task_inv c ps \<longleftrightarrow>
     count_list ps AtBody + t_runs c = (if t_status c = InProgress \<or> t_status c = Completed then 1 else 0)
     \<and> count_list ps AtFinish \<le> (if t_status c = InProgress then t_runs c else 0)
     \<and> (count_list ps AtFinish > 0 \<or> t_status c = Completed \<longrightarrow> t_result c \<noteq> None \<and> t_runs c = 1)
     \<and> (t_runs c = 0 \<longrightarrow> t_result c = None \<or> t_status c = Cancelled \<and> t_result c = Some (Inl cancelled_exn))"

text \<open>Replacing the position of one thread, from one position to another.\<close>

lemma count_moves:
  assumes "i < length ps" and "ps ! i = p"
  shows "count_list (ps[i := q]) r + (if p = r then 1 else 0) = count_list ps r + (if q = r then 1 else 0)"
  using count_list_update [OF assms(1), of q r] assms(2) by simp

lemma status_of_cancel:
  "snd (state_tryCancel spurious s) = (if s = Created \<and> \<not> spurious then Cancelled else s)"
  by (simp add: cas_defs)

lemma task_step_inv:
  assumes "task_step ndebug (c, w, ps) (c', w', ps')" and "task_inv c ps"
  shows "task_inv c' ps'"
  using assms(1)
proof cases
  case (check i r)
  note m = count_moves [OF check(2,3), of "advance AtStart Returned r"]
  have "advance AtStart Returned r \<notin> {AtBody, AtFinish}"
    by (simp add: advance_def split: sum.split)
  then have "count_list ps' AtBody = count_list ps AtBody" "count_list ps' AtFinish = count_list ps AtFinish"
    using m [of AtBody] m [of AtFinish] check(1) by auto
  moreover have "c' = c \<or> (t_status c = Cancelled \<and> t_result c = None \<and> c' = c\<lparr>t_result := Some (Inl cancelled_exn)\<rparr>)"
    using check(4) by (cases "t_status c = Cancelled"; cases "t_result c") (auto simp: perform_check_cases)
  ultimately show ?thesis
    using assms(2) by (auto simp: task_inv_def)
next
  case (start i sp r)
  note m = count_moves [OF start(2,3), of "advance AtBody Returned r"]
  show ?thesis
    using m [of AtBody] m [of AtFinish] assms(2) start(1,4)
    by (auto simp: task_inv_def perform_start_cases advance_def split: if_splits)
next
  case (body i r)
  let ?q = "case r of Inr _ \<Rightarrow> AtFinish | Inl _ \<Rightarrow> Crashed"
  have pos: "count_list ps AtBody > 0"
    using body(2,3) by (metis count_list_0_iff gr0I nth_mem)
  then have prog: "t_status c = InProgress" "t_runs c = 0" "count_list ps AtBody = 1"
    using assms(2) by (auto simp: task_inv_def split: if_splits)
  then have res: "t_result c = None"
    using assms(2) by (auto simp: task_inv_def)
  note st = perform_body_state [OF body(4) res]
  show ?thesis
    using count_moves [OF body(2,3), of ?q AtBody] count_moves [OF body(2,3), of ?q AtFinish] st prog assms(2) body(1)
    by (auto simp: task_inv_def split: sum.splits)
next
  case (finish i sp r)
  let ?q = "case r of Inr _ \<Rightarrow> Returned | Inl _ \<Rightarrow> Crashed"
  have pos: "count_list ps AtFinish > 0"
    using finish(2,3) by (metis count_list_0_iff gr0I nth_mem)
  have "?q \<notin> {AtBody, AtFinish}" by (simp split: sum.split)
  then have "count_list ps' AtBody = count_list ps AtBody" "count_list ps' AtFinish + 1 = count_list ps AtFinish"
    using count_moves [OF finish(2,3), of ?q AtBody] count_moves [OF finish(2,3), of ?q AtFinish] finish(1) by auto
  with perform_finish_cases(3) [OF finish(4)] pos assms(2) show ?thesis
    by (auto simp: task_inv_def split: if_splits)
next
  case (cancel sp)
  then show ?thesis
    using assms(2) by (auto simp: task_inv_def status_of_cancel split: if_splits)
next
  case run_async
  then show ?thesis using assms(2) by (simp add: task_inv_def)
next
  case elsewhere
  then show ?thesis using assms(2) by simp
qed

lemma task_run_inv: "task_run_of ndebug fn s \<Longrightarrow> (case s of (c, w, ps) \<Rightarrow> task_inv c ps)"
proof (induction rule: task_run_of.induct)
  case (created w)
  show ?case by (simp add: task_inv_def action_create_def)
next
  case (step s s')
  then show ?case
    using task_step_inv by (cases s; cases s') fastforce
qed

lemma task_step_keeps_result:
  assumes "task_step ndebug (c, w, ps) (c', w', ps')" and "task_inv c ps" and "t_result c \<noteq> None"
  shows "t_result c' = t_result c"
  using assms(1)
proof cases
  case (check i r)
  then show ?thesis
    using assms(3) by (cases "t_status c = Cancelled") (auto simp: perform_check_cases)
next
  case (body i r)
  have "count_list ps AtBody > 0"
    using body(2,3) by (metis count_list_0_iff gr0I nth_mem)
  then have "t_result c = None"
    using assms(2) by (auto simp: task_inv_def split: if_splits)
  with assms(3) show ?thesis by simp
next
  case (finish i sp r)
  with perform_finish_cases(3) show ?thesis by fastforce
qed (auto simp: perform_start_cases split: if_splits)

lemma task_step_terminal:
  assumes "task_step ndebug (c, w, ps) (c', w', ps')" and "task_inv c ps"
    and "t_status c = Cancelled \<or> t_status c = Completed"
  shows "t_status c' = t_status c"
  using assms(1)
proof cases
  case (check i r)
  then show ?thesis
    by (cases "t_status c = Cancelled"; cases "t_result c") (auto simp: perform_check_cases)
next
  case (body i r)
  have "count_list ps AtBody > 0"
    using body(2,3) by (metis count_list_0_iff gr0I nth_mem)
  then have "t_result c = None"
    using assms(2) by (auto simp: task_inv_def split: if_splits)
  with perform_body_state [OF body(4)] show ?thesis by simp
next
  case (finish i sp r)
  with perform_finish_cases(3) assms(3) show ?thesis by fastforce
qed (use assms(3) in \<open>auto simp: perform_start_cases status_of_cancel split: if_splits\<close>)

text \<open>C5: Whatever threads perform and cancel one task, in whatever interleaving: its operation is
  called at most once and by one thread at a time, never after a successful cancellation;
  a completed task has a result; and once there is a result, or the task is cancelled or
  completed, that never changes.\<close>

theorem task_runs_at_most_once:
  assumes "task_run_of ndebug fn (c, w, ps)"
  shows "t_runs c + count_list ps AtBody \<le> 1
    \<and> (t_status c = Cancelled \<longrightarrow> t_runs c = 0 \<and> AtBody \<notin> set ps)
    \<and> (t_status c = Completed \<longrightarrow> t_runs c = 1 \<and> t_result c \<noteq> None)
    \<and> (\<forall>c' w' ps'. task_step ndebug (c, w, ps) (c', w', ps') \<longrightarrow>
         (t_result c \<noteq> None \<longrightarrow> t_result c' = t_result c)
         \<and> (t_status c = Cancelled \<or> t_status c = Completed \<longrightarrow> t_status c' = t_status c))"
proof -
  have inv: "task_inv c ps" using task_run_inv [OF assms] by simp
  then have "t_runs c + count_list ps AtBody \<le> 1"
    "t_status c = Cancelled \<longrightarrow> t_runs c = 0 \<and> AtBody \<notin> set ps"
    "t_status c = Completed \<longrightarrow> t_runs c = 1 \<and> t_result c \<noteq> None"
    by (auto simp: task_inv_def count_list_0_iff split: if_splits)
  then show ?thesis
    using task_step_keeps_result [OF _ inv] task_step_terminal [OF _ inv] by blast
qed

text \<open>The start of a performance and its first step, for the examples.\<close>

lemma task_run_started:
  "task_run_of ndebug fn (action_create fn, w, [AtStart])"
proof -
  have "task_run_of ndebug fn (action_create fn, w, [] @ [AtCheck])"
    by (rule task_run_of.step [OF task_run_of.created task_step.run_async])
  moreover have "task_step ndebug (action_create fn, w, [AtCheck])
      (action_create fn, w, [AtCheck][0 := advance AtStart Returned (Inr True)])"
    by (rule task_step.check) (simp_all add: perform_check_cases action_create_def)
  ultimately show ?thesis
    by (auto intro: task_run_of.step simp: advance_def)
qed

theorem task_runs_at_most_once_witness:
  "t_runs (action_create (\<lambda>w::nat. (Inr w, w))) + count_list [AtStart] AtBody \<le> 1"
  by (rule conjunct1 [OF task_runs_at_most_once [OF task_run_started [of True _ 0]]])

text \<open>C37: A cancellation between the two tests of \<^verbatim>\<open>perform\<close> loses the result: \<^verbatim>\<open>tryCancel\<close> reports
  success, the performance returns without giving the promise anything, and \<^verbatim>\<open>getResult\<close>
  waits for ever unless the task is performed once more.\<close>

theorem cancellation_can_lose_the_result:
  "\<exists>c. task_run_of ndebug fn (c, w, [Returned])
     \<and> fst (state_tryCancel False (t_status (action_create fn))) = CancelSuccess
     \<and> state_isCancelled (t_status c)
     \<and> (\<forall>c' w' ps'. (task_step ndebug)\<^sup>*\<^sup>* (c, w, [Returned]) (c', w', ps') \<longrightarrow> length ps' = 1 \<longrightarrow>
          fst (awaiter_get c') = None)"
proof -
  let ?c = "(action_create fn)\<lparr>t_status := Cancelled\<rparr>"
  have "task_step ndebug (action_create fn, w, [AtStart]) (?c, w, [AtStart])"
    using task_step.cancel [of ndebug "action_create fn" w "[AtStart]" False]
    by (simp add: status_of_cancel action_create_def)
  moreover have "task_step ndebug (?c, w, [AtStart]) (?c, w, [AtStart][0 := advance AtBody Returned (Inr False)])"
    by (rule task_step.start [where spurious = False]) (simp_all add: perform_start_cases)
  ultimately have run: "task_run_of ndebug fn (?c, w, [Returned])"
    using task_run_of.step [OF task_run_of.step [OF task_run_started]] by (simp add: advance_def)
  have one: "t_result c2 = None \<and> \<not> t_retrieved c2 \<and> (ps2 = [Returned] \<or> length ps2 > 1)"
    if "task_step ndebug (c1, w1, ps1) (c2, w2, ps2)"
      and "length ps1 > 1 \<or> (t_result c1 = None \<and> \<not> t_retrieved c1 \<and> ps1 = [Returned])"
      and "length ps2 = 1 \<or> length ps1 = 1"
    for c1 c2 w1 w2 ps1 ps2
    using that(1) by cases (use that(2,3) in \<open>auto simp: less_Suc_eq\<close>)
  have len: "length ps1 \<le> length ps2" if "task_step ndebug (c1, w1, ps1) (c2, w2, ps2)" for c1 c2 w1 w2 ps1 ps2
    using that by cases auto
  have "length (snd (snd s)) > 1 \<or> (t_result (fst s) = None \<and> \<not> t_retrieved (fst s) \<and> snd (snd s) = [Returned])"
    if "(task_step ndebug)\<^sup>*\<^sup>* (?c, w, [Returned]) s" for s
    using that
  proof (induction rule: rtranclp_induct)
    case base
    show ?case by (simp add: action_create_def)
  next
    case (step s1 s2)
    obtain c1 w1 ps1 c2 w2 ps2 where s: "s1 = (c1, w1, ps1)" "s2 = (c2, w2, ps2)"
      by (metis prod_cases3)
    then show ?case
      using one [of c1 w1 ps1 c2 w2 ps2] len [of c1 w1 ps1 c2 w2 ps2] step by auto
  qed
  then have "fst (awaiter_get c') = None"
    if "(task_step ndebug)\<^sup>*\<^sup>* (?c, w, [Returned]) (c', w', ps')" and "length ps' = 1" for c' w' ps'
    using that by (fastforce simp: awaiter_get_def)
  with run show ?thesis
    by (intro exI [of _ ?c]) (auto simp: state_isCancelled_def cas_defs action_create_def)
qed

theorem cancellation_can_lose_the_result_witness:
  "\<exists>c. task_run_of True (\<lambda>n::nat. (Inr n, n)) (c, 0, [Returned]) \<and> fst (awaiter_get c) = None"
proof -
  obtain c where "task_run_of True (\<lambda>n::nat. (Inr n, n)) (c, 0, [Returned])"
    and w: "\<forall>c' w' ps'. (task_step True)\<^sup>*\<^sup>* (c, 0, [Returned]) (c', w', ps') \<longrightarrow> length ps' = 1 \<longrightarrow>
          fst (awaiter_get c') = None"
    using cancellation_can_lose_the_result [of True "\<lambda>n::nat. (Inr n, n)" 0] by blast
  moreover have "length [Returned] = 1" by simp
  ultimately show ?thesis by blast
qed

text \<open>In a build with \<^verbatim>\<open>NDEBUG\<close> no task is ever completed: the change of the status stands inside
  \<^verbatim>\<open>assert\<close>.  \<^verbatim>\<open>isCompleted\<close> stays false, and a finished task answers a cancellation with
  \<^verbatim>\<open>TaskAlreadyInProgress\<close>.\<close>

theorem release_build_never_completes:
  assumes "task_run_of True fn (c, w, ps)"
  shows "\<not> state_isCompleted (t_status c)
    \<and> (t_runs c = 1 \<longrightarrow> fst (state_tryCancel spurious (t_status c)) = TaskAlreadyInProgress)"
proof -
  have "t_status (fst s) \<noteq> Completed" if "task_run_of True fn s" for s
    using that
  proof (induction rule: task_run_of.induct)
    case (step s s')
    obtain c w ps c' w' ps' where s: "s = (c, w, ps)" "s' = (c', w', ps')"
      by (metis prod_cases3)
    have inv: "task_inv c ps"
      using task_run_inv [OF step.hyps(1)] s by simp
    have "t_status c' \<noteq> Completed"
      using step.hyps(2) [unfolded s]
    proof cases
      case (check i r)
      then show ?thesis
        using step.IH s by (cases "t_status c = Cancelled"; cases "t_result c") (auto simp: perform_check_cases)
    next
      case (body i r)
      have "count_list ps AtBody > 0"
        using body(2,3) by (metis count_list_0_iff gr0I nth_mem)
      then have "t_result c = None"
        using inv by (auto simp: task_inv_def split: if_splits)
      with perform_body_state [OF body(4)] step.IH s show ?thesis by simp
    qed (use step.IH s in \<open>auto simp: perform_start_cases perform_finish_cases status_of_cancel split: if_splits\<close>)
    then show ?case by (simp add: s)
  qed (simp add: action_create_def)
  from this [OF assms] show ?thesis
    using task_run_inv [OF assms] by (auto simp: state_isCompleted_def task_inv_def cas_defs split: if_splits)
qed

theorem release_build_never_completes_witness:
  "\<not> state_isCompleted (t_status (action_create (\<lambda>w::nat. (Inr w, w))))"
  by (rule conjunct1 [OF release_build_never_completes [OF task_run_started [of True _ 0]]])

text \<open>An example\<close>

definition no_tasks :: "('w, 'a) task_heap" where
  "no_tasks = \<lparr>cells = (\<lambda>_. action_create (eff_fail (Fault NullDereference))), next_cell = 0\<rparr>"

theorem submit_then_get_result_witness:
  "\<exists>t h'. executor_submit (base_executor True False False) () (\<lambda>n::nat. (Inr (n + 1), n * 2)) (no_tasks, 21)
        = (Inr t, (h', 42)) \<and> fst (getResult t (h', 42)) = Inr (Some (Inr 22))"
  using submit_then_get_result [of "\<lambda>n::nat. (Inr (n + 1), n * 2)" 21 "Inr 22" 42 True "()" no_tasks]
  by (auto simp: promised_def)

end
