(* ===== verification/Thread_Pool.thy ===== *)
theory Thread_Pool
  imports Task_Model "HOL-Library.Multiset"
begin

text \<open>
  \<^verbatim>\<open>executors/thread_pool_task_executor.hpp\<close> and \<^verbatim>\<open>.cpp\<close>: the workers as threads that
  take turns in the sections the queue's mutex makes atomic.  A worker in
  \<^verbatim>\<open>m_cv.wait\<close> sleeps until it is notified, or wakes by itself; then it evaluates the
  predicate again.
\<close>

datatype worker_pc =
    WTest        \<comment> \<open>\<^verbatim>\<open>while (!m_done)\<close>\<close>
  | WWait        \<comment> \<open>about to evaluate the predicate of \<^verbatim>\<open>m_cv.wait\<close>\<close>
  | WBlocked     \<comment> \<open>asleep\<close>
  | WWoken       \<comment> \<open>\<^verbatim>\<open>if (m_done) return;\<close>\<close>
  | WDrain       \<comment> \<open>\<^verbatim>\<open>while (true)\<close>\<close>
  | WPerform nat \<comment> \<open>\<^verbatim>\<open>action->perform()\<close>\<close>
  | WExit

record thread_pool =
  m_done :: bool
  m_workers :: "worker_pc list"
  m_actions :: "nat list"

definition pool_new :: "nat \<Rightarrow> thread_pool" where
  "pool_new worker_count = \<lparr>m_done = False, m_workers = replicate worker_count WTest, m_actions = []\<rparr>"

text \<open>Notifying lets a sleeping worker evaluate its predicate.\<close>

definition wake :: "worker_pc \<Rightarrow> worker_pc" where
  "wake pc = (if pc = WBlocked then WWait else pc)"

definition notify_one :: "nat \<Rightarrow> thread_pool \<Rightarrow> thread_pool" where
  "notify_one j p = p\<lparr>m_workers := (m_workers p)[j := wake (m_workers p ! j)]\<rparr>"

definition notify_all :: "thread_pool \<Rightarrow> thread_pool" where
  "notify_all p = p\<lparr>m_workers := map wake (m_workers p)\<rparr>"

text \<open>The next section of a worker; \<open>locked\<close>: \<^verbatim>\<open>try_lock\<close> finds the mutex taken, or fails spuriously.\<close>

fun startWorker :: "bool \<Rightarrow> worker_pc \<Rightarrow> thread_pool \<Rightarrow> worker_pc \<times> thread_pool" where
  "startWorker locked WTest p = (if \<not> m_done p then WWait else WExit, p)"
| "startWorker locked WWait p = (if m_actions p \<noteq> [] \<or> m_done p then WWoken else WBlocked, p)"
| "startWorker locked WBlocked p = (WBlocked, p)"
| "startWorker locked WWoken p = (if m_done p then WExit else WDrain, p)"
| "startWorker locked WDrain p =
     (if locked then (WDrain, p)
      else case m_actions p of
             [] \<Rightarrow> (WTest, p)
           | action # rest \<Rightarrow> (WPerform action, p\<lparr>m_actions := rest\<rparr>))"
| "startWorker locked (WPerform action) p = (WDrain, p)"
| "startWorker locked WExit p = (WExit, p)"

text \<open>\<open>j\<close> is the worker that the notification reaches.\<close>

definition pool_doExecute :: "nat \<Rightarrow> nat \<Rightarrow> thread_pool \<Rightarrow> thread_pool" where
  "pool_doExecute j action p = notify_one j (p\<lparr>m_actions := m_actions p @ [action]\<rparr>)"

definition pool_doTerminate :: "thread_pool \<Rightarrow> thread_pool" where
  "pool_doTerminate p = p\<lparr>m_done := True\<rparr>"

definition pool_doTerminatingCheck :: "thread_pool \<Rightarrow> bool" where
  "pool_doTerminatingCheck p = m_done p"

text \<open>The destructor up to the joins, and whether these return.\<close>

definition pool_shutdown :: "thread_pool \<Rightarrow> thread_pool" where
  "pool_shutdown p = notify_all (p\<lparr>m_done := True\<rparr>)"

definition pool_joined :: "thread_pool \<Rightarrow> bool" where
  "pool_joined p \<longleftrightarrow> list_all (\<lambda>pc. pc = WExit) (m_workers p)"

subsection \<open>Steps\<close>

definition worker_moves :: "bool \<Rightarrow> nat \<Rightarrow> thread_pool \<Rightarrow> thread_pool" where
  "worker_moves locked i p =
     (let (pc, p') = startWorker locked (m_workers p ! i) p in p'\<lparr>m_workers := (m_workers p')[i := pc]\<rparr>)"

datatype pool_event = PSubmitted nat | PTaken nat nat | PPerformed nat nat | PInternal

definition event_of :: "nat \<Rightarrow> bool \<Rightarrow> thread_pool \<Rightarrow> pool_event" where
  "event_of i locked p =
     (case m_workers p ! i of
        WDrain \<Rightarrow> if locked \<or> m_actions p = [] then PInternal else PTaken i (hd (m_actions p))
      | WPerform a \<Rightarrow> PPerformed i a
      | _ \<Rightarrow> PInternal)"

text \<open>The actions of the tasks change the heap of tasks and the rest of the program when they are performed.\<close>

definition perform_at :: "bool \<Rightarrow> bool \<Rightarrow> bool \<Rightarrow> thread_pool \<Rightarrow> nat
    \<Rightarrow> ('w, 'a) task_heap \<times> 'w \<Rightarrow> ('w, 'a) task_heap \<times> 'w" where
  "perform_at ndebug s1 s2 p i hw =
     (case m_workers p ! i of WPerform a \<Rightarrow> snd (at_cell a (perform ndebug s1 s2) hw) | _ \<Rightarrow> hw)"

inductive pool_step ::
  "bool \<Rightarrow> pool_event \<Rightarrow> thread_pool \<times> ('w, 'a) task_heap \<times> 'w
     \<Rightarrow> thread_pool \<times> ('w, 'a) task_heap \<times> 'w \<Rightarrow> bool" for ndebug where
  execute: "WBlocked \<in> set (m_workers p) \<longrightarrow> j < length (m_workers p) \<and> m_workers p ! j = WBlocked \<Longrightarrow>
    pool_step ndebug (PSubmitted a) (p, hw) (pool_doExecute j a p, hw)"
| worker: "i < length (m_workers p) \<Longrightarrow>
    pool_step ndebug (event_of i locked p) (p, hw) (worker_moves locked i p, perform_at ndebug s1 s2 p i hw)"
| spurious: "pool_step ndebug PInternal (p, hw) (notify_one j p, hw)"
| terminate: "pool_step ndebug PInternal (p, hw) (pool_doTerminate p, hw)"
| shutdown: "pool_step ndebug PInternal (p, hw) (pool_shutdown p, hw)"
| elsewhere: "pool_step ndebug PInternal (p, hw) (p, hw')"

inductive pool_run ::
  "bool \<Rightarrow> thread_pool \<times> ('w, 'a) task_heap \<times> 'w \<Rightarrow> pool_event list
     \<Rightarrow> thread_pool \<times> ('w, 'a) task_heap \<times> 'w \<Rightarrow> bool" for ndebug where
  stop: "pool_run ndebug s [] s"
| go: "pool_run ndebug s es s' \<Longrightarrow> pool_step ndebug e s' s'' \<Longrightarrow> pool_run ndebug s (es @ [e]) s''"

definition submitted :: "pool_event \<Rightarrow> nat list" where
  "submitted e = (case e of PSubmitted a \<Rightarrow> [a] | _ \<Rightarrow> [])"

definition taken :: "pool_event \<Rightarrow> nat list" where
  "taken e = (case e of PTaken i a \<Rightarrow> [a] | _ \<Rightarrow> [])"

definition performed :: "pool_event \<Rightarrow> nat list" where
  "performed e = (case e of PPerformed i a \<Rightarrow> [a] | _ \<Rightarrow> [])"

definition in_hand :: "worker_pc \<Rightarrow> nat multiset" where
  "in_hand pc = (case pc of WPerform a \<Rightarrow> {#a#} | _ \<Rightarrow> {#})"

definition in_hands :: "thread_pool \<Rightarrow> nat multiset" where
  "in_hands p = (\<Sum>pc \<leftarrow> m_workers p. in_hand pc)"

lemma in_hand_wake [simp]: "in_hand (wake pc) = in_hand pc"
  by (simp add: wake_def in_hand_def)

lemma sum_list_update_mset:
  fixes f :: "'b \<Rightarrow> 'c multiset"
  assumes "i < length xs"
  shows "(\<Sum>x \<leftarrow> xs[i := y]. f x) + f (xs ! i) = (\<Sum>x \<leftarrow> xs. f x) + f y"
  using assms
proof (induction xs arbitrary: i)
  case (Cons a xs)
  show ?case
  proof (cases i)
    case (Suc j)
    then show ?thesis using Cons.IH [of j] Cons.prems by (simp add: ac_simps)
  qed simp
qed simp

lemma in_hands_notify [simp]:
  "in_hands (notify_one j p) = in_hands p"
  "in_hands (notify_all p) = in_hands p"
proof -
  show "in_hands (notify_one j p) = in_hands p"
    using sum_list_update_mset [of j "m_workers p" in_hand "wake (m_workers p ! j)"]
    by (cases "j < length (m_workers p)") (simp_all add: in_hands_def notify_one_def list_update_beyond)
  show "in_hands (notify_all p) = in_hands p"
    by (simp add: in_hands_def notify_all_def comp_def)
qed

lemma pool_step_accounts:
  assumes "pool_step ndebug e (p, hw) (p', hw')"
  shows "taken e @ m_actions p' = m_actions p @ submitted e
    \<and> mset (performed e) + in_hands p' = mset (taken e) + in_hands p"
  using assms
proof cases
  case (execute j a)
  have "in_hands (p\<lparr>m_actions := q\<rparr>) = in_hands p" for q by (simp add: in_hands_def)
  with execute show ?thesis
    by (simp add: pool_doExecute_def submitted_def taken_def performed_def) (simp add: notify_one_def)
next
  case (worker i locked s1 s2)
  show ?thesis
    using worker sum_list_update_mset [of i "m_workers p" in_hand]
    by (cases "m_workers p ! i"; cases "m_actions p"; cases locked)
      (auto simp: worker_moves_def event_of_def submitted_def taken_def performed_def in_hands_def in_hand_def)
next
  case (spurious j)
  then show ?thesis
    by (simp add: submitted_def taken_def performed_def) (simp add: notify_one_def)
next
  case terminate
  then show ?thesis
    by (simp add: submitted_def taken_def performed_def pool_doTerminate_def in_hands_def)
next
  case shutdown
  have "in_hands (p\<lparr>m_done := True\<rparr>) = in_hands p" by (simp add: in_hands_def)
  with shutdown show ?thesis
    by (simp add: submitted_def taken_def performed_def pool_shutdown_def) (simp add: notify_all_def)
next
  case elsewhere
  then show ?thesis by (simp add: submitted_def taken_def performed_def)
qed

lemma pool_run_accounts:
  fixes hw hw' :: "('w, 'a) task_heap \<times> 'w"
  assumes "pool_run ndebug (pool_new n, hw) es (p, hw')"
  shows "concat (map taken es) @ m_actions p = concat (map submitted es)
    \<and> mset (concat (map performed es)) + in_hands p = mset (concat (map taken es))"
proof -
  have "concat (map taken es) @ m_actions (fst s') = m_actions (fst s) @ concat (map submitted es)
    \<and> mset (concat (map performed es)) + in_hands (fst s') = mset (concat (map taken es)) + in_hands (fst s)"
    if "pool_run ndebug s es s'" for s :: "thread_pool \<times> ('w, 'a) task_heap \<times> 'w" and es s'
    using that
  proof (induction rule: pool_run.induct)
    case (go s es s' e s'')
    obtain p hw p' hw' where s: "s' = (p, hw)" "s'' = (p', hw')"
      by (metis prod.exhaust)
    have t: "taken e @ m_actions p' = m_actions p @ submitted e"
      "mset (performed e) + in_hands p' = mset (taken e) + in_hands p"
      using pool_step_accounts [of ndebug e p hw p' hw'] go.hyps(2) s by auto
    have "concat (map taken (es @ [e])) @ m_actions p' = (concat (map taken es) @ m_actions p) @ submitted e"
      by (simp add: t(1))
    also have "\<dots> = m_actions (fst s) @ concat (map submitted (es @ [e]))"
      using go.IH s by simp
    finally have q: "concat (map taken (es @ [e])) @ m_actions p' = m_actions (fst s) @ concat (map submitted (es @ [e]))" .
    have "mset (concat (map performed (es @ [e]))) + in_hands p'
        = mset (concat (map performed es)) + (mset (performed e) + in_hands p')"
      by simp
    also have "\<dots> = (mset (concat (map performed es)) + in_hands p) + mset (taken e)"
      unfolding t(2) by (simp add: ac_simps)
    also have "\<dots> = mset (concat (map taken (es @ [e]))) + in_hands (fst s)"
      using go.IH s by (simp add: ac_simps)
    finally show ?case
      using q s by simp
  qed simp
  note this [OF assms]
  moreover have "in_hands (pool_new n) = {#}"
    by (induction n) (simp_all add: pool_new_def in_hands_def in_hand_def)
  ultimately show ?thesis
    by (simp add: pool_new_def)
qed

text \<open>No wake-up is lost: while there is work and the pool is not done, some worker is awake.\<close>

definition someone_awake :: "thread_pool \<Rightarrow> bool" where
  "someone_awake p \<longleftrightarrow> (\<exists>i < length (m_workers p). m_workers p ! i \<noteq> WBlocked \<and> m_workers p ! i \<noteq> WExit)"

definition pool_inv :: "thread_pool \<Rightarrow> bool" where
  "pool_inv p \<longleftrightarrow> (m_done p \<or> WExit \<notin> set (m_workers p))
     \<and> (m_actions p \<noteq> [] \<and> \<not> m_done p \<and> m_workers p \<noteq> [] \<longrightarrow> someone_awake p)"

lemma wake_neq_exit [simp]: "wake pc = WExit \<longleftrightarrow> pc = WExit"
  by (simp add: wake_def)

lemma wake_neq_blocked [simp]: "wake pc \<noteq> WBlocked"
  by (simp add: wake_def)

lemma someone_awake_notify:
  assumes "someone_awake p"
  shows "someone_awake (notify_one j p)"
proof -
  obtain i where i: "i < length (m_workers p)" "m_workers p ! i \<noteq> WBlocked" "m_workers p ! i \<noteq> WExit"
    using assms by (auto simp: someone_awake_def)
  then have "m_workers (notify_one j p) ! i = m_workers p ! i"
    by (cases "i = j") (simp_all add: notify_one_def wake_def)
  with i show ?thesis
    unfolding someone_awake_def by (intro exI [of _ i]) (simp add: notify_one_def)
qed

lemma exits_notify [simp]:
  "WExit \<in> set (m_workers (notify_one j p)) \<longleftrightarrow> WExit \<in> set (m_workers p)"
proof (cases "j < length (m_workers p)")
  case True
  then show ?thesis
    by (auto simp: notify_one_def in_set_conv_nth nth_list_update split: if_splits)
qed (simp add: notify_one_def list_update_beyond)

text \<open>A new action: the notification reaches a worker that sleeps, when there is one.\<close>

lemma pool_inv_execute:
  assumes "pool_inv p" and "WBlocked \<in> set (m_workers p) \<longrightarrow> j < length (m_workers p) \<and> m_workers p ! j = WBlocked"
  shows "pool_inv (pool_doExecute j a p)"
proof -
  let ?q = "p\<lparr>m_actions := m_actions p @ [a]\<rparr>"
  have "someone_awake (notify_one j ?q)" if "\<not> m_done p" "m_workers p \<noteq> []"
  proof (cases "WBlocked \<in> set (m_workers p)")
    case True
    then have "j < length (m_workers p)" "m_workers p ! j = WBlocked"
      using assms(2) by auto
    then show ?thesis
      by (auto simp: someone_awake_def notify_one_def wake_def intro!: exI [of _ j])
  next
    case False
    have "WExit \<notin> set (m_workers p)" using assms(1) that by (simp add: pool_inv_def)
    with False that(2) have "someone_awake ?q"
      by (auto simp: someone_awake_def in_set_conv_nth intro!: exI [of _ 0])
    then show ?thesis by (rule someone_awake_notify)
  qed
  then show ?thesis
    using assms(1) by (auto simp: pool_inv_def pool_doExecute_def) (auto simp: notify_one_def)
qed

text \<open>A section of a worker: it falls asleep only when the queue is empty.\<close>

lemma startWorker_section:
  assumes "startWorker locked pc p = (pc', q)" and "\<not> m_done p"
  shows "m_workers q = m_workers p" "m_done q = m_done p" "pc' \<noteq> WExit \<or> pc = WExit"
    "pc' = WBlocked \<longrightarrow> m_actions q = [] \<or> pc = WBlocked"
  using assms by (cases pc; cases "m_actions p"; cases locked; auto)+

lemma pool_inv_worker:
  assumes "pool_inv p" and "i < length (m_workers p)" and "\<not> m_done p"
  shows "pool_inv (worker_moves locked i p)"
proof -
  let ?pc = "m_workers p ! i" and ?p' = "worker_moves locked i p"
  have ne: "WExit \<notin> set (m_workers p)" using assms(1,3) by (simp add: pool_inv_def)
  obtain pc' q where s: "startWorker locked ?pc p = (pc', q)" by (rule prod.exhaust)
  note q = startWorker_section [OF s assms(3)]
  have p': "?p' = q\<lparr>m_workers := (m_workers p)[i := pc']\<rparr>"
    using s q(1) by (simp add: worker_moves_def)
  have "?pc \<noteq> WExit" using ne assms(2) by (metis nth_mem)
  then have no_exit: "WExit \<notin> set ((m_workers p)[i := pc'])"
    using q(3) ne set_update_subset_insert [of "m_workers p" i pc'] by auto
  have "someone_awake ?p'" if "m_actions ?p' \<noteq> []"
  proof (cases "pc' = WBlocked")
    case True
    then have pc: "?pc = WBlocked" "m_actions p \<noteq> []"
      using q(4) that p' s by (auto split: if_splits)
    then have "someone_awake p" using assms by (auto simp: pool_inv_def)
    then show ?thesis
      using True pc p' by (simp add: someone_awake_def) (metis list_update_id)
  next
    case False
    with q(3) \<open>?pc \<noteq> WExit\<close> show ?thesis
      using p' assms(2) by (auto simp: someone_awake_def intro!: exI [of _ i])
  qed
  then show ?thesis using p' no_exit by (simp add: pool_inv_def)
qed

lemma pool_step_inv:
  assumes "pool_step ndebug e (p, hw) (p', hw')" and "pool_inv p"
  shows "pool_inv p'"
  using assms(1)
proof cases
  case (execute j a)
  then show ?thesis using pool_inv_execute [OF assms(2)] by simp
next
  case (worker i locked s1 s2)
  show ?thesis
  proof (cases "m_done p")
    case True
    then have "m_done p'"
      using worker by (cases "m_workers p ! i"; cases "m_actions p") (auto simp: worker_moves_def)
    then show ?thesis by (simp add: pool_inv_def)
  next
    case False
    then show ?thesis using pool_inv_worker [OF assms(2)] worker by simp
  qed
next
  case (spurious j)
  then show ?thesis
    using assms(2) someone_awake_notify
    by (auto simp: pool_inv_def) (auto simp: notify_one_def)
qed (use assms(2) in \<open>simp_all add: pool_inv_def pool_doTerminate_def pool_shutdown_def notify_all_def\<close>)

lemma pool_run_inv:
  fixes s s' :: "thread_pool \<times> ('w, 'a) task_heap \<times> 'w"
  assumes "pool_run ndebug s es s'" and "pool_inv (fst s)"
  shows "pool_inv (fst s')"
  using assms
proof (induction rule: pool_run.induct)
  case (go s es s' e s'')
  then show ?case
    using pool_step_inv by (cases s'; cases s'') fastforce
qed

subsection \<open>Shutting down\<close>

text \<open>A step of a worker that gets the lock, and a measure of what is left to do.\<close>

inductive drain_step :: "thread_pool \<Rightarrow> thread_pool \<Rightarrow> bool" where
  "i < length (m_workers p) \<Longrightarrow> m_workers p ! i \<noteq> WBlocked \<Longrightarrow> m_workers p ! i \<noteq> WExit \<Longrightarrow>
   drain_step p (worker_moves False i p)"

inductive_simps drain_step_iff: "drain_step p q"

primrec worker_weight :: "worker_pc \<Rightarrow> nat" where
  "worker_weight WTest = 1"
| "worker_weight WWait = 3"
| "worker_weight WBlocked = 0"
| "worker_weight WWoken = 2"
| "worker_weight WDrain = 2"
| "worker_weight (WPerform a) = 3"
| "worker_weight WExit = 0"

definition shutdown_measure :: "thread_pool \<Rightarrow> nat" where
  "shutdown_measure p = 4 * length (m_actions p) + (\<Sum>pc \<leftarrow> m_workers p. worker_weight pc)"

definition closing_down :: "thread_pool \<Rightarrow> bool" where
  "closing_down p \<longleftrightarrow> m_done p \<and> WBlocked \<notin> set (m_workers p)"

lemma sum_list_update_weight:
  "i < length xs \<Longrightarrow> (\<Sum>x \<leftarrow> xs[i := y]. f x) + f (xs ! i) = (\<Sum>x \<leftarrow> xs. f x) + (f y :: nat)"
proof (induction xs arbitrary: i)
  case (Cons a xs)
  show ?case
  proof (cases i)
    case (Suc j)
    then show ?thesis using Cons.IH [of j] Cons.prems by simp
  qed simp
qed simp

lemma drain_step_decreases:
  assumes "drain_step p q" and "closing_down p"
  shows "shutdown_measure q < shutdown_measure p \<and> closing_down q"
proof -
  obtain i where i: "i < length (m_workers p)" "m_workers p ! i \<noteq> WBlocked" "m_workers p ! i \<noteq> WExit"
      and q: "q = worker_moves False i p"
    using assms(1) by (auto simp: drain_step_iff)
  obtain pc' p' where s: "startWorker False (m_workers p ! i) p = (pc', p')" by (rule prod.exhaust)
  have closed: "m_done p" "WBlocked \<notin> set (m_workers p)"
    using assms(2) by (simp_all add: closing_down_def)
  have p': "m_workers p' = m_workers p" "m_done p'" "pc' \<noteq> WBlocked"
    "4 * length (m_actions p') + worker_weight pc' < 4 * length (m_actions p) + worker_weight (m_workers p ! i)"
    using s i closed by (cases "m_workers p ! i"; cases "m_actions p"; auto)+
  have "q = p'\<lparr>m_workers := (m_workers p)[i := pc']\<rparr>"
    by (simp add: q worker_moves_def s p'(1))
  moreover have "WBlocked \<notin> set ((m_workers p)[i := pc'])"
    using p'(3) closed(2) set_update_subset_insert [of "m_workers p" i pc'] by auto
  ultimately show ?thesis
    using sum_list_update_weight [OF i(1), of worker_weight pc'] p' by (simp add: shutdown_measure_def closing_down_def)
qed

lemma drain_steps_bounded:
  "(drain_step ^^ k) p q \<Longrightarrow> closing_down p \<Longrightarrow> k + shutdown_measure q \<le> shutdown_measure p \<and> closing_down q"
proof (induction k arbitrary: q)
  case (Suc k)
  then obtain r where r: "(drain_step ^^ k) p r" "drain_step r q" by auto
  with Suc.IH [OF r(1) Suc.prems(2)] drain_step_decreases [OF r(2)] show ?case by simp
qed simp

lemma shutdown_closes: "closing_down (pool_shutdown p)"
  by (auto simp: closing_down_def pool_shutdown_def notify_all_def dest: sym)

subsection \<open>Properties\<close>

text \<open>C6: The thread pool takes the submitted actions in the order of submission and each of them once,
  whatever the interleaving: those taken followed by those queued are those submitted, and
  those performed together with those in the hands of a worker are those taken.\<close>

theorem pool_performs_each_once:
  fixes hw hw' :: "('w, 'a) task_heap \<times> 'w"
  assumes "pool_run ndebug (pool_new n, hw) es (p, hw')"
  shows "concat (map taken es) @ m_actions p = concat (map submitted es)
    \<and> mset (concat (map performed es)) + in_hands p = mset (concat (map taken es))"
  using assms by (rule pool_run_accounts)

text \<open>C18: No wake-up is lost: while actions are queued in a pool with workers that is not done, some worker
  is awake and will look at the queue again.\<close>

theorem pool_no_lost_wakeup:
  fixes hw hw' :: "('w, 'a) task_heap \<times> 'w"
  assumes "pool_run ndebug (pool_new n, hw) es (p, hw')" and "m_actions p \<noteq> []" and "\<not> m_done p"
    and "m_workers p \<noteq> []"
  shows "\<exists>i < length (m_workers p). m_workers p ! i \<noteq> WBlocked \<and> m_workers p ! i \<noteq> WExit"
proof -
  have "pool_inv (pool_new n)" by (simp add: pool_inv_def pool_new_def)
  with pool_run_inv [OF assms(1)] assms(2-4) show ?thesis
    by (simp add: pool_inv_def someone_awake_def)
qed

text \<open>C19: The destructor returns: once it has notified the workers, at most \<open>shutdown_measure\<close> steps of
  workers that get the lock are left, and when none can move every worker has returned, so
  that the joins do.\<close>

theorem pool_shutdown_terminates:
  assumes "(drain_step ^^ k) (pool_shutdown p) q"
  shows "k \<le> shutdown_measure (pool_shutdown p) \<and> ((\<nexists>q'. drain_step q q') \<longrightarrow> pool_joined q)"
proof -
  have "closing_down q" "k \<le> shutdown_measure (pool_shutdown p)"
    using drain_steps_bounded [OF assms shutdown_closes] by auto
  moreover have "pool_joined q" if "\<nexists>q'. drain_step q q'"
    unfolding pool_joined_def list_all_length
  proof (intro allI impI)
    fix i assume "i < length (m_workers q)"
    then show "m_workers q ! i = WExit"
      using that drain_step.intros [of i q] \<open>closing_down q\<close> by (metis closing_down_def nth_mem)
  qed
  ultimately show ?thesis by blast
qed

theorem pool_shutdown_terminates_witness:
  "pool_joined (worker_moves False 0 (pool_shutdown (pool_new 1)))"
proof -
  let ?q = "worker_moves False 0 (pool_shutdown (pool_new 1))"
  have q: "?q = \<lparr>m_done = True, m_workers = [WExit], m_actions = []\<rparr>"
    by (simp add: worker_moves_def pool_shutdown_def pool_new_def notify_all_def wake_def)
  have "(drain_step ^^ 1) (pool_shutdown (pool_new 1)) ?q"
    unfolding relpowp_1
    by (rule drain_step.intros) (simp_all add: pool_shutdown_def pool_new_def notify_all_def wake_def)
  moreover have "\<nexists>q'. drain_step ?q q'"
    unfolding q by (simp add: drain_step_iff)
  ultimately show ?thesis
    using pool_shutdown_terminates by blast
qed

text \<open>A terminated pool none of whose workers is emptying the queue.\<close>

definition nobody_drains :: "thread_pool \<Rightarrow> bool" where
  "nobody_drains p \<longleftrightarrow> m_done p \<and> (\<forall>pc \<in> set (m_workers p). pc \<noteq> WDrain \<and> in_hand pc = {#})"

lemma nobody_drains_updates:
  assumes "nobody_drains p"
  shows "nobody_drains (notify_one j p)" "nobody_drains (notify_all p)"
    "nobody_drains (p\<lparr>m_done := True\<rparr>)" "nobody_drains (p\<lparr>m_actions := q\<rparr>)"
proof -
  show "nobody_drains (notify_one j p)"
  proof (cases "j < length (m_workers p)")
    case True
    then have "m_workers p ! j \<in> set (m_workers p)" by simp
    with assms have "wake (m_workers p ! j) \<noteq> WDrain \<and> in_hand (m_workers p ! j) = {#}"
      by (auto simp: nobody_drains_def wake_def)
    with assms show ?thesis
      using set_update_subset_insert [of "m_workers p" j "wake (m_workers p ! j)"]
      by (auto simp: nobody_drains_def notify_one_def)
  next
    case False
    with assms show ?thesis by (simp add: notify_one_def list_update_beyond nobody_drains_def)
  qed
  show "nobody_drains (notify_all p)"
    using assms by (auto simp: nobody_drains_def notify_all_def wake_def in_hand_def)
qed (use assms in \<open>simp_all add: nobody_drains_def\<close>)

lemma nobody_drains_step:
  assumes "pool_step ndebug e (p, hw) (p', hw')" and "nobody_drains p"
  shows "nobody_drains p' \<and> taken e = []"
  using assms(1)
proof cases
  case (worker i locked s1 s2)
  have "m_workers p ! i \<in> set (m_workers p)" using worker by simp
  then have pc: "m_workers p ! i \<noteq> WDrain" "in_hand (m_workers p ! i) = {#}" "m_done p"
    using assms(2) by (auto simp: nobody_drains_def)
  obtain pc' q where s: "startWorker locked (m_workers p ! i) p = (pc', q)" by (rule prod.exhaust)
  have "q = p" "pc' \<noteq> WDrain" "in_hand pc' = {#}"
    using s pc by (cases "m_workers p ! i"; auto simp: in_hand_def split: if_splits)+
  then show ?thesis
    using worker s assms(2) pc set_update_subset_insert [of "m_workers p" i pc']
    by (auto simp: worker_moves_def nobody_drains_def event_of_def taken_def in_hand_def split: worker_pc.splits)
qed (use assms(2) nobody_drains_updates in
    \<open>auto simp: taken_def pool_doExecute_def pool_doTerminate_def pool_shutdown_def\<close>)

text \<open>Actions submitted to a pool that has been terminated, while no worker is emptying the queue, are
  accepted and stay in the queue: they are never performed and their futures never ready.\<close>

theorem terminated_pool_drops_actions:
  fixes hw hw' :: "('w, 'a) task_heap \<times> 'w"
  assumes "nobody_drains p" and "pool_run ndebug (p, hw) es (p', hw')"
  shows "m_actions p' = m_actions p @ concat (map submitted es) \<and> concat (map taken es) = []"
proof -
  have "nobody_drains (fst s') \<and> m_actions (fst s') = m_actions (fst s) @ concat (map submitted es)
      \<and> concat (map taken es) = []"
    if "pool_run ndebug s es s'" and "nobody_drains (fst s)"
    for s s' :: "thread_pool \<times> ('w, 'a) task_heap \<times> 'w" and es
    using that
  proof (induction rule: pool_run.induct)
    case (go s es s' e s'')
    obtain p hw p' hw' where s: "s' = (p, hw)" "s'' = (p', hw')"
      by (metis prod.exhaust)
    with go nobody_drains_step [of ndebug e p hw p' hw'] pool_step_accounts [of ndebug e p hw p' hw']
    show ?case by simp
  qed simp
  from this [OF assms(2)] assms(1) show ?thesis by simp
qed

text \<open>Witnesses\<close>

definition idle_tasks :: "(nat, nat) task_heap \<times> nat" where
  "idle_tasks = (no_tasks, 0)"

lemma demo_pool_run:
  "pool_run True (pool_new 1, idle_tasks) [PSubmitted 4] (pool_doExecute 0 4 (pool_new 1), idle_tasks)"
  using pool_run.go [OF pool_run.stop pool_step.execute [of "pool_new 1" 0 True 4 idle_tasks]]
  by (simp add: pool_new_def)

theorem pool_performs_each_once_witness:
  "concat (map taken [PSubmitted 4]) @ m_actions (pool_doExecute 0 4 (pool_new 1)) = [4]"
  using pool_performs_each_once [OF demo_pool_run [unfolded idle_tasks_def]] by (simp add: submitted_def)

theorem pool_no_lost_wakeup_witness:
  "m_workers (pool_doExecute 0 4 (pool_new 1)) ! 0 \<noteq> WBlocked"
proof -
  have "m_actions (pool_doExecute 0 4 (pool_new 1)) \<noteq> []" "\<not> m_done (pool_doExecute 0 4 (pool_new 1))"
    "m_workers (pool_doExecute 0 4 (pool_new 1)) \<noteq> []" "length (m_workers (pool_doExecute 0 4 (pool_new 1))) = 1"
    by (simp_all add: pool_doExecute_def notify_one_def pool_new_def)
  then show ?thesis
    using pool_no_lost_wakeup [OF demo_pool_run [unfolded idle_tasks_def]] by auto
qed

theorem terminated_pool_drops_actions_witness:
  "m_actions (pool_doExecute 0 4 (pool_doTerminate (pool_new 1))) = [4]"
proof -
  let ?p = "pool_doTerminate (pool_new 1)"
  have "nobody_drains ?p"
    by (simp add: nobody_drains_def pool_doTerminate_def pool_new_def in_hand_def)
  moreover have "pool_run True (?p, idle_tasks) ([] @ [PSubmitted 4]) (pool_doExecute 0 4 ?p, idle_tasks)"
    by (rule pool_run.go [OF pool_run.stop pool_step.execute]) (simp add: pool_doTerminate_def pool_new_def)
  ultimately show ?thesis
    using terminated_pool_drops_actions [of ?p True idle_tasks "[] @ [PSubmitted 4]"]
    by (simp add: submitted_def pool_doTerminate_def pool_new_def)
qed

end
