(* ===== verification/Binary_Heap.thy ===== *)
theory Binary_Heap
  imports Prelude "HOL-Library.Multiset"
begin

text \<open>
  The heap of \<^verbatim>\<open>std::priority_queue\<close>: \<^verbatim>\<open>std::push_heap\<close> and \<^verbatim>\<open>std::pop_heap\<close> on the vector
  underneath, as libstdc++ does them (the standard leaves the order of the elements below
  the first open).  \<open>gt x y\<close> is the answer of the comparator, \<^verbatim>\<open>std::greater<>\<close>, in one
  operation.  Nothing is assumed of it: the elements stay the same whatever it answers,
  and the order is kept up to the errors it makes (\<open>answers_within\<close>).
\<close>

subsection \<open>Operations\<close>

definition parent :: "nat \<Rightarrow> nat" where
  "parent i = (i - 1) div 2"

lemma parent_less: "i > 0 \<Longrightarrow> parent i < i"
  by (simp add: parent_def)

text \<open>\<^verbatim>\<open>__push_heap\<close>: moves the parents of the hole \<open>i\<close> down until \<open>x\<close> fits.\<close>

function sift_up :: "('a \<Rightarrow> 'a \<Rightarrow> bool) \<Rightarrow> 'a \<Rightarrow> 'a list \<Rightarrow> nat \<Rightarrow> 'a list" where
  "sift_up gt x a i =
     (if i > 0 \<and> gt (a ! (parent i)) x
      then sift_up gt x (a[i := a ! (parent i)]) (parent i)
      else a[i := x])"
  by pat_completeness auto
termination by (relation "measure (\<lambda>(gt, x, a, i). i)") (auto simp: parent_less)

text \<open>The first half of \<^verbatim>\<open>__adjust_heap\<close>: moves the hole down to a leaf.\<close>

function sift_hole :: "('a \<Rightarrow> 'a \<Rightarrow> bool) \<Rightarrow> 'a list \<Rightarrow> nat \<Rightarrow> 'a list \<times> nat" where
  "sift_hole gt a i =
     (if 2 * i + 2 < length a
      then let c = (if gt (a ! (2 * i + 2)) (a ! (2 * i + 1)) then 2 * i + 1 else 2 * i + 2)
           in sift_hole gt (a[i := a ! c]) c
      else if 2 * i + 2 = length a then (a[i := a ! (2 * i + 1)], 2 * i + 1)
      else (a, i))"
  by pat_completeness auto
termination by (relation "measure (\<lambda>(gt, a, i). length a - i)") (auto split: if_splits)

declare sift_up.simps [simp del] sift_hole.simps [simp del]

definition heap_push :: "('a \<Rightarrow> 'a \<Rightarrow> bool) \<Rightarrow> 'a \<Rightarrow> 'a list \<Rightarrow> 'a list" where
  "heap_push gt x q = sift_up gt x (q @ [x]) (length q)"

definition heap_pop :: "('a \<Rightarrow> 'a \<Rightarrow> bool) \<Rightarrow> 'a list \<Rightarrow> 'a list" where
  "heap_pop gt q =
     (if length q \<le> 1 then []
      else case sift_hole gt (butlast q) 0 of (a, i) \<Rightarrow> sift_up gt (last q) a i)"

lemma heap_push_short [simp]:
  "heap_push gt x [] = [x]"
  "heap_push gt x [y] = (if gt y x then [x, y] else [y, x])"
  by (simp_all add: heap_push_def sift_up.simps parent_def)

lemma heap_pop_short [simp]:
  "heap_pop gt [] = []" "heap_pop gt [x] = []" "heap_pop gt [x, y] = [y]"
  by (simp_all add: heap_pop_def sift_up.simps sift_hole.simps parent_def)

subsection \<open>The elements\<close>

lemma mset_fill: "i < length a \<Longrightarrow> j < length a \<Longrightarrow> mset (a[i := a ! j, j := x]) = mset (a[i := x])"
proof (cases "i = j")
  case False
  assume "i < length a" "j < length a"
  then have "mset ((a[i := x])[i := a[i := x] ! j, j := a[i := x] ! i]) = mset (a[i := x])"
    by (intro mset_swap) simp_all
  with False \<open>i < length a\<close> show ?thesis by simp
qed simp

lemma mset_sift_up: "i < length a \<Longrightarrow> mset (sift_up gt x a i) = mset (a[i := x])"
proof (induction gt x a i rule: sift_up.induct)
  case (1 gt x a i)
  have p: "parent i < length a" using "1.prems" by (simp add: parent_def)
  show ?case
  proof (cases "i > 0 \<and> gt (a ! (parent i)) x")
    case True
    then have "mset (sift_up gt x (a[i := a ! (parent i)]) (parent i))
        = mset (a[i := a ! (parent i), parent i := x])"
      using "1.IH" p by simp
    with True mset_fill [OF "1.prems" p, of x] show ?thesis unfolding sift_up.simps [of gt x a i] by simp
  next
    case False
    show ?thesis unfolding sift_up.simps [of gt x a i] if_not_P [OF False] by (rule refl)
  qed
qed

lemma mset_sift_hole:
  "i < length a \<Longrightarrow> sift_hole gt a i = (b, h) \<Longrightarrow> h < length b \<and> length b = length a \<and> mset (b[h := x]) = mset (a[i := x])"
proof (induction gt a i rule: sift_hole.induct)
  case (1 gt a i)
  let ?c = "if gt (a ! (2 * i + 2)) (a ! (2 * i + 1)) then 2 * i + 1 else 2 * i + 2"
  consider (both) "2 * i + 2 < length a" | (one) "2 * i + 2 = length a" | (none) "2 * i + 2 > length a"
    by linarith
  then show ?case
  proof cases
    case both
    then have c: "?c < length a" by auto
    have "sift_hole gt (a[i := a ! ?c]) ?c = (b, h)"
      using "1.prems"(2) both unfolding sift_hole.simps [of gt a i] Let_def by simp
    then have "h < length b \<and> length b = length a \<and> mset (b[h := x]) = mset (a[i := a ! ?c, ?c := x])"
      using "1.IH" [OF both refl] c by simp
    with mset_fill [OF "1.prems"(1) c, of x] show ?thesis by simp
  next
    case one
    then have "sift_hole gt a i = (a[i := a ! (2 * i + 1)], 2 * i + 1)"
      by (simp add: sift_hole.simps [of gt a i])
    with "1.prems"(2) have "b = a[i := a ! (2 * i + 1)]" "h = 2 * i + 1"
      by (metis prod.inject)+
    with one mset_fill [OF "1.prems"(1), of "2 * i + 1" x] show ?thesis by simp
  next
    case none
    with "1.prems" show ?thesis by (simp add: sift_hole.simps [of gt a i])
  qed
qed

lemma mset_heap_push [simp]: "mset (heap_push gt x q) = add_mset x (mset q)"
  by (simp add: heap_push_def mset_sift_up)

lemma mset_heap_pop: "q \<noteq> [] \<Longrightarrow> add_mset (hd q) (mset (heap_pop gt q)) = mset q"
proof (cases "length q \<le> 1")
  case True
  assume "q \<noteq> []"
  with True show ?thesis by (cases q) (simp_all add: heap_pop_def)
next
  case False
  then obtain x a v where q: "q = x # a @ [v]"
    by (cases q; cases "tl q" rule: rev_cases) auto
  obtain b h where s: "sift_hole gt (x # a) 0 = (b, h)" by (rule prod.exhaust)
  then have "heap_pop gt q = sift_up gt v b h" using False by (simp add: heap_pop_def q butlast_append)
  moreover have "h < length b" "mset (b[h := v]) = mset (v # a)"
    using mset_sift_hole [OF _ s, of v] by simp_all
  ultimately show ?thesis by (simp add: mset_sift_up q)
qed

subsection \<open>The order\<close>

text \<open>
  \<open>below i j\<close>: the node \<open>j\<close> is \<open>i\<close> or under it.  \<open>open_heap d e k a i\<close>: leaving the hole \<open>i\<close>
  aside, the keys of nodes are at most \<open>e\<close> greater than those under them, at most \<open>d\<close> below the
  hole.  \<open>heap_within d k a\<close>: at most \<open>d\<close>, anywhere.
\<close>

inductive below :: "nat \<Rightarrow> nat \<Rightarrow> bool" for i where
  here: "below i i"
| child: "below i (parent j) \<Longrightarrow> j > 0 \<Longrightarrow> below i j"

definition heap_within :: "int \<Rightarrow> ('a \<Rightarrow> int) \<Rightarrow> 'a list \<Rightarrow> bool" where
  "heap_within d k a \<longleftrightarrow> (\<forall>i j. below i j \<longrightarrow> j < length a \<longrightarrow> k (a ! i) \<le> k (a ! j) + d)"

definition open_heap :: "int \<Rightarrow> int \<Rightarrow> ('a \<Rightarrow> int) \<Rightarrow> 'a list \<Rightarrow> nat \<Rightarrow> bool" where
  "open_heap d e k a h \<longleftrightarrow>
     (\<forall>i j. below i j \<longrightarrow> i \<noteq> h \<longrightarrow> j \<noteq> h \<longrightarrow> j < length a \<longrightarrow>
        k (a ! i) \<le> k (a ! j) + (if below h i then d else e))"

text \<open>The comparator errs by at most \<open>e\<close> in the keys, and only when it says no.\<close>

definition answers_within :: "int \<Rightarrow> ('a \<Rightarrow> int) \<Rightarrow> ('a \<Rightarrow> 'a \<Rightarrow> bool) \<Rightarrow> 'a set \<Rightarrow> bool" where
  "answers_within e k gt M \<longleftrightarrow>
     (\<forall>x \<in> M. \<forall>y \<in> M. (gt x y \<longrightarrow> k y \<le> k x) \<and> (\<not> gt x y \<longrightarrow> k x \<le> k y + e))"

lemma below_le: "below i j \<Longrightarrow> i \<le> j"
  by (induction rule: below.induct) (auto simp: parent_def)

lemma below_trans: "below j l \<Longrightarrow> below i j \<Longrightarrow> below i l"
  by (induction rule: below.induct) (auto intro: below.child)

lemma below_root: "below 0 j"
proof (induction j rule: less_induct)
  case (less j)
  show ?case
    by (cases "j = 0") (auto intro: below.here below.child [OF less [OF parent_less]])
qed

lemma below_parent: "i > 0 \<Longrightarrow> below (parent i) i"
  by (rule below.child [OF below.here])

lemma below_cases: "below i j \<longleftrightarrow> i = j \<or> j > 0 \<and> below i (parent j)"
  by (auto intro: below.intros elim: below.cases)

lemma parent_child [simp]: "parent (2 * i + 1) = i" "parent (2 * i + 2) = i" "parent (Suc (2 * i)) = i" "parent (Suc (Suc (2 * i))) = i"
  by (simp_all add: parent_def)

text \<open>What is under a node is under one of its two children.\<close>

lemma below_children: "below i j \<Longrightarrow> i \<noteq> j \<Longrightarrow> below (2 * i + 1) j \<or> below (2 * i + 2) j"
proof (induction rule: below.induct)
  case (child j)
  show ?case
  proof (cases "i = parent j")
    case True
    then have "j = 2 * i + 1 \<or> j = 2 * i + 2" using child.hyps(2) by (auto simp: parent_def)
    then show ?thesis by (auto intro: below.here)
  next
    case False
    with child show ?thesis by (auto intro: below.child)
  qed
qed simp

lemma below_comparable: "below i l \<Longrightarrow> below j l \<Longrightarrow> below i j \<or> below j i"
proof (induction arbitrary: j rule: below.induct)
  case (child l)
  from child.prems show ?case
    by (cases rule: below.cases) (use child in \<open>auto intro: below.child\<close>)
qed simp

lemma heap_within_mono: "heap_within d k a \<Longrightarrow> d \<le> e \<Longrightarrow> heap_within e k a"
  unfolding heap_within_def by fastforce

lemma sift_up_heap:
  assumes "open_heap e e k a i" and "i < length a" and "0 \<le> e"
    and "\<And>j. below i j \<Longrightarrow> j \<noteq> i \<Longrightarrow> j < length a \<Longrightarrow> k x \<le> k (a ! j) + e"
    and "answers_within g k gt M" and "set a \<subseteq> M" and "x \<in> M" and "0 \<le> g"
  shows "heap_within (e + g) k (sift_up gt x a i)"
  using assms
proof (induction gt x a i rule: sift_up.induct)
  case (1 gt x a i)
  let ?p = "parent i"
  have open_: "k (a ! l) \<le> k (a ! j) + e" if "below l j" "l \<noteq> i" "j \<noteq> i" "j < length a" for l j
    using "1.prems"(1) that by (simp add: open_heap_def)
  show ?case
  proof (cases "i > 0 \<and> gt (a ! ?p) x")
    case True
    then have p: "?p < i" "below ?p i" by (simp_all add: parent_less below_parent)
    let ?a = "a[i := a ! ?p]"
    have "a ! ?p \<in> M" using p "1.prems"(2,6) by auto
    with True "1.prems"(5,7) have less: "k x \<le> k (a ! ?p)" by (simp add: answers_within_def)
    have under: "k (a ! ?p) \<le> k (?a ! j) + e" if "below ?p j" "j < length a" for j
      using open_ [of ?p j] that p "1.prems"(2,3) by (cases "j = i") auto
    have "open_heap e e k ?a ?p"
      unfolding open_heap_def
    proof (intro allI impI)
      fix l j
      assume lj: "below l j" "l \<noteq> ?p" "j \<noteq> ?p" "j < length ?a"
      have "k (?a ! l) \<le> k (?a ! j) + e"
      proof (cases "l = i")
        case True
        with under [of j] lj below_trans [OF _ p(2)] "1.prems"(2) show ?thesis by simp
      next
        case False
        then have "below l j \<Longrightarrow> j = i \<Longrightarrow> below l ?p" by (simp add: below_cases [of l i])
        with False lj open_ [of l j] open_ [of l ?p] p "1.prems"(2) show ?thesis by (cases "j = i") auto
      qed
      then show "k (?a ! l) \<le> k (?a ! j) + (if below ?p l then e else e)" by simp
    qed
    moreover have "k x \<le> k (?a ! j) + e" if "below ?p j" "j < length a" for j
      using under [OF that] less by simp
    moreover have "set ?a \<subseteq> M"
      using set_update_subset_insert [of a i "a ! ?p"] \<open>a ! ?p \<in> M\<close> "1.prems"(6) by blast
    ultimately have "heap_within (e + g) k (sift_up gt x ?a ?p)"
      using "1.IH" [OF True] "1.prems"(2,3,5,7,8) p by simp
    with True show ?thesis unfolding sift_up.simps [of gt x a i] by simp
  next
    case False
    have "k (a[i := x] ! l) \<le> k (a[i := x] ! j) + (e + g)" if lj: "below l j" "j < length a" for l j
    proof -
      have "k (a ! ?p) \<le> k x + g" if "i > 0"
      proof -
        have "a ! ?p \<in> M" using parent_less [OF that] "1.prems"(2,6) by auto
        with False that "1.prems"(5,7) show ?thesis by (simp add: answers_within_def)
      qed
      moreover have "i > 0 \<and> k (a ! l) \<le> k (a ! ?p) + e" if "l \<noteq> i" "j = i"
        using that lj open_ [of l ?p] below_cases [of l i] parent_less [of i] "1.prems"(2,3) by (cases "l = ?p") auto
      ultimately show ?thesis
        using open_ [of l j] "1.prems"(2,3,4,8) lj by (cases "l = i"; cases "j = i") fastforce+
    qed
    then show ?thesis
      unfolding sift_up.simps [of gt x a i] if_not_P [OF False] heap_within_def by simp
  qed
qed

text \<open>One move of the hole, to the child \<open>c\<close>; \<open>s\<close> is the other one, if there is one.\<close>

lemma open_heap_move:
  assumes "open_heap d (d + g) k a i" and "parent c = i" "i < c" "c < length a" and "0 \<le> d" "0 \<le> g"
    and "\<And>j. below i j \<Longrightarrow> j \<noteq> i \<Longrightarrow> j < length a \<Longrightarrow>
      below c j \<or> (\<exists>s. s \<noteq> i \<and> below i s \<and> below s j \<and> k (a ! c) \<le> k (a ! s) + g)"
  shows "open_heap d (d + g) k (a[i := a ! c]) c"
  unfolding open_heap_def
proof (intro allI impI)
  fix l j
  let ?a = "a[i := a ! c]"
  assume lj: "below l j" "l \<noteq> c" "j \<noteq> c" "j < length ?a"
  have open_: "k (a ! l) \<le> k (a ! j) + (if below i l then d else d + g)"
    if "below l j" "l \<noteq> i" "j \<noteq> i" "j < length a" for l j
    using assms(1) that by (simp add: open_heap_def)
  have ic: "below i c" "\<not> below c i"
    using below_parent [of c] below_le [of c i] assms(2,3) by auto
  show "k (?a ! l) \<le> k (?a ! j) + (if below c l then d else d + g)"
  proof (cases "l = i")
    case True
    show ?thesis
    proof (cases "j = i")
      case True
      with \<open>l = i\<close> ic assms(5,6) show ?thesis by simp
    next
      case False
      with assms(7) [of j] True lj consider "below c j"
        | s where "s \<noteq> i" "below i s" "below s j" "k (a ! c) \<le> k (a ! s) + g" by auto
      then show ?thesis
      proof cases
        case 1
        with open_ [of c j] ic(1) False True lj assms(3,4,6) ic(2) show ?thesis by simp
      next
        case 2
        with open_ [of s j] False True lj assms(3,4) ic(2) show ?thesis by simp
      qed
    qed
  next
    case False
    show ?thesis
    proof (cases "j = i")
      case True
      then have "below l c" using lj below_trans [OF ic(1)] by simp
      moreover have "\<not> below i l" using True False lj below_le [of i l] below_le [of l i] by auto
      moreover have "\<not> below c l" using True lj below_trans [of c i] below_trans [of l i c] ic(2) by blast
      ultimately show ?thesis using open_ [of l c] False True assms(3,4) by simp
    next
      case False
      with open_ [of l j] \<open>l \<noteq> i\<close> lj below_trans [OF _ ic(1), of l] assms(6) show ?thesis by (auto split: if_splits)
    qed
  qed
qed

lemma sift_hole_heap:
  assumes "open_heap d (d + g) k a i" and "i < length a" and "0 \<le> d" "0 \<le> g"
    and "answers_within g k gt M" and "set a \<subseteq> M" and "sift_hole gt a i = (b, h)"
  shows "open_heap d (d + g) k b h \<and> (\<forall>j. below h j \<longrightarrow> j < length b \<longrightarrow> j = h) \<and> set b \<subseteq> M"
  using assms
proof (induction gt a i rule: sift_hole.induct)
  case (1 gt a i)
  let ?l = "2 * i + 1" and ?r = "2 * i + 2"
  let ?c = "if gt (a ! ?r) (a ! ?l) then ?l else ?r"
  have in_M: "set (a[i := a ! c]) \<subseteq> M" if "c < length a" for c
    using subset_trans [OF set_update_subset_insert [of a i "a ! c"]] nth_mem [OF that] "1.prems"(6) by blast
  have kids: "below i ?l" "below i ?r" using below_parent [of ?l] below_parent [of ?r] by simp_all
  consider (both) "?r < length a" | (one) "?r = length a" | (none) "?r > length a"
    by linarith
  then show ?case
  proof cases
    case both
    then have c: "?c < length a" by auto
    have "a ! ?l \<in> M" "a ! ?r \<in> M" using both "1.prems"(6) by auto
    then have least: "k (a ! ?c) \<le> k (a ! ?l) + g" "k (a ! ?c) \<le> k (a ! ?r) + g"
      using "1.prems"(4,5) unfolding answers_within_def by (auto; smt (verit))+
    have "open_heap d (d + g) k (a[i := a ! ?c]) ?c"
    proof (rule open_heap_move [OF "1.prems"(1)])
      fix j
      assume "below i j" "j \<noteq> i" "j < length a"
      then have "below ?l j \<or> below ?r j" using below_children by metis
      with least kids show "below ?c j \<or> (\<exists>s. s \<noteq> i \<and> below i s \<and> below s j \<and> k (a ! ?c) \<le> k (a ! s) + g)"
        by (cases "gt (a ! ?r) (a ! ?l)") (auto intro: exI [of _ "Suc (2 * i)"] exI [of _ "Suc (Suc (2 * i))"])
    qed (use c "1.prems"(3,4) in auto)
    moreover have "sift_hole gt (a[i := a ! ?c]) ?c = (b, h)"
      using "1.prems"(7) both unfolding sift_hole.simps [of gt a i] Let_def by simp
    ultimately show ?thesis
      using "1.IH" [OF both refl] c "1.prems"(3,4,5) in_M [OF c] by simp
  next
    case one
    then have "sift_hole gt a i = (a[i := a ! ?l], ?l)"
      by (simp add: sift_hole.simps [of gt a i])
    with "1.prems"(7) have b: "b = a[i := a ! ?l]" "h = ?l" by (metis prod.inject)+
    have "open_heap d (d + g) k (a[i := a ! ?l]) ?l"
    proof (rule open_heap_move [OF "1.prems"(1)])
      fix j
      assume "below i j" "j \<noteq> i" "j < length a"
      then show "below ?l j \<or> (\<exists>s. s \<noteq> i \<and> below i s \<and> below s j \<and> k (a ! ?l) \<le> k (a ! s) + g)"
        using below_children [of i j] below_le [of ?r j] one by auto
    qed (use one "1.prems"(3,4) in auto)
    moreover have "j = ?l" if "below ?l j" "j < length b" for j
      using below_le [OF that(1)] that(2) one b by simp
    ultimately show ?thesis using in_M [of ?l] one b by simp
  next
    case none
    then have "b = a" "h = i" using "1.prems"(7) by (simp_all add: sift_hole.simps [of gt a i])
    moreover have "j = i" if "below i j" "j < length a" for j
      using below_children [OF that(1)] below_le [of ?l j] below_le [of ?r j] that(2) none by auto
    ultimately show ?thesis using "1.prems"(1,6) by simp
  qed
qed

text \<open>
  One error \<open>g\<close> for a push, two for a pop.  A comparator without errors (\<open>g = 0\<close>) keeps the heap
  in order, and the first element is the least.
\<close>

lemma heap_push_within:
  assumes "heap_within d k q" and "0 \<le> d" "0 \<le> g" and "answers_within g k gt (insert x (set q))"
  shows "heap_within (d + g) k (heap_push gt x q)"
proof -
  have "open_heap d d k (q @ [x]) (length q)"
    unfolding open_heap_def
  proof (intro allI impI)
    fix i j
    assume "below i j" "i \<noteq> length q" "j \<noteq> length q" "j < length (q @ [x])"
    then have "i < length q" "j < length q" using below_le [of i j] by simp_all
    with assms(1) \<open>below i j\<close> show "k ((q @ [x]) ! i) \<le> k ((q @ [x]) ! j) + (if below (length q) i then d else d)"
      by (simp add: heap_within_def nth_append)
  qed
  then show ?thesis
    unfolding heap_push_def
  proof (rule sift_up_heap)
    show "k x \<le> k ((q @ [x]) ! j) + d" if "below (length q) j" "j \<noteq> length q" "j < length (q @ [x])" for j
      using below_le [OF that(1)] that(2,3) by simp
  qed (use assms in auto)
qed

lemma heap_pop_within:
  assumes "heap_within d k q" and "0 \<le> d" "0 \<le> g" and "answers_within g k gt (set q)"
  shows "heap_within (d + 2 * g) k (heap_pop gt q)"
proof (cases "length q \<le> 1")
  case False
  obtain b h where s: "sift_hole gt (butlast q) 0 = (b, h)" by (rule prod.exhaust)
  have n: "0 < length (butlast q)" "q \<noteq> []" using False by auto
  have "heap_within d k (butlast q)"
    using assms(1) below_le by (fastforce simp: heap_within_def nth_butlast)
  then have "open_heap d (d + g) k (butlast q) 0"
    using below_root by (simp add: heap_within_def open_heap_def)
  moreover have "set (butlast q) \<subseteq> set q" by (meson in_set_butlastD subsetI)
  ultimately have b: "open_heap d (d + g) k b h" "\<forall>j. below h j \<longrightarrow> j < length b \<longrightarrow> j = h" "set b \<subseteq> set q"
    using sift_hole_heap [OF _ n(1) assms(2-4) _ s] by auto
  have h: "h < length b" using mset_sift_hole [OF n(1) s, of undefined] by simp
  have "heap_within (d + 2 * g) k (sift_up gt (last q) b h)"
    unfolding mult_2 add.assoc [symmetric]
  proof (rule sift_up_heap [OF _ h])
    show "open_heap (d + g) (d + g) k b h"
      using b(1) assms(3) unfolding open_heap_def by (auto split: if_splits) (smt (verit))
  qed (use b assms n in auto)
  with False s show ?thesis by (simp add: heap_pop_def)
qed (simp add: heap_pop_def heap_within_def)

lemma heap_top_within:
  assumes "heap_within d k q" and "x \<in> set q"
  shows "k (hd q) \<le> k x + d"
proof -
  from assms(2) obtain j where "j < length q" "x = q ! j" by (auto simp: in_set_conv_nth)
  moreover have "hd q = q ! 0" using assms(2) by (cases q) auto
  ultimately show ?thesis using assms(1) below_root by (simp add: heap_within_def)
qed

end
