(* ===== verification/Task_Scheduler.thy ===== *)
theory Task_Scheduler
  imports Thread_Pool Binary_Heap
begin

text \<open>
  \<^verbatim>\<open>task/task_scheduler.hpp\<close> over the thread pool.  Times are in nanoseconds, durations in
  milliseconds, as the code has them.  The mutex makes the watcher's loop three atomic
  sections, the test, going to sleep, and what follows a wake-up; the clock is read once
  in a section.  \<^verbatim>\<open>std::priority_queue\<close> is the heap of \<open>Binary_Heap\<close>.  Its comparator looks at the
  clock: it compares the whole milliseconds left at the instant of a push or a pop, so that
  actions less than a millisecond apart can get, and stay, in the wrong order.  \<open>misorder\<close>
  bounds what this can amount to; it is nothing for actions whose instants are equal or at
  least a millisecond apart.  \<open>clock_max\<close> is \<^verbatim>\<open>time_point<Clock>::max()\<close>.
\<close>

text \<open>\<^verbatim>\<open>duration_cast<milliseconds>\<close> of nanoseconds\<close>

definition to_ms :: "int \<Rightarrow> int" where
  "to_ms t = (if t \<ge> 0 then t div 1000000 else - ((- t) div 1000000))"

subsection \<open>ScheduledAction\<close>

record scheduled_action =
  sa_action :: "nat option"
  sa_delay :: int
  sa_creation_ts :: int

datatype suspend_reason = UpdateDelay | ExecuteTask | Terminate

datatype weak_ordering = OrderLess | OrderEquivalent | OrderGreater

definition scheduled_new :: "int \<Rightarrow> nat option \<Rightarrow> int \<Rightarrow> scheduled_action" where
  "scheduled_new now action delay = \<lparr>sa_action = action, sa_delay = delay, sa_creation_ts = now\<rparr>"

definition scheduled_empty :: scheduled_action where
  "scheduled_empty = \<lparr>sa_action = None, sa_delay = 0, sa_creation_ts = 0\<rparr>"

text \<open>The new object and what is left of the other.\<close>

definition scheduled_move :: "scheduled_action \<Rightarrow> scheduled_action \<times> scheduled_action" where
  "scheduled_move other = (other, scheduled_empty)"

definition scheduled_move_assign ::
  "bool \<Rightarrow> scheduled_action \<times> scheduled_action \<Rightarrow> scheduled_action \<times> scheduled_action" where
  "scheduled_move_assign self = (\<lambda>(this, other). if \<not> self then (other, scheduled_empty) else (this, other))"

definition scheduled_timeLeft :: "int \<Rightarrow> scheduled_action \<Rightarrow> int" where
  "scheduled_timeLeft now x = sa_delay x - to_ms (now - sa_creation_ts x)"

definition scheduled_delay :: "scheduled_action \<Rightarrow> int" where
  "scheduled_delay x = sa_delay x"

definition scheduled_get_action :: "scheduled_action \<Rightarrow> nat option" where
  "scheduled_get_action x = sa_action x"

text \<open>\<^verbatim>\<open>std::move\<close> of a member of a \<^verbatim>\<open>const\<close> object copies it.\<close>

definition scheduled_copy :: "scheduled_action \<Rightarrow> scheduled_action" where
  "scheduled_copy x =
     (let action = scheduled_empty;
          action = action\<lparr>sa_delay := sa_delay x\<rparr>;
          action = action\<lparr>sa_action := sa_action x\<rparr>
      in action\<lparr>sa_creation_ts := sa_creation_ts x\<rparr>)"

text \<open>\<^verbatim>\<open>operator<=>\<close> reads the clock twice.\<close>

definition scheduled_compare :: "int \<Rightarrow> int \<Rightarrow> scheduled_action \<Rightarrow> scheduled_action \<Rightarrow> weak_ordering" where
  "scheduled_compare now1 now2 lhs rhs =
     (let tl1 = scheduled_timeLeft now1 lhs; tl2 = scheduled_timeLeft now2 rhs
      in if tl1 = tl2 then OrderEquivalent else if tl1 < tl2 then OrderLess else OrderGreater)"

subsection \<open>The priority queue\<close>

text \<open>
  A queue whose comparator depends on the instant of the operation: \<open>errs now e M\<close> bounds the
  errors it makes at \<open>now\<close> among \<open>M\<close>, \<open>ordered d q\<close> what the order of \<open>q\<close> is off by.
\<close>

locale timed_queue =
  fixes empty :: 'q and push :: "int \<Rightarrow> 'a \<Rightarrow> 'q \<Rightarrow> 'q" and top :: "'q \<Rightarrow> 'a" and pop :: "int \<Rightarrow> 'q \<Rightarrow> 'q"
    and elems :: "'q \<Rightarrow> 'a multiset" and key :: "'a \<Rightarrow> int"
    and errs :: "int \<Rightarrow> int \<Rightarrow> 'a set \<Rightarrow> bool" and ordered :: "int \<Rightarrow> 'q \<Rightarrow> bool"
  assumes elems_empty: "elems empty = {#}"
    and elems_push: "elems (push now x q) = add_mset x (elems q)"
    and elems_pop: "elems q \<noteq> {#} \<Longrightarrow> add_mset (top q) (elems (pop now q)) = elems q"
    and ordered_mono: "ordered d q \<Longrightarrow> d \<le> e \<Longrightarrow> ordered e q"
    and ordered_push: "ordered d q \<Longrightarrow> 0 \<le> d \<Longrightarrow> 0 \<le> e \<Longrightarrow> errs now e (insert x (set_mset (elems q))) \<Longrightarrow>
      ordered (d + e) (push now x q)"
    and ordered_pop: "ordered d q \<Longrightarrow> 0 \<le> d \<Longrightarrow> 0 \<le> e \<Longrightarrow> errs now e (set_mset (elems q)) \<Longrightarrow>
      ordered (d + 2 * e) (pop now q)"
    and top_least: "ordered d q \<Longrightarrow> x \<in># elems q \<Longrightarrow> key (top q) \<le> key x + d"
begin

lemma top_in:
  assumes "elems q \<noteq> {#}"
  shows "top q \<in># elems q"
  unfolding elems_pop [OF assms, of undefined, symmetric] by simp

lemma top_due: "ordered d q \<Longrightarrow> x \<in># elems q \<Longrightarrow> key x \<le> b \<Longrightarrow> key (top q) \<le> b + d"
  using top_least [of d q x] by linarith

lemma pop_keeps:
  assumes "elems q \<noteq> {#}" and "x \<in># elems (pop now q)"
  shows "x \<in># elems q"
  unfolding elems_pop [OF assms(1), of now, symmetric] using assms(2) by simp

end

text \<open>\<^verbatim>\<open>std::greater<>\<close>, by way of \<^verbatim>\<open>operator<=>\<close>\<close>

definition scheduled_greater :: "int \<Rightarrow> scheduled_action \<Rightarrow> scheduled_action \<Rightarrow> bool" where
  "scheduled_greater now lhs rhs \<longleftrightarrow> scheduled_compare now now lhs rhs = OrderGreater"

definition pq_push :: "int \<Rightarrow> scheduled_action \<Rightarrow> scheduled_action list \<Rightarrow> scheduled_action list" where
  "pq_push now x q = heap_push (scheduled_greater now) x q"

definition pq_top :: "scheduled_action list \<Rightarrow> scheduled_action" where
  "pq_top q = (case q of [] \<Rightarrow> scheduled_empty | x # xs \<Rightarrow> x)"

definition pq_pop :: "int \<Rightarrow> scheduled_action list \<Rightarrow> scheduled_action list" where
  "pq_pop now q = heap_pop (scheduled_greater now) q"

text \<open>The instant from which an action may run.\<close>

definition due :: "scheduled_action \<Rightarrow> int" where
  "due x = sa_creation_ts x + sa_delay x * 1000000"

lemma greater_timeLeft:
  "scheduled_greater now x y \<longleftrightarrow> scheduled_timeLeft now x > scheduled_timeLeft now y"
  by (auto simp: scheduled_greater_def scheduled_compare_def Let_def)

lemma pq_top_hd: "q \<noteq> [] \<Longrightarrow> pq_top q = hd q"
  by (cases q) (simp_all add: pq_top_def)

interpretation pq: timed_queue "[]" pq_push pq_top pq_pop mset due
  "\<lambda>now e. answers_within e due (scheduled_greater now)" "\<lambda>d. heap_within d due"
proof unfold_locales
  show "due (pq_top q) \<le> due x + d" if "heap_within d due q" "x \<in># mset q" for d q x
    using heap_top_within [OF that(1), of x] that(2) by (cases q) (simp_all add: pq_top_def)
qed (auto simp: pq_push_def pq_pop_def pq_top_hd mset_heap_pop intro: heap_within_mono heap_push_within heap_pop_within)

lemma pq_top_in: "q \<noteq> [] \<Longrightarrow> pq_top q \<in> set q"
  using pq.top_in [of q] by simp

lemma set_pq_push [simp]: "set (pq_push now x q) = insert x (set q)"
  using pq.elems_push [of now x q] by (metis set_mset_add_mset_insert set_mset_mset)

lemma set_pq_pop: "set (pq_pop now q) \<subseteq> set q"
proof (cases "q = []")
  case True
  then show ?thesis by (simp add: pq_pop_def)
next
  case False
  with pq.pop_keeps [of q _ now] show ?thesis by auto
qed

lemma pq_push_not_empty [simp]: "pq_push now x q \<noteq> []"
  using set_pq_push [of now x q] by (metis empty_iff empty_set insertI1)

text \<open>How far the millisecond can mislead the comparator, and what the queue can be off by.\<close>

definition separated :: "scheduled_action list \<Rightarrow> bool" where
  "separated xs \<longleftrightarrow> (\<forall>x \<in> set xs. \<forall>y \<in> set xs. due x < due y \<longrightarrow> due x + 1000000 \<le> due y)"

definition grain :: "scheduled_action list \<Rightarrow> int" where
  "grain xs = (if separated xs then 0 else 999999)"

definition misorder :: "scheduled_action list \<Rightarrow> int" where
  "misorder xs = 3 * int (length xs) * grain xs"

lemma separated_misorder [simp]: "separated xs \<Longrightarrow> misorder xs = 0"
  by (simp add: misorder_def grain_def)

lemma grain_nonneg [simp]: "0 \<le> grain xs"
  by (simp add: grain_def)

lemma grain_append: "grain xs \<le> grain (xs @ ys)"
  by (auto simp: grain_def separated_def)

lemma misorder_append: "misorder xs \<le> misorder (xs @ ys)"
  unfolding misorder_def by (intro mult_mono grain_append) simp_all

subsection \<open>TaskScheduler\<close>

datatype watcher_pc =
    WatchTest                \<comment> \<open>\<^verbatim>\<open>while (!this->isTerminating())\<close>\<close>
  | WatchLock                \<comment> \<open>about to lock the mutex and wait\<close>
  | Waiting int bool         \<comment> \<open>asleep until then, and whether it was notified\<close>
  | WatchDone

record task_scheduler =
  s_pool :: thread_pool
  m_scheduled_actions :: "scheduled_action list"
  m_delay :: int
  m_watcher :: watcher_pc
  m_delay_update_ts :: int
  m_suspend_reason :: suspend_reason

definition maxWaitTime :: "int \<Rightarrow> int \<Rightarrow> int" where
  "maxWaitTime clock_max now = to_ms (clock_max - now - 3600 * 1000000000)"

definition scheduler_new :: "nat \<Rightarrow> int \<Rightarrow> int \<Rightarrow> task_scheduler" where
  "scheduler_new worker_count clock_max now =
     \<lparr>s_pool = pool_new worker_count, m_scheduled_actions = [], m_delay = maxWaitTime clock_max now,
      m_watcher = WatchTest, m_delay_update_ts = now, m_suspend_reason = UpdateDelay\<rparr>"

definition scheduler_isTerminating :: "task_scheduler \<Rightarrow> bool" where
  "scheduler_isTerminating S = pool_doTerminatingCheck (s_pool S)"

definition scheduler_timeLeft :: "int \<Rightarrow> task_scheduler \<Rightarrow> int" where
  "scheduler_timeLeft now S = m_delay S - to_ms (now - m_delay_update_ts S)"

definition notify_watcher :: "watcher_pc \<Rightarrow> watcher_pc" where
  "notify_watcher pc = (case pc of Waiting t n \<Rightarrow> Waiting t True | _ \<Rightarrow> pc)"

definition scheduler_doTerminate :: "task_scheduler \<Rightarrow> task_scheduler" where
  "scheduler_doTerminate S =
     S\<lparr>m_suspend_reason := Terminate, m_watcher := notify_watcher (m_watcher S)\<rparr>"

definition doSchedule :: "int \<Rightarrow> nat \<Rightarrow> int \<Rightarrow> task_scheduler \<Rightarrow> task_scheduler" where
  "doSchedule now action delay S =
     (if scheduler_isTerminating S then S
      else let scheduled_action = scheduled_new now (Some action) delay;
               S1 = S\<lparr>m_scheduled_actions := pq_push now scheduled_action (m_scheduled_actions S)\<rparr>
           in if scheduler_timeLeft now S1 > delay
              then S1\<lparr>m_delay := delay, m_suspend_reason := UpdateDelay,
                      m_watcher := notify_watcher (m_watcher S1)\<rparr>
              else S1)"

definition schedule ::
  "int \<Rightarrow> ('w, 'a) eff \<Rightarrow> int \<Rightarrow> (task_scheduler \<times> ('w, 'a) task_heap \<times> 'w, task) eff" where
  "schedule now fn delay = (\<lambda>(S, hw).
     case task_new fn hw of
       (Inr t, hw') \<Rightarrow> (Inr t, (doSchedule now (the (task_action t)) delay S, hw'))
     | (Inl e, hw') \<Rightarrow> (Inl e, (S, hw')))"

text \<open>
  The sections of \<^verbatim>\<open>watcherFn\<close>: the test of the loop, the wait (it ends at the latest
  after \<open>m_delay\<close>), and the \<^verbatim>\<open>switch\<close>, in which an action goes to the pool; \<open>j\<close> is the
  worker notified there.
\<close>

definition watcher_test :: "task_scheduler \<Rightarrow> task_scheduler" where
  "watcher_test S = S\<lparr>m_watcher := (if \<not> scheduler_isTerminating S then WatchLock else WatchDone)\<rparr>"

definition watcher_wait :: "int \<Rightarrow> task_scheduler \<Rightarrow> task_scheduler" where
  "watcher_wait now S = S\<lparr>m_watcher := Waiting (now + m_delay S * 1000000) False\<rparr>"

definition execute_task :: "int \<Rightarrow> int \<Rightarrow> nat \<Rightarrow> task_scheduler \<Rightarrow> task_scheduler" where
  "execute_task clock_max now j S =
     (let S1 = (if m_scheduled_actions S \<noteq> []
                then let scheduled_action = scheduled_copy (pq_top (m_scheduled_actions S))
                     in S\<lparr>m_scheduled_actions := pq_pop now (m_scheduled_actions S),
                          s_pool := pool_doExecute j (the (sa_action scheduled_action)) (s_pool S)\<rparr>
                else S)
      in S1\<lparr>m_delay := (if m_scheduled_actions S1 \<noteq> []
                         then scheduled_timeLeft now (pq_top (m_scheduled_actions S1))
                         else maxWaitTime clock_max now),
            m_delay_update_ts := now\<rparr>)"

definition watcherFn :: "int \<Rightarrow> int \<Rightarrow> nat \<Rightarrow> task_scheduler \<Rightarrow> task_scheduler" where
  "watcherFn clock_max now j S =
     (case m_suspend_reason S of
        UpdateDelay \<Rightarrow> S\<lparr>m_delay_update_ts := now, m_suspend_reason := ExecuteTask, m_watcher := WatchTest\<rparr>
      | ExecuteTask \<Rightarrow> (execute_task clock_max now j S)\<lparr>m_watcher := WatchTest\<rparr>
      | Terminate \<Rightarrow> S\<lparr>m_watcher := WatchDone\<rparr>)"

text \<open>The join in the destructor returns when the watcher has; then it terminates once more.\<close>

definition scheduler_joined :: "task_scheduler \<Rightarrow> bool" where
  "scheduler_joined S \<longleftrightarrow> m_watcher S = WatchDone"

definition scheduler_destroy :: "task_scheduler \<Rightarrow> task_scheduler option" where
  "scheduler_destroy S = (if scheduler_joined S then Some (scheduler_doTerminate S) else None)"

subsection \<open>Steps\<close>

text \<open>
  The clock, what was scheduled, and what the pool was handed and when: the actions that a
  wake-up leaves at the end of the pool's queue.  \<open>spurious\<close> tells whether the condition
  variable may wake the watcher for no reason.  \<^verbatim>\<open>schedule\<close> files the action of a new task.
\<close>

record sched_system =
  sched :: task_scheduler
  clock :: int
  scheduled :: "scheduled_action list"
  executed :: "(nat \<times> int) list"

definition handed_over :: "thread_pool \<Rightarrow> thread_pool \<Rightarrow> nat list" where
  "handed_over p p' = drop (length (m_actions p)) (m_actions p')"

definition watcher_wakes :: "int \<Rightarrow> nat \<Rightarrow> sched_system \<Rightarrow> sched_system" where
  "watcher_wakes clock_max j s =
     (let S = watcherFn clock_max (clock s) j (sched s)
      in s\<lparr>sched := S,
           executed := executed s @ map (\<lambda>a. (a, clock s)) (handed_over (s_pool (sched s)) (s_pool S))\<rparr>)"

inductive sched_step :: "int \<Rightarrow> bool \<Rightarrow> sched_system \<Rightarrow> sched_system \<Rightarrow> bool" for clock_max spurious where
  schedule: "\<not> scheduler_isTerminating (sched s) \<Longrightarrow> Some a \<notin> sa_action ` set (scheduled s) \<Longrightarrow>
    clock s + (delay + 1) * 1000000 < clock_max - 3600 * 1000000000 \<Longrightarrow>
    sched_step clock_max spurious s
      (s\<lparr>sched := doSchedule (clock s) a delay (sched s),
         scheduled := scheduled s @ [scheduled_new (clock s) (Some a) delay]\<rparr>)"
| terminate: "sched_step clock_max spurious s (s\<lparr>sched := scheduler_doTerminate (sched s)\<rparr>)"
| test: "m_watcher (sched s) = WatchTest \<Longrightarrow>
    sched_step clock_max spurious s (s\<lparr>sched := watcher_test (sched s)\<rparr>)"
| wait: "m_watcher (sched s) = WatchLock \<Longrightarrow>
    sched_step clock_max spurious s (s\<lparr>sched := watcher_wait (clock s) (sched s)\<rparr>)"
| wake: "m_watcher (sched s) = Waiting t n \<Longrightarrow> n \<or> clock s \<ge> t \<or> spurious \<Longrightarrow>
    sched_step clock_max spurious s (watcher_wakes clock_max j s)"
| tick: "d \<ge> 0 \<Longrightarrow> sched_step clock_max spurious s (s\<lparr>clock := clock s + d\<rparr>)"
| workers: "m_done p = m_done (s_pool (sched s)) \<Longrightarrow>
    sched_step clock_max spurious s (s\<lparr>sched := (sched s)\<lparr>s_pool := p\<rparr>\<rparr>)"

definition sched_init :: "nat \<Rightarrow> int \<Rightarrow> int \<Rightarrow> sched_system" where
  "sched_init n clock_max now =
     \<lparr>sched = scheduler_new n clock_max now, clock = now, scheduled = [], executed = []\<rparr>"

inductive sched_run :: "int \<Rightarrow> bool \<Rightarrow> nat \<Rightarrow> sched_system \<Rightarrow> bool" for clock_max spurious n where
  init: "now \<le> clock_max - 3600 * 1000000000 \<Longrightarrow> sched_run clock_max spurious n (sched_init n clock_max now)"
| step: "sched_run clock_max spurious n s \<Longrightarrow> sched_step clock_max spurious s s' \<Longrightarrow>
    sched_run clock_max spurious n s'"

lemma scheduled_copy_id [simp]: "scheduled_copy x = x"
  by (simp add: scheduled_copy_def scheduled_empty_def)

lemma scheduled_new_simps [simp]:
  "sa_action (scheduled_new now action delay) = action" "sa_delay (scheduled_new now action delay) = delay"
  "sa_creation_ts (scheduled_new now action delay) = now" "due (scheduled_new now action delay) = now + delay * 1000000"
  by (simp_all add: scheduled_new_def due_def)

lemma doSchedule_queue:
  assumes "\<not> scheduler_isTerminating S"
  shows "m_scheduled_actions (doSchedule now a delay S) = pq_push now (scheduled_new now (Some a) delay) (m_scheduled_actions S)"
  using assms by (simp add: doSchedule_def Let_def)

lemma handed_over_simps [simp]:
  "handed_over p p = []" "handed_over p (pool_doExecute j a p) = [a]"
  by (simp_all add: handed_over_def pool_doExecute_def notify_one_def)

text \<open>A wake-up starts the top of the queue, or nothing.\<close>

definition starts :: "task_scheduler \<Rightarrow> bool" where
  "starts S \<longleftrightarrow> m_suspend_reason S = ExecuteTask \<and> m_scheduled_actions S \<noteq> []"

lemma watcher_wakes_simps [simp]:
  "clock (watcher_wakes clock_max j s) = clock s" "scheduled (watcher_wakes clock_max j s) = scheduled s"
  "executed (watcher_wakes clock_max j s) = executed s @
     (if starts (sched s) then [(the (sa_action (pq_top (m_scheduled_actions (sched s)))), clock s)] else [])"
  "m_scheduled_actions (sched (watcher_wakes clock_max j s)) =
     (if starts (sched s) then pq_pop (clock s) (m_scheduled_actions (sched s)) else m_scheduled_actions (sched s))"
  "m_actions (s_pool (sched (watcher_wakes clock_max j s))) = m_actions (s_pool (sched s)) @
     (if starts (sched s) then [the (sa_action (pq_top (m_scheduled_actions (sched s))))] else [])"
  "m_done (s_pool (sched (watcher_wakes clock_max j s))) = m_done (s_pool (sched s))"
proof -
  have exec: "handed_over (s_pool S) (s_pool (execute_task clock_max now j S))
      = (if m_scheduled_actions S \<noteq> [] then [the (sa_action (pq_top (m_scheduled_actions S)))] else [])"
    "m_scheduled_actions (execute_task clock_max now j S)
      = (if m_scheduled_actions S \<noteq> [] then pq_pop now (m_scheduled_actions S) else m_scheduled_actions S)"
    "m_actions (s_pool (execute_task clock_max now j S)) = m_actions (s_pool S) @
      (if m_scheduled_actions S \<noteq> [] then [the (sa_action (pq_top (m_scheduled_actions S)))] else [])"
    "m_done (s_pool (execute_task clock_max now j S)) = m_done (s_pool S)" for now S
    by (simp_all add: execute_task_def Let_def) (simp_all add: pool_doExecute_def notify_one_def)
  show "clock (watcher_wakes clock_max j s) = clock s" "scheduled (watcher_wakes clock_max j s) = scheduled s"
    by (simp_all add: watcher_wakes_def Let_def)
  show "executed (watcher_wakes clock_max j s) = executed s @
     (if starts (sched s) then [(the (sa_action (pq_top (m_scheduled_actions (sched s)))), clock s)] else [])"
    "m_scheduled_actions (sched (watcher_wakes clock_max j s)) =
     (if starts (sched s) then pq_pop (clock s) (m_scheduled_actions (sched s)) else m_scheduled_actions (sched s))"
    "m_actions (s_pool (sched (watcher_wakes clock_max j s))) = m_actions (s_pool (sched s)) @
     (if starts (sched s) then [the (sa_action (pq_top (m_scheduled_actions (sched s))))] else [])"
    "m_done (s_pool (sched (watcher_wakes clock_max j s))) = m_done (s_pool (sched s))"
    by (cases "m_suspend_reason (sched s)"; simp add: watcher_wakes_def Let_def watcherFn_def starts_def exec)+
qed

subsection \<open>Nothing is lost\<close>

text \<open>What was scheduled is what was handed over together with what waits.\<close>

definition accounted :: "sched_system \<Rightarrow> bool" where
  "accounted s \<longleftrightarrow>
     distinct (map sa_action (scheduled s)) \<and> (\<forall>x \<in> set (scheduled s). sa_action x \<noteq> None)
     \<and> set (m_scheduled_actions (sched s)) \<subseteq> set (scheduled s)
     \<and> mset (map sa_action (scheduled s))
         = mset (map (Some \<circ> fst) (executed s)) + mset (map sa_action (m_scheduled_actions (sched s)))"

lemma sched_step_accounts:
  assumes "sched_step clock_max spurious s s'" and "accounted s"
  shows "accounted s'"
  using assms(1)
proof cases
  case (schedule a delay)
  then show ?thesis
    using assms(2) arg_cong [OF pq.elems_push, of "image_mset sa_action"]
    by (auto simp: accounted_def doSchedule_queue)
next
  case (wake t n j)
  let ?q = "m_scheduled_actions (sched s)" and ?x = "pq_top (m_scheduled_actions (sched s))"
  show ?thesis
  proof (cases "starts (sched s)")
    case True
    then have q: "?q \<noteq> []" by (simp add: starts_def)
    then have "?x \<in> set (scheduled s)" using pq_top_in [OF q] assms(2) by (auto simp: accounted_def)
    then have "Some (the (sa_action ?x)) = sa_action ?x" using assms(2) by (auto simp: accounted_def)
    moreover have "add_mset (sa_action ?x) (mset (map sa_action (pq_pop (clock s) ?q))) = mset (map sa_action ?q)"
      using arg_cong [OF pq.elems_pop [of ?q "clock s"], of "image_mset sa_action"] q by simp
    ultimately show ?thesis
      using True assms(2) set_pq_pop [of "clock s" ?q] unfolding wake(1) accounted_def by (simp add: subset_trans)
  next
    case False
    with assms(2) show ?thesis by (simp add: wake accounted_def)
  qed
qed (use assms(2) in \<open>simp_all add: accounted_def scheduler_doTerminate_def watcher_test_def watcher_wait_def\<close>)

lemma accounted_init: "accounted (sched_init n clock_max now)"
  by (simp add: accounted_def sched_init_def scheduler_new_def)

lemma sched_run_accounts: "sched_run clock_max spurious n s \<Longrightarrow> accounted s"
  by (induction rule: sched_run.induct) (blast intro: accounted_init sched_step_accounts)+

lemma executed_scheduled:
  assumes "accounted s" and "(a, t) \<in> set (executed s)"
  shows "\<exists>x \<in> set (scheduled s). sa_action x = Some a"
proof -
  have "Some a \<in># mset (map (Some \<circ> fst) (executed s))" using assms(2) by force
  then have "Some a \<in># mset (map sa_action (scheduled s))" using assms(1) unfolding accounted_def by simp
  then show ?thesis by auto
qed

lemma same_action:
  assumes "accounted s" and "x \<in> set (scheduled s)" "y \<in> set (scheduled s)" and "sa_action x = sa_action y"
  shows "x = y"
proof -
  have "inj_on sa_action (set (scheduled s))" using assms(1) by (simp add: accounted_def distinct_map)
  with assms(2-4) show ?thesis by (simp add: inj_on_def)
qed

lemma executed_length: "accounted s \<Longrightarrow> length (executed s) \<le> length (scheduled s)"
  unfolding accounted_def by (metis le_add1 length_map size_mset size_union)

subsection \<open>Nothing is early\<close>

lemma div_bounds:
  fixes t k :: int
  assumes "0 < k"
  shows "t div k * k \<le> t" and "t < (t div k + 1) * k"
proof -
  have m: "t div k * k = t - t mod k" by (simp add: minus_mod_eq_div_mult)
  have r: "0 \<le> t mod k" "t mod k < k" using assms by simp_all
  show "t div k * k \<le> t" unfolding m using r(1) by simp
  show "t < (t div k + 1) * k" unfolding distrib_right m using r(2) by simp
qed

lemma timeLeft_due:
  assumes "sa_creation_ts x \<le> now"
  shows "scheduled_timeLeft now x \<le> 0 \<longleftrightarrow> due x \<le> now"
    and "due x \<le> now + scheduled_timeLeft now x * 1000000"
proof -
  define q where "q = (now - sa_creation_ts x) div 1000000"
  have q: "q * 1000000 \<le> now - sa_creation_ts x" "now - sa_creation_ts x < (q + 1) * 1000000"
    unfolding q_def by (rule div_bounds; simp)+
  have tl: "scheduled_timeLeft now x = sa_delay x - q"
    using assms by (simp add: scheduled_timeLeft_def to_ms_def q_def)
  show "due x \<le> now + scheduled_timeLeft now x * 1000000"
    unfolding tl due_def left_diff_distrib using q by linarith
  have "sa_delay x \<le> q" if "sa_creation_ts x + sa_delay x * 1000000 \<le> now"
  proof -
    have "sa_delay x * 1000000 < (q + 1) * 1000000" using that q(2) by linarith
    then show ?thesis by simp
  qed
  moreover have "sa_creation_ts x + sa_delay x * 1000000 \<le> now" if "sa_delay x \<le> q"
  proof -
    have "sa_delay x * 1000000 \<le> q * 1000000" using that by simp
    then show ?thesis using q(1) by linarith
  qed
  ultimately show "scheduled_timeLeft now x \<le> 0 \<longleftrightarrow> due x \<le> now"
    unfolding tl due_def by auto
qed

lemma timeLeft_upper:
  assumes "sa_creation_ts x \<le> now"
  shows "now + scheduled_timeLeft now x * 1000000 < due x + 1000000"
proof -
  let ?q = "(now - sa_creation_ts x) div 1000000"
  have "now - sa_creation_ts x < (?q + 1) * 1000000" by (rule div_bounds) simp
  moreover have "scheduled_timeLeft now x = sa_delay x - ?q"
    using assms by (simp add: scheduled_timeLeft_def to_ms_def)
  ultimately show ?thesis by (simp add: due_def algebra_simps)
qed

text \<open>The comparator at an instant when all the actions exist.\<close>

lemma comparator_errs:
  assumes "\<forall>x \<in> set xs. sa_creation_ts x \<le> now" and "M \<subseteq> set xs"
  shows "answers_within (grain xs) due (scheduled_greater now) M"
proof -
  have "(scheduled_greater now x y \<longrightarrow> due y \<le> due x) \<and> (\<not> scheduled_greater now x y \<longrightarrow> due x \<le> due y + grain xs)"
    if "x \<in> set xs" "y \<in> set xs" for x y
  proof -
    let ?l = "\<lambda>x. now + scheduled_timeLeft now x * 1000000"
    have x: "due x \<le> ?l x" "?l x < due x + 1000000" and y: "due y \<le> ?l y" "?l y < due y + 1000000"
      using timeLeft_due(2) timeLeft_upper assms(1) that by blast+
    have "due x \<le> due y + 999999" if "scheduled_timeLeft now x \<le> scheduled_timeLeft now y"
      using x y that by linarith
    moreover have "due y < due x" if "scheduled_timeLeft now x > scheduled_timeLeft now y"
    proof -
      have "(scheduled_timeLeft now y + 1) * 1000000 \<le> scheduled_timeLeft now x * 1000000" using that by simp
      then show ?thesis using x y by (simp add: algebra_simps)
    qed
    moreover have "due y < due x \<Longrightarrow> separated xs \<Longrightarrow> due y + 1000000 \<le> due x"
      using \<open>x \<in> set xs\<close> \<open>y \<in> set xs\<close> by (simp add: separated_def)
    ultimately show ?thesis unfolding greater_timeLeft grain_def by (cases "due y < due x") (auto simp: not_less)
  qed
  then show ?thesis using assms(2) unfolding answers_within_def by blast
qed


text \<open>
  What holds of a scheduler without spurious wake-ups: nothing ran early; by the time
  the watcher has waited for \<open>m_delay\<close> some action is due, and when it sleeps to execute
  one, some action is due at the end of the sleep.
\<close>

definition sched_inv :: "int \<Rightarrow> sched_system \<Rightarrow> bool" where
  "sched_inv clock_max s \<longleftrightarrow>
     accounted s
     \<and> (\<forall>(a, t) \<in> set (executed s). \<exists>x \<in> set (scheduled s). sa_action x = Some a \<and> due x \<le> t + misorder (scheduled s))
     \<and> (\<forall>x \<in> set (scheduled s). sa_creation_ts x \<le> clock s)
     \<and> heap_within (grain (scheduled s) * int (length (scheduled s) + 2 * length (executed s))) due
          (m_scheduled_actions (sched s))
     \<and> m_delay_update_ts (sched s) \<le> clock s
     \<and> (m_scheduled_actions (sched s) = [] \<longrightarrow>
          clock_max - 3600 * 1000000000 < m_delay_update_ts (sched s) + (m_delay (sched s) + 1) * 1000000)
     \<and> (m_scheduled_actions (sched s) \<noteq> [] \<longrightarrow>
          (\<exists>x \<in> set (m_scheduled_actions (sched s)). due x \<le> clock s + m_delay (sched s) * 1000000))
     \<and> (\<forall>t n. m_watcher (sched s) = Waiting t n \<and> m_suspend_reason (sched s) = ExecuteTask \<longrightarrow>
          \<not> n \<and> (m_scheduled_actions (sched s) \<noteq> [] \<longrightarrow>
            (\<exists>x \<in> set (m_scheduled_actions (sched s)). due x \<le> t)))"

text \<open>What is started is due, but for the misorder of the queue.\<close>

lemma to_ms_lower: "t < (to_ms t + 1) * 1000000"
proof -
  have "t < (t div 1000000 + 1) * 1000000" "(- t) div 1000000 * 1000000 \<le> - t"
    by (rule div_bounds; simp)+
  then show ?thesis unfolding to_ms_def by (simp split: if_split)
qed

lemma scheduler_timeLeft_empty:
  assumes "sched_inv clock_max s" and "m_scheduled_actions (sched s) = []"
    and "clock s + (delay + 1) * 1000000 < clock_max - 3600 * 1000000000"
  shows "scheduler_timeLeft (clock s) (sched s) > delay"
proof -
  let ?d = "clock s - m_delay_update_ts (sched s)"
  have "?d \<ge> 0" using assms(1) by (simp add: sched_inv_def)
  then have "to_ms ?d * 1000000 \<le> ?d"
    unfolding to_ms_def using div_bounds(1) [of 1000000 ?d] by simp
  moreover have "clock_max - 3600 * 1000000000 < m_delay_update_ts (sched s) + (m_delay (sched s) + 1) * 1000000"
    using assms(1,2) by (simp add: sched_inv_def)
  ultimately have "delay * 1000000 < (m_delay (sched s) - to_ms ?d) * 1000000"
    using assms(3) by (simp add: algebra_simps)
  then show ?thesis by (simp add: scheduler_timeLeft_def)
qed

lemma sched_inv_schedule:
  assumes "sched_inv clock_max s" and "\<not> scheduler_isTerminating (sched s)" and "accounted s'"
    and "clock s + (delay + 1) * 1000000 < clock_max - 3600 * 1000000000"
    and s': "s' = s\<lparr>sched := doSchedule (clock s) a delay (sched s),
      scheduled := scheduled s @ [scheduled_new (clock s) (Some a) delay]\<rparr>"
  shows "sched_inv clock_max s'"
proof -
  let ?x = "scheduled_new (clock s) (Some a) delay" and ?n = "length (scheduled s) + 2 * length (executed s)"
  have x: "sa_creation_ts ?x \<le> clock s" "due ?x = clock s + delay * 1000000" by simp_all
  have tl: "scheduler_timeLeft n (S\<lparr>m_scheduled_actions := q\<rparr>) = scheduler_timeLeft n S" for n S q
    by (simp add: scheduler_timeLeft_def)
  have q: "set (m_scheduled_actions (sched s)) \<subseteq> set (scheduled s)"
    using assms(1) by (simp add: sched_inv_def accounted_def)
  have "grain (scheduled s) * int ?n \<le> grain (scheduled s') * int ?n"
    using grain_append [of "scheduled s" "[?x]"] by (intro mult_right_mono) (simp_all add: s')
  then have "heap_within (grain (scheduled s') * int ?n) due (m_scheduled_actions (sched s))"
    using assms(1) by (auto simp: sched_inv_def intro: heap_within_mono)
  moreover have "answers_within (grain (scheduled s')) due (scheduled_greater (clock s))
      (insert ?x (set (m_scheduled_actions (sched s))))"
    using assms(1) q by (intro comparator_errs) (auto simp: s' sched_inv_def)
  ultimately have heap: "heap_within (grain (scheduled s') * int (Suc ?n)) due (m_scheduled_actions (sched s'))"
    using pq.ordered_push [of "grain (scheduled s') * int ?n" _ "grain (scheduled s')" "clock s" ?x]
    by (simp add: s' doSchedule_queue [OF assms(2)] algebra_simps)
  have old: "\<forall>(b, t) \<in> set (executed s'). \<exists>y \<in> set (scheduled s'). sa_action y = Some b \<and> due y \<le> t + misorder (scheduled s')"
    using assms(1) misorder_append [of "scheduled s" "[?x]"] unfolding s' sched_inv_def by fastforce
  show ?thesis
  proof (cases "scheduler_timeLeft (clock s) (sched s) > delay")
    case True
    then show ?thesis
      using assms(1-3) x heap old
      by (auto simp: sched_inv_def s' doSchedule_def Let_def tl)
  next
    case False
    then have "m_scheduled_actions (sched s) \<noteq> []"
      using scheduler_timeLeft_empty [OF assms(1) _ assms(4)] by blast
    with False show ?thesis
      using assms(1-3) x heap old
      by (auto simp: sched_inv_def s' doSchedule_def Let_def tl)
  qed
qed

lemma sched_inv_top:
  assumes "sched_inv clock_max s" and "x \<in> set (m_scheduled_actions (sched s))"
  shows "due (pq_top (m_scheduled_actions (sched s))) \<le> due x + misorder (scheduled s)"
proof -
  have "length (scheduled s) + 2 * length (executed s) \<le> 3 * length (scheduled s)"
    using assms(1) executed_length [of s] by (simp add: sched_inv_def)
  then have "int (length (scheduled s) + 2 * length (executed s)) \<le> 3 * int (length (scheduled s))" by linarith
  then have "grain (scheduled s) * int (length (scheduled s) + 2 * length (executed s)) \<le> misorder (scheduled s)"
    unfolding misorder_def by (subst mult.commute) (intro mult_right_mono; simp)
  moreover have "heap_within (grain (scheduled s) * int (length (scheduled s) + 2 * length (executed s))) due
      (m_scheduled_actions (sched s))"
    using assms(1) by (simp add: sched_inv_def)
  ultimately show ?thesis
    using pq.top_least [OF pq.ordered_mono, of _ _ "misorder (scheduled s)" x] assms(2) by auto
qed

lemma sched_inv_execute:
  assumes "sched_inv clock_max s" and "clock s \<ge> t" and "m_watcher (sched s) = Waiting t n" and "starts (sched s)"
  shows "due (pq_top (m_scheduled_actions (sched s))) \<le> clock s + misorder (scheduled s)"
proof -
  obtain x where x: "x \<in> set (m_scheduled_actions (sched s))" "due x \<le> t"
    using assms(1,3,4) by (auto simp: sched_inv_def starts_def)
  with sched_inv_top [OF assms(1) x(1)] assms(2) show ?thesis by linarith
qed

lemma sched_inv_wake:
  assumes "sched_inv clock_max s" and "m_watcher (sched s) = Waiting t n" and "n \<or> clock s \<ge> t"
  shows "sched_inv clock_max (watcher_wakes clock_max j s)"
proof (cases "m_suspend_reason (sched s) = ExecuteTask")
  case False
  then show ?thesis
    using assms(1) by (cases "m_suspend_reason (sched s)")
      (auto simp: sched_inv_def accounted_def watcher_wakes_def watcherFn_def)
next
  case True
  let ?q = "m_scheduled_actions (sched s)" and ?now = "clock s" and ?T = "watcher_wakes clock_max j s"
  let ?q' = "m_scheduled_actions (sched ?T)" and ?g = "grain (scheduled s)"
  let ?n = "length (scheduled s) + 2 * length (executed s)"
  have acc: "accounted s" and heap: "heap_within (?g * int ?n) due ?q"
    and old: "\<forall>y \<in> set (scheduled s). sa_creation_ts y \<le> ?now"
    using assms(1) by (simp_all add: sched_inv_def)
  have accT: "accounted ?T"
    using sched_step_accounts [OF sched_step.wake [OF assms(2), of False clock_max j] acc] assms(3) by blast
  then have sub: "set ?q' \<subseteq> set (scheduled s)" by (simp add: accounted_def)
  have "\<not> n" using assms(1,2) True by (auto simp: sched_inv_def)
  then have ran: "starts (sched s) \<longrightarrow> due (pq_top ?q) \<le> ?now + misorder (scheduled s)"
    using sched_inv_execute [OF assms(1) _ assms(2)] assms(3) by blast
  have top: "\<exists>x \<in> set (scheduled s). sa_action x = Some (the (sa_action (pq_top ?q))) \<and> due x = due (pq_top ?q)"
    if "starts (sched s)"
    using that acc pq_top_in [of ?q] unfolding starts_def accounted_def by (metis option.sel option.exhaust subsetD)
  have runs: "\<forall>(a, t) \<in> set (executed ?T). \<exists>x \<in> set (scheduled s). sa_action x = Some a \<and> due x \<le> t + misorder (scheduled s)"
    using assms(1) ran top by (fastforce simp: sched_inv_def split: if_splits)
  have "answers_within ?g due (scheduled_greater ?now) (set ?q)"
    using acc old by (intro comparator_errs) (simp_all add: accounted_def)
  then have "heap_within (?g * int ?n + 2 * ?g) due (pq_pop ?now ?q)"
    using pq.ordered_pop [OF heap, of ?g ?now] by simp
  then have heapT: "heap_within (?g * int (length (scheduled s) + 2 * length (executed ?T))) due ?q'"
    using heap by (simp add: algebra_simps)
  have max: "clock_max - 3600 * 1000000000 < ?now + (maxWaitTime clock_max ?now + 1) * 1000000"
    using to_ms_lower [of "clock_max - ?now - 3600 * 1000000000"] by (simp add: maxWaitTime_def)
  have S: "m_delay (sched ?T) = (if ?q' \<noteq> [] then scheduled_timeLeft ?now (pq_top ?q') else maxWaitTime clock_max ?now)"
    "m_delay_update_ts (sched ?T) = ?now" "m_watcher (sched ?T) = WatchTest"
    using True by (simp_all add: watcher_wakes_def watcherFn_def execute_task_def Let_def)
  have "due (pq_top ?q') \<le> ?now + m_delay (sched ?T) * 1000000" if "?q' \<noteq> []"
    using timeLeft_due(2) [of "pq_top ?q'" ?now] that pq_top_in [OF that] old sub S(1) by auto
  then have delay: "?q' \<noteq> [] \<Longrightarrow> \<exists>x \<in> set ?q'. due x \<le> ?now + m_delay (sched ?T) * 1000000"
    using pq_top_in by blast
  show ?thesis
    unfolding sched_inv_def watcher_wakes_simps(1,2)
    using accT runs old heapT S max delay by auto
qed

lemma sched_step_inv:
  assumes "sched_step clock_max False s s'" and "sched_inv clock_max s"
  shows "sched_inv clock_max s'"
  using assms(1)
proof cases
  case (schedule a delay)
  have "accounted s'" using sched_step_accounts [OF assms(1)] assms(2) by (simp add: sched_inv_def)
  from sched_inv_schedule [OF assms(2) _ this] schedule show ?thesis by simp
next
  case terminate
  then show ?thesis
    using assms(2) by (auto simp: sched_inv_def accounted_def scheduler_doTerminate_def)
next
  case test
  then show ?thesis
    using assms(2) by (auto simp: sched_inv_def accounted_def watcher_test_def)
next
  case wait
  then show ?thesis
    using assms(2) by (auto simp: sched_inv_def accounted_def watcher_wait_def)
next
  case (wake t n j)
  then show ?thesis using sched_inv_wake [OF assms(2)] by simp
next
  case (tick d)
  have "\<exists>x \<in> set q. due x \<le> clock s + d + e" if "\<exists>x \<in> set q. due x \<le> clock s + e" for q e
    using that tick(2) by force
  moreover have "c \<le> clock s + d" if "c \<le> clock s" for c
    using that tick(2) by linarith
  ultimately show ?thesis
    using assms(2) unfolding tick(1) by (simp add: sched_inv_def accounted_def) blast
next
  case (workers p)
  then show ?thesis
    using assms(2) by (simp add: sched_inv_def accounted_def) blast
qed

lemma sched_run_inv: "sched_run clock_max False n s \<Longrightarrow> sched_inv clock_max s"
proof (induction rule: sched_run.induct)
  case (init now)
  have "clock_max - now - 3600 * 1000000000 < (maxWaitTime clock_max now + 1) * 1000000"
    unfolding maxWaitTime_def by (rule to_ms_lower)
  then show ?case
    by (simp add: sched_inv_def accounted_init) (simp add: sched_init_def scheduler_new_def heap_within_def)
qed (rule sched_step_inv)

subsection \<open>Properties\<close>

text \<open>Without spurious wake-ups the scheduler starts no action before its delay has passed, but for the
  misorder of the queue, and it loses and duplicates none: the actions scheduled are those
  handed to the pool together with those still queued.  Delays are to end an hour before the
  end of the clock.\<close>

theorem scheduler_never_early:
  assumes "sched_run clock_max False n s"
  shows "(\<forall>(a, t) \<in> set (executed s). \<exists>x \<in> set (scheduled s). sa_action x = Some a
      \<and> sa_creation_ts x + sa_delay x * 1000000 \<le> t + misorder (scheduled s))
    \<and> mset (map sa_action (scheduled s))
        = mset (map (Some \<circ> fst) (executed s)) + mset (map sa_action (m_scheduled_actions (sched s)))"
  using sched_run_inv [OF assms] by (auto simp: sched_inv_def accounted_def due_def)
text \<open>The beginning of a run, for the examples: one action, of one second, scheduled at once.\<close>

definition clock_end :: int where
  "clock_end = 9223372036854775807"

definition demo_sched :: sched_system where
  "demo_sched = \<lparr>sched = doSchedule 0 4 1000 (scheduler_new 1 clock_end 0), clock = 0,
     scheduled = [scheduled_new 0 (Some 4) 1000], executed = []\<rparr>"

lemma demo_sched_run: "sched_run clock_end spurious 1 demo_sched"
proof -
  have "sched_run clock_end spurious 1 (sched_init 1 clock_end 0)"
    by (rule sched_run.init) (simp add: clock_end_def)
  moreover have "sched_step clock_end spurious (sched_init 1 clock_end 0) demo_sched"
    using sched_step.schedule [of "sched_init 1 clock_end 0" 4 1000 clock_end spurious]
    by (simp add: sched_init_def scheduler_new_def scheduler_isTerminating_def pool_doTerminatingCheck_def
        pool_new_def clock_end_def demo_sched_def)
  ultimately show ?thesis by (rule sched_run.step)
qed

theorem scheduler_never_early_witness:
  "mset [Some 4] = mset (map sa_action (m_scheduled_actions (sched demo_sched)))"
  using scheduler_never_early [OF demo_sched_run [of False]] by (simp add: demo_sched_def)

text \<open>A spurious wake-up makes the scheduler start an action long before its delay has passed: the
  wait in \<^verbatim>\<open>watcherFn\<close> has no predicate, and \<^verbatim>\<open>ExecuteTask\<close> does not look at the time left.\<close>

theorem spurious_wakeup_starts_early:
  assumes "3600 * 1000000000 + (delay + 1) * 1000000 < clock_max" and "0 < delay"
    and "delay < maxWaitTime clock_max 0"
  shows "\<exists>s. sched_run clock_max True n s \<and> scheduled s = [scheduled_new 0 (Some 0) delay] \<and> executed s = [(0, 0)]"
proof -
  define S where "S = (doSchedule 0 0 delay (scheduler_new n clock_max 0))"
  have S: "m_watcher S = WatchTest" "m_suspend_reason S = UpdateDelay" "\<not> scheduler_isTerminating S"
    "m_scheduled_actions S = [scheduled_new 0 (Some 0) delay]"
    using assms(3)
    by (simp_all add: S_def doSchedule_def scheduler_new_def scheduler_isTerminating_def Let_def pool_new_def
        pool_doTerminatingCheck_def scheduler_timeLeft_def to_ms_def pq_push_def notify_watcher_def)
  let ?s = "\<lambda>S e. \<lparr>sched = S, clock = 0, scheduled = [scheduled_new 0 (Some 0) delay], executed = e\<rparr>"
  have sleep: "sched_run clock_max True n (?s (watcher_wait 0 (watcher_test R)) e)"
    if "sched_run clock_max True n (?s R e)" "m_watcher R = WatchTest" "\<not> scheduler_isTerminating R" for R e
  proof -
    have "sched_run clock_max True n (?s (watcher_test R) e)"
      using sched_run.step [OF that(1) sched_step.test] that(2) by simp
    from sched_run.step [OF this sched_step.wait] that(3) show ?thesis
      by (simp add: watcher_test_def)
  qed
  have wake: "sched_run clock_max True n (watcher_wakes clock_max 0 (?s (watcher_wait 0 R) e))"
    if "sched_run clock_max True n (?s (watcher_wait 0 R) e)" for R e
    using that by (rule sched_run.step) (rule sched_step.wake, auto simp: watcher_wait_def)
  have "sched_run clock_max True n (sched_init n clock_max 0)"
    using assms(1,2) by (intro sched_run.init) simp
  from sched_run.step [OF this sched_step.schedule [of _ 0 delay clock_max True]]
  have "sched_run clock_max True n (?s S [])"
    using assms(1)
    by (simp add: sched_init_def S_def scheduler_new_def scheduler_isTerminating_def
        pool_doTerminatingCheck_def pool_new_def)
  from wake [OF sleep [OF this S(1,3)]]
  have r1: "sched_run clock_max True n (?s (watcherFn clock_max 0 0 (watcher_wait 0 (watcher_test S))) [])"
    by (simp add: watcher_wakes_def watcherFn_def watcher_wait_def watcher_test_def S)
  define R where "R = watcherFn clock_max 0 0 (watcher_wait 0 (watcher_test S))"
  have R: "m_watcher R = WatchTest" "m_suspend_reason R = ExecuteTask" "\<not> scheduler_isTerminating R"
    "m_scheduled_actions R = [scheduled_new 0 (Some 0) delay]"
    using S by (simp_all add: R_def watcherFn_def watcher_wait_def watcher_test_def scheduler_isTerminating_def)
  note wake [OF sleep [OF r1 [folded R_def] R(1,3)]]
  moreover have "starts (watcher_wait 0 (watcher_test R))"
    "m_scheduled_actions (watcher_wait 0 (watcher_test R)) = [scheduled_new 0 (Some 0) delay]"
    by (simp_all add: starts_def watcher_wait_def watcher_test_def R)
  ultimately show ?thesis
    by (intro exI conjI) (assumption, simp_all add: pq_top_def)
qed

theorem spurious_wakeup_starts_early_witness:
  "\<exists>s. sched_run clock_end True 1 s \<and> scheduled s = [scheduled_new 0 (Some 0) 5000] \<and> executed s = [(0, 0)]"
  by (rule spurious_wakeup_starts_early) (simp_all add: clock_end_def maxWaitTime_def to_ms_def)

text \<open>Steps from \<open>s\<close> on that do not terminate the scheduler.\<close>

inductive unterminated :: "int \<Rightarrow> bool \<Rightarrow> sched_system \<Rightarrow> sched_system \<Rightarrow> bool" for clock_max spurious s where
  same: "unterminated clock_max spurious s s"
| step: "unterminated clock_max spurious s s' \<Longrightarrow> sched_step clock_max spurious s' s'' \<Longrightarrow>
    m_suspend_reason (sched s'') \<noteq> Terminate \<Longrightarrow> unterminated clock_max spurious s s''"

definition watching :: "task_scheduler \<Rightarrow> bool" where
  "watching S \<longleftrightarrow> m_suspend_reason S \<noteq> Terminate \<and> \<not> scheduler_isTerminating S \<and> m_watcher S \<noteq> WatchDone"

lemma notify_watcher_done [simp]: "notify_watcher pc = WatchDone \<longleftrightarrow> pc = WatchDone"
  by (cases pc) (simp_all add: notify_watcher_def)

lemma m_done_doExecute [simp]: "m_done (pool_doExecute j a p) = m_done p"
  by (simp add: pool_doExecute_def notify_one_def)

lemma watching_step:
  assumes "sched_step clock_max spurious s s'" and "watching (sched s)" and "m_suspend_reason (sched s') \<noteq> Terminate"
  shows "watching (sched s')"
  using assms(1)
proof cases
  case (wake t n j)
  then show ?thesis
    using assms(2) by (auto simp: watching_def watcher_wakes_def watcherFn_def execute_task_def Let_def scheduler_isTerminating_def
        pool_doTerminatingCheck_def split: suspend_reason.split)
qed (use assms(2,3) in \<open>auto simp: watching_def doSchedule_def Let_def scheduler_doTerminate_def watcher_test_def
      watcher_wait_def scheduler_isTerminating_def pool_doTerminatingCheck_def\<close>)

text \<open>C39: A termination can be lost: when an action with a short delay is scheduled before the watcher has
  woken up, \<^verbatim>\<open>doSchedule\<close> overwrites \<^verbatim>\<open>Terminate\<close> with \<^verbatim>\<open>UpdateDelay\<close>.  The watcher then never ends, and the
  destructor waits for it, until the scheduler is terminated again.\<close>

theorem termination_can_be_lost:
  assumes "\<not> scheduler_isTerminating S" and "m_watcher S \<noteq> WatchDone" and "delay < scheduler_timeLeft now S"
    and "sched s = doSchedule now a delay (scheduler_doTerminate S)" and "unterminated clock_max spurious s s'"
  shows "scheduler_destroy (sched s') = None"
proof -
  have w: "watching (sched s)"
    using assms(1-4)
    by (simp add: watching_def doSchedule_def Let_def scheduler_doTerminate_def scheduler_isTerminating_def
        scheduler_timeLeft_def)
  have "watching (sched s')"
    using assms(5)
  proof (induction rule: unterminated.induct)
    case same
    show ?case by (rule w)
  next
    case (step s' s'')
    then show ?case using watching_step by blast
  qed
  then show ?thesis
    by (simp add: watching_def scheduler_destroy_def scheduler_joined_def)
qed

theorem termination_can_be_lost_witness:
  "scheduler_destroy (doSchedule 0 4 1000 (scheduler_doTerminate (scheduler_new 1 clock_end 0))) = None"
proof -
  let ?S = "scheduler_new 1 clock_end 0"
  have "\<not> scheduler_isTerminating ?S" "m_watcher ?S \<noteq> WatchDone" "1000 < scheduler_timeLeft 0 ?S"
    by (simp_all add: scheduler_new_def scheduler_isTerminating_def pool_doTerminatingCheck_def pool_new_def
        scheduler_timeLeft_def maxWaitTime_def clock_end_def to_ms_def)
  from termination_can_be_lost [OF this, of "demo_sched\<lparr>sched := doSchedule 0 4 1000 (scheduler_doTerminate ?S)\<rparr>" 4
      clock_end False, OF _ unterminated.same]
  show ?thesis by simp
qed

end
