(* ===== verification/Url_Model.thy ===== *)
theory Url_Model
  imports Exceptions
begin

text \<open>
  \<^verbatim>\<open>net/url.hpp\<close>, \<^verbatim>\<open>net/url.cpp\<close> and \<^verbatim>\<open>net/url_builder.hpp\<close>, \<^verbatim>\<open>.cpp\<close>.  The two regular
  expressions are terms of a small language whose matcher enumerates what a
  backtracking search finds, in its order; the first success is the match.
\<close>

subsection \<open>Regular expressions\<close>

datatype regex =
    RChar "char \<Rightarrow> bool"
  | RSeq regex regex
  | ROpt regex
  | RStar regex
  | RGroup nat regex

definition RPlus :: "regex \<Rightarrow> regex" where
  "RPlus r = RSeq r (RStar r)"

definition RLit :: "char \<Rightarrow> regex" where
  "RLit c = RChar (\<lambda>x. x = c)"

type_synonym captures = "nat \<Rightarrow> string option"

text \<open>Captures and the rest of the string, for every way to match, the preferred one first.\<close>

fun rmatch :: "regex \<Rightarrow> captures \<Rightarrow> string \<Rightarrow> (captures \<times> string) list" where
  "rmatch (RChar p) c s = (case s of [] \<Rightarrow> [] | x # t \<Rightarrow> if p x then [(c, t)] else [])"
| "rmatch (RSeq a b) c s = concat (map (\<lambda>(c', s'). rmatch b c' s') (rmatch a c s))"
| "rmatch (ROpt r) c s = rmatch r c s @ [(c, s)]"
| "rmatch (RStar r) c s =
     concat (map (\<lambda>(c', s'). if length s' < length s then rmatch (RStar r) c' s' else []) (rmatch r c s)) @ [(c, s)]"
| "rmatch (RGroup n r) c s =
     map (\<lambda>(c', s'). (c'(n := Some (take (length s - length s') s)), s')) (rmatch r c s)"

definition regex_match :: "regex \<Rightarrow> string \<Rightarrow> captures option" where
  "regex_match r s = map_option fst (find (\<lambda>(c, s'). s' = []) (rmatch r Map.empty s))"

text \<open>The leftmost match and what follows it.\<close>

fun regex_search :: "regex \<Rightarrow> string \<Rightarrow> (string \<times> string) option" where
  "regex_search r s =
     (case rmatch r Map.empty s of
        (c, s') # _ \<Rightarrow> Some (take (length s - length s') s, s')
      | [] \<Rightarrow> (case s of [] \<Rightarrow> None | _ # t \<Rightarrow> regex_search r t))"

declare regex_search.simps [simp del] rmatch.simps(4) [simp del]

subsection \<open>The expressions of Url\<close>

definition none_of :: "string \<Rightarrow> char \<Rightarrow> bool" where
  "none_of cs x \<longleftrightarrow> x \<notin> set cs"

definition line_terminator :: "char \<Rightarrow> bool" where
  "line_terminator x \<longleftrightarrow> x = CHR 0x0A \<or> x = CHR 0x0D"

definition s_regex :: regex where
  "s_regex =
     RSeq (ROpt (RGroup 1 (RSeq (RGroup 2 (RPlus (RChar (none_of '':/?#'')))) (RLit CHR '':''))))
       (RSeq (ROpt (RGroup 3 (RSeq (RLit CHR ''/'') (RSeq (RLit CHR ''/'') (RGroup 4 (RStar (RChar (none_of ''/?#''))))))))
         (RSeq (RGroup 5 (RStar (RChar (none_of ''?#''))))
           (RSeq (ROpt (RGroup 6 (RSeq (RLit CHR ''?'') (RGroup 7 (RStar (RChar (none_of ''#'')))))))
             (ROpt (RGroup 8 (RSeq (RLit CHR ''#'') (RGroup 9 (RStar (RChar (\<lambda>x. \<not> line_terminator x))))))))))"

definition alnum :: "char \<Rightarrow> bool" where
  "alnum x \<longleftrightarrow> (let n = of_char x :: nat in 97 \<le> n \<and> n \<le> 122 \<or> 65 \<le> n \<and> n \<le> 90 \<or> 48 \<le> n \<and> n \<le> 57)"

definition s_param_regex :: regex where
  "s_param_regex = RPlus (RGroup 1 (RSeq (RPlus (RChar alnum)) (RSeq (RLit CHR ''='') (RPlus (RChar alnum)))))"

subsection \<open>Numbers in text\<close>

definition digit :: "nat \<Rightarrow> char" where
  "digit n = char_of (48 + n)"

definition is_digit :: "char \<Rightarrow> bool" where
  "is_digit x \<longleftrightarrow> 48 \<le> (of_char x :: nat) \<and> (of_char x :: nat) \<le> 57"

definition digit_value :: "char \<Rightarrow> nat" where
  "digit_value x = of_char x - 48"

text \<open>\<^verbatim>\<open>fmt::format("{}", n)\<close>\<close>

fun show_nat :: "nat \<Rightarrow> string" where
  "show_nat n = (if n < 10 then [digit n] else show_nat (n div 10) @ [digit (n mod 10)])"

declare show_nat.simps [simp del]

text \<open>\<^verbatim>\<open>std::stoi\<close>: white space, a sign, digits; what follows them is ignored.\<close>

definition is_space :: "char \<Rightarrow> bool" where
  "is_space x \<longleftrightarrow> x = CHR '' '' \<or> (9 \<le> (of_char x :: nat) \<and> (of_char x :: nat) \<le> 13)"

definition digits_value :: "string \<Rightarrow> nat" where
  "digits_value ds = foldl (\<lambda>n x. 10 * n + digit_value x) 0 ds"

definition stoi :: "string \<Rightarrow> int outcome" where
  "stoi s =
     (let t = dropWhile is_space s;
          (neg, u) = (case t of x # t' \<Rightarrow> if x = CHR ''-'' then (True, t') else if x = CHR ''+'' then (False, t') else (False, t)
                      | [] \<Rightarrow> (False, []));
          ds = takeWhile is_digit u;
          v = (if neg then - int (digits_value ds) else int (digits_value ds))
      in if ds = [] then failwith_as StdInvalidArgument ''stoi''
         else if v < - (2 ^ 31) \<or> v \<ge> 2 ^ 31 then failwith_as StdOutOfRange ''stoi''
         else Inr v)"

subsection \<open>Url\<close>

record url =
  m_protocol :: string
  m_hostname :: string
  m_port :: "32 word"
  m_path :: string
  m_query :: string
  m_parameters :: "string \<rightharpoonup> string"

definition url_default :: url where
  "url_default = \<lparr>m_protocol = [], m_hostname = [], m_port = 0, m_path = [], m_query = [], m_parameters = Map.empty\<rparr>"

definition url_new :: "string \<Rightarrow> string \<Rightarrow> url outcome" where
  "url_new protocol hostname =
     (if protocol = [] then failwith_as MalformedUrlException ''Protocol is not specified''
      else if hostname = [] then failwith_as MalformedUrlException ''Hostname is not specified''
      else Inr (url_default\<lparr>m_protocol := protocol, m_hostname := hostname, m_port := 0\<rparr>))"

definition url_new_port :: "string \<Rightarrow> string \<Rightarrow> 32 word \<Rightarrow> url outcome" where
  "url_new_port protocol hostname port =
     (if protocol = [] then failwith_as MalformedUrlException ''Hostname is not specified''
      else if hostname = [] then failwith_as MalformedUrlException ''Hostname is not specified''
      else if port = 0 then failwith_as MalformedUrlException ''Bad port number''
      else Inr (url_default\<lparr>m_protocol := protocol, m_hostname := hostname, m_port := port\<rparr>))"

definition url_protocol :: "url \<Rightarrow> string" where
  "url_protocol u = m_protocol u"

definition url_hostname :: "url \<Rightarrow> string" where
  "url_hostname u = m_hostname u"

definition url_port :: "url \<Rightarrow> 32 word" where
  "url_port u = m_port u"

definition url_path :: "url \<Rightarrow> string" where
  "url_path u = m_path u"

definition url_addParameter :: "string \<Rightarrow> string \<Rightarrow> url \<Rightarrow> url" where
  "url_addParameter name value u = u\<lparr>m_parameters := (m_parameters u)(name \<mapsto> value)\<rparr>"

definition url_clearParameters :: "url \<Rightarrow> url" where
  "url_clearParameters u = u\<lparr>m_parameters := Map.empty\<rparr>"

definition url_clear :: "url \<Rightarrow> url" where
  "url_clear u = url_default"

text \<open>\<open>ps\<close> lists the parameters in the order of an iteration over the \<^verbatim>\<open>unordered_map\<close>.\<close>

primrec show_more_parameters :: "(string \<times> string) list \<Rightarrow> string" where
  "show_more_parameters [] = []"
| "show_more_parameters (p # ps) = ''&'' @ fst p @ ''='' @ snd p @ show_more_parameters ps"

definition url_toString :: "(string \<times> string) list \<Rightarrow> url \<Rightarrow> string" where
  "url_toString ps u =
     (let str = m_protocol u @ ''://'' @ m_hostname u;
          str = str @ (if m_port u \<noteq> 0 then '':'' @ show_nat (unat (m_port u)) else []);
          str = str @ (if m_path u \<noteq> [] then (if take 1 (m_path u) \<noteq> ''/'' then ''/'' else []) @ m_path u else []);
          str = str @ (if m_query u \<noteq> [] then ''/'' @ m_query u else [])
      in str @ (case ps of [] \<Rightarrow> [] | p # qs \<Rightarrow> ''?'' @ fst p @ ''='' @ snd p @ show_more_parameters qs))"

subsection \<open>UrlBuilder\<close>

record url_builder =
  m_url :: url

definition builder_new :: url_builder where
  "builder_new = \<lparr>m_url = url_default\<rparr>"

definition setProtocol :: "string \<Rightarrow> url_builder \<Rightarrow> url_builder" where
  "setProtocol protocol b = b\<lparr>m_url := (m_url b)\<lparr>m_protocol := protocol\<rparr>\<rparr>"

definition setHostname :: "string \<Rightarrow> url_builder \<Rightarrow> url_builder" where
  "setHostname hostname b = b\<lparr>m_url := (m_url b)\<lparr>m_hostname := hostname\<rparr>\<rparr>"

definition setPort :: "32 word \<Rightarrow> url_builder \<Rightarrow> url_builder" where
  "setPort port b = b\<lparr>m_url := (m_url b)\<lparr>m_port := port\<rparr>\<rparr>"

definition setPath :: "string \<Rightarrow> url_builder \<Rightarrow> url_builder" where
  "setPath path b = b\<lparr>m_url := (m_url b)\<lparr>m_path := path\<rparr>\<rparr>"

definition setQuery :: "string \<Rightarrow> url_builder \<Rightarrow> url_builder" where
  "setQuery query b = b\<lparr>m_url := (m_url b)\<lparr>m_query := query\<rparr>\<rparr>"

definition builder_addParameter :: "string \<Rightarrow> string \<Rightarrow> url_builder \<Rightarrow> url_builder" where
  "builder_addParameter name value b = b\<lparr>m_url := url_addParameter name value (m_url b)\<rparr>"

definition url_build :: "url_builder \<Rightarrow> url outcome" where
  "url_build b =
     (if m_protocol (m_url b) = [] then failwith_as MalformedUrlException ''Protocol is not specified''
      else if m_hostname (m_url b) = [] then failwith_as MalformedUrlException ''Protocol is not specified''
      else Inr (m_url b))"

subsection \<open>Url::parse\<close>

definition group_str :: "nat \<Rightarrow> captures \<Rightarrow> string" where
  "group_str n c = (case c n of None \<Rightarrow> [] | Some s \<Rightarrow> s)"

text \<open>\<^verbatim>\<open>s.find(x)\<close>\<close>

fun str_find :: "char \<Rightarrow> string \<Rightarrow> nat option" where
  "str_find x [] = None"
| "str_find x (y # s) = (if x = y then Some 0 else map_option Suc (str_find x s))"

definition parse_hostport :: "string \<Rightarrow> url_builder \<Rightarrow> url_builder outcome" where
  "parse_hostport hostport b =
     (case str_find CHR '':'' hostport of
        None \<Rightarrow> Inr (setHostname hostport b)
      | Some sep \<Rightarrow>
          let b1 = setHostname (take sep hostport) b
          in if sep < length hostport
             then (case stoi (take (length hostport - sep - 1) (drop (sep + 1) hostport)) of
                     Inr port \<Rightarrow> Inr (setPort (of_int port) b1)
                   | Inl (Thrown e) \<Rightarrow> failwith_as MalformedUrlException ''Invalid port value''
                   | Inl (Fault f) \<Rightarrow> Inl (Fault f))
             else Inr b1)"

lemma rmatch_suffix:
  "(c', s') \<in> set (rmatch r c s) \<Longrightarrow> \<exists>t. s = t @ s'"
proof (induction r c s arbitrary: c' s' rule: rmatch.induct)
  case (1 p c s)
  then show ?case by (cases s) (auto split: if_splits)
next
  case (2 a b c s)
  then obtain c1 s1 where 1: "(c1, s1) \<in> set (rmatch a c s)" "(c', s') \<in> set (rmatch b c1 s1)" by auto
  obtain t where "s = t @ s1" using "2.IH"(1) [OF 1(1)] by blast
  moreover obtain u where "s1 = u @ s'" using "2.IH"(2) [OF 1(1) refl 1(2)] by blast
  ultimately have "s = (t @ u) @ s'" by simp
  then show ?case by blast
next
  case (3 r c s)
  then show ?case by auto
next
  case (4 r c s)
  then consider (stop) "s' = s"
    | (more) c1 s1 where "(c1, s1) \<in> set (rmatch r c s)" "length s1 < length s" "(c', s') \<in> set (rmatch (RStar r) c1 s1)"
    by (auto simp: rmatch.simps(4) [of r c s] split: if_splits)
  then show ?case
  proof cases
    case more
    obtain t where "s = t @ s1" using "4.IH"(1) [OF more(1)] by blast
    moreover obtain u where "s1 = u @ s'" using "4.IH"(2) [OF more(1) refl more(2,3)] by blast
    ultimately have "s = (t @ u) @ s'" by simp
    then show ?thesis by blast
  qed simp
next
  case (5 n r c s)
  then show ?case by auto
qed

text \<open>The first success of a match followed by \<open>k\<close>.\<close>

primrec first_some :: "'a option list \<Rightarrow> 'a option" where
  "first_some [] = None"
| "first_some (x # xs) = (case x of None \<Rightarrow> first_some xs | Some y \<Rightarrow> Some y)"

definition or_else :: "'a option \<Rightarrow> 'a option \<Rightarrow> 'a option" where
  "or_else x y = (case x of None \<Rightarrow> y | Some v \<Rightarrow> Some v)"

lemma or_else_simps [simp]: "or_else None y = y" "or_else (Some v) y = Some v" "or_else x None = x"
  by (simp_all add: or_else_def split: option.split)

lemma first_some_append: "first_some (xs @ ys) = or_else (first_some xs) (first_some ys)"
  by (induction xs) (simp_all split: option.split)

lemma first_some_concat: "first_some (concat xss) = first_some (map first_some xss)"
  by (induction xss) (simp_all add: first_some_append or_else_def)

definition rm :: "regex \<Rightarrow> captures \<Rightarrow> string \<Rightarrow> (captures \<Rightarrow> string \<Rightarrow> 'a option) \<Rightarrow> 'a option" where
  "rm r c s k = first_some (map (\<lambda>(c', s'). k c' s') (rmatch r c s))"

lemma rm_char [simp]:
  "rm (RChar p) c [] k = None"
  "rm (RChar p) c (x # t) k = (if p x then k c t else None)"
  by (auto simp: rm_def split: option.split)

lemma rm_lit [simp]:
  "rm (RLit y) c [] k = None"
  "rm (RLit y) c (x # t) k = (if x = y then k c t else None)"
  by (simp_all add: RLit_def)

lemma rm_lit_none: "take 1 s \<noteq> [y] \<Longrightarrow> rm (RLit y) c s k = None"
  by (cases s) auto

lemma rm_seq [simp]: "rm (RSeq a b) c s k = rm a c s (\<lambda>c' s'. rm b c' s' k)"
  by (simp add: rm_def map_concat first_some_concat comp_def case_prod_unfold)

lemma rm_opt [simp]: "rm (ROpt r) c s k = or_else (rm r c s k) (k c s)"
  by (simp add: rm_def first_some_append) (simp add: or_else_def split: option.split)

lemma rm_group [simp]:
  "rm (RGroup n r) c s k = rm r c s (\<lambda>c' s'. k (c'(n := Some (take (length s - length s') s))) s')"
  by (simp add: rm_def comp_def case_prod_unfold)

lemma rm_plus [simp]: "rm (RPlus r) c s k = rm r c s (\<lambda>c' s'. rm (RStar r) c' s' k)"
  by (simp add: RPlus_def)

lemma rm_star:
  "rm (RStar r) c s k
     = or_else (rm r c s (\<lambda>c' s'. if length s' < length s then rm (RStar r) c' s' k else None)) (k c s)"
proof -
  have "first_some (map (\<lambda>(c', s'). k c' s') (concat (map (\<lambda>(c', s'). if length s' < length s
        then rmatch (RStar r) c' s' else []) (rmatch r c s))))
      = rm r c s (\<lambda>c' s'. if length s' < length s then rm (RStar r) c' s' k else None)"
    by (auto simp: rm_def map_concat first_some_concat comp_def case_prod_unfold if_distrib
        intro!: arg_cong [where f = first_some] map_cong)
  then show ?thesis
    by (simp add: rm_def rmatch.simps(4) [of r c s] first_some_append) (simp add: or_else_def split: option.split)
qed

lemma rm_star_class:
  "rm (RStar (RChar p)) c [] k = k c []"
  "rm (RStar (RChar p)) c (x # t) k
     = (if p x then or_else (rm (RStar (RChar p)) c t k) (k c (x # t)) else k c (x # t))"
  by (simp_all add: rm_star [of "RChar p"])

text \<open>A class repeated takes all it can, when it succeeds so or with less would only fail.\<close>

lemma rm_star_greedy:
  "(\<And>x t. p x \<Longrightarrow> k c (x # t) = None) \<Longrightarrow> rm (RStar (RChar p)) c s k = k c (dropWhile p s)"
  by (induction s) (simp_all add: rm_star_class)

lemma rm_star_all:
  "k c (dropWhile p s) = Some v \<Longrightarrow> rm (RStar (RChar p)) c s k = Some v"
  by (induction s) (auto simp: rm_star_class)

lemma rm_star_none:
  assumes "\<And>s. bad s \<Longrightarrow> k c s = None" and "\<And>x t. p x \<Longrightarrow> bad (x # t) \<Longrightarrow> bad t"
  shows "bad s \<Longrightarrow> rm (RStar (RChar p)) c s k = None"
  using assms by (induction s) (auto simp: rm_star_class)

lemma take_dropped: "take (length s - length (dropWhile p s)) s = takeWhile p s"
  by (induction s) (auto simp: Suc_diff_le length_dropWhile_le)

lemma regex_match_rm: "regex_match r s = rm r Map.empty s (\<lambda>c s'. if s' = [] then Some c else None)"
proof -
  have "map_option fst (find (\<lambda>(c, s'). s' = []) xs)
      = first_some (map (\<lambda>(c, s'). if s' = [] then Some c else None) xs)" for xs :: "(captures \<times> string) list"
    by (induction xs) auto
  then show ?thesis by (simp add: regex_match_def rm_def)
qed

subsection \<open>What the first expression matches\<close>

text \<open>No line terminator may follow the first \<open>#\<close>.\<close>

definition tail_ok :: "string \<Rightarrow> bool" where
  "tail_ok s \<longleftrightarrow> list_all (\<lambda>x. \<not> line_terminator x) (tl (dropWhile (\<lambda>x. x \<noteq> CHR ''#'') s))"

definition uri_scheme :: "string \<Rightarrow> string \<times> string" where
  "uri_scheme s =
     (let p = none_of '':/?#''; r = dropWhile p s
      in if takeWhile p s \<noteq> [] \<and> take 1 r = '':'' then (takeWhile p s, drop 1 r) else ([], s))"

definition uri_authority :: "string \<Rightarrow> string \<times> string" where
  "uri_authority s =
     (if take 2 s = ''//'' then (takeWhile (none_of ''/?#'') (drop 2 s), dropWhile (none_of ''/?#'') (drop 2 s))
      else ([], s))"

definition uri_path :: "string \<Rightarrow> string \<times> string" where
  "uri_path s = (takeWhile (none_of ''?#'') s, dropWhile (none_of ''?#'') s)"

definition uri_query :: "string \<Rightarrow> string" where
  "uri_query s = (if take 1 s = ''?'' then takeWhile (none_of ''#'') (drop 1 s) else [])"

abbreviation "at_end \<equiv> \<lambda>c s'. if s' = [] then Some c else (None :: captures option)"

abbreviation "r_fragment \<equiv>
  ROpt (RGroup 8 (RSeq (RLit CHR ''#'') (RGroup 9 (RStar (RChar (\<lambda>x. \<not> line_terminator x))))))"

abbreviation "r_query \<equiv> ROpt (RGroup 6 (RSeq (RLit CHR ''?'') (RGroup 7 (RStar (RChar (none_of ''#''))))))"

abbreviation "r_path \<equiv> RGroup 5 (RStar (RChar (none_of ''?#'')))"

abbreviation "r_authority \<equiv>
  ROpt (RGroup 3 (RSeq (RLit CHR ''/'') (RSeq (RLit CHR ''/'') (RGroup 4 (RStar (RChar (none_of ''/?#'')))))))"

abbreviation "r_scheme \<equiv>
  ROpt (RGroup 1 (RSeq (RGroup 2 (RPlus (RChar (none_of '':/?#'')))) (RLit CHR '':'')))"

lemma dropWhile_nil_iff: "dropWhile p s = [] \<longleftrightarrow> list_all p s"
  by (simp add: dropWhile_eq_Nil_conv list_all_iff)

lemma match_fragment:
  "rm r_fragment c s at_end
     = (case s of [] \<Rightarrow> Some c
        | x # t \<Rightarrow> if x = CHR ''#'' \<and> list_all (\<lambda>x. \<not> line_terminator x) t
                    then Some (c(9 := Some t, 8 := Some s)) else None)"
proof (cases s)
  case (Cons x t)
  have "rm (RStar (RChar (\<lambda>x. \<not> line_terminator x))) c t
        (\<lambda>c' s'. at_end (c'(9 := Some (take (length t - length s') t), 8 := Some (take (length s - length s') s))) s')
      = (if list_all (\<lambda>x. \<not> line_terminator x) t then Some (c(9 := Some t, 8 := Some s)) else None)"
    using dropWhile_nil_iff [of "\<lambda>x. \<not> line_terminator x" t]
    by (cases "list_all (\<lambda>x. \<not> line_terminator x) t")
      (subst rm_star_greedy; simp del: dropWhile_eq_Nil_conv)+
  from this [unfolded Cons] show ?thesis by (simp add: Cons)
qed simp

lemma match_fragment_none: "x \<noteq> CHR ''#'' \<Longrightarrow> rm r_fragment c (x # t) at_end = None"
  by (subst match_fragment) simp

text \<open>Where the first expression puts the query and the fragment, given what follows the path.\<close>

definition query_tail :: "captures \<Rightarrow> string \<Rightarrow> captures option" where
  "query_tail c s =
     (case s of
        x # t \<Rightarrow> if x = CHR ''?''
                  then rm r_fragment (c(7 := Some (takeWhile (none_of ''#'') t), 6 := Some (x # takeWhile (none_of ''#'') t)))
                         (dropWhile (none_of ''#'') t) at_end
                  else rm r_fragment c s at_end
      | [] \<Rightarrow> Some c)"

lemma match_query: "rm (RSeq r_query r_fragment) c s at_end = query_tail c s"
proof (cases s)
  case Nil
  then show ?thesis by (simp add: query_tail_def match_fragment)
next
  case (Cons x t)
  show ?thesis
  proof (cases "x = CHR ''?''")
    case True
    let ?k = "\<lambda>c' s'. rm r_fragment (c'(7 := Some (take (length t - length s') t), 6 := Some (take (length s - length s') s))) s' at_end"
    have "?k c' (y # u) = None" if "none_of ''#'' y" for c' y u
      by (rule match_fragment_none) (use that in \<open>simp add: none_of_def\<close>)
    then have "rm (RStar (RChar (none_of ''#''))) c t ?k = ?k c (dropWhile (none_of ''#'') t)"
      by (rule rm_star_greedy)
    moreover have "length (dropWhile (none_of ''#'') t) \<le> length t"
      by (rule length_dropWhile_le)
    then have "take (length s - length (dropWhile (none_of ''#'') t)) s = x # takeWhile (none_of ''#'') t"
      by (simp add: Cons Suc_diff_le take_dropped)
    moreover have "rm r_fragment c s at_end = None"
      using match_fragment_none Cons True by simp
    ultimately show ?thesis
      using Cons True by (simp add: query_tail_def take_dropped del: rm_opt) (simp del: rm_opt add: rm_opt [of "RGroup 6 _"])
  next
    case False
    then show ?thesis by (simp add: query_tail_def Cons del: rm_opt) (simp add: rm_opt [of "RGroup 6 _"])
  qed
qed

lemma query_tail_none: "none_of ''?#'' x \<Longrightarrow> query_tail c (x # t) = None"
  using match_fragment_none [of x c t] by (auto simp: query_tail_def none_of_def)

lemma match_path:
  "rm (RSeq r_path (RSeq r_query r_fragment)) c s at_end
     = query_tail (c(5 := Some (fst (uri_path s)))) (snd (uri_path s))"
proof -
  let ?k = "\<lambda>c' s'. query_tail (c'(5 := Some (take (length s - length s') s))) s'"
  have "rm (RStar (RChar (none_of ''?#''))) c s ?k = ?k c (dropWhile (none_of ''?#'') s)"
    by (rule rm_star_greedy) (rule query_tail_none)
  then show ?thesis
    by (simp add: rm_seq [of r_path] match_query take_dropped uri_path_def del: rm_opt rm_seq)
qed

lemma query_tail_ok: "query_tail c s \<noteq> None \<longleftrightarrow> (s = [] \<or> take 1 s = ''?'' \<or> take 1 s = ''#'') \<and> tail_ok s"
proof (cases s)
  case Nil
  then show ?thesis by (simp add: query_tail_def tail_ok_def)
next
  case (Cons x t)
  have f: "rm r_fragment c' u at_end \<noteq> None \<longleftrightarrow> u = [] \<or> (take 1 u = ''#'' \<and> list_all (\<lambda>x. \<not> line_terminator x) (tl u))" for c' u
    by (subst match_fragment) (auto split: list.split)
  have d: "dropWhile (none_of ''#'') u = dropWhile (\<lambda>x. x \<noteq> CHR ''#'') u" for u
    by (rule dropWhile_cong) (simp_all add: none_of_def)
  have h: "dropWhile (\<lambda>x. x \<noteq> CHR ''#'') u = [] \<or> take 1 (dropWhile (\<lambda>x. x \<noteq> CHR ''#'') u) = ''#''" for u
    by (induction u) auto
  show ?thesis
  proof (cases "x = CHR ''?''")
    case True
    let ?u = "dropWhile (\<lambda>x. x \<noteq> CHR ''#'') t"
    have "query_tail c s \<noteq> None \<longleftrightarrow> ?u = [] \<or> (take 1 ?u = ''#'' \<and> list_all (\<lambda>x. \<not> line_terminator x) (tl ?u))"
      by (simp only: query_tail_def Cons list.case True simp_thms if_True f d)
    moreover have "tail_ok s = list_all (\<lambda>x. \<not> line_terminator x) (tl ?u)"
      by (simp add: tail_ok_def Cons True)
    moreover have "take 1 s = ''?''" by (simp add: Cons True)
    moreover have "list_all (\<lambda>x. \<not> line_terminator x) (tl ?u)" if "?u = []"
      using that by (simp del: dropWhile_eq_Nil_conv)
    ultimately show ?thesis
      using h [of t] by metis
  next
    case False
    have "query_tail c s \<noteq> None \<longleftrightarrow> take 1 s = ''#'' \<and> list_all (\<lambda>x. \<not> line_terminator x) (tl s)"
      by (simp only: query_tail_def Cons list.case False if_False f list.distinct simp_thms)
    moreover have "tail_ok s = list_all (\<lambda>x. \<not> line_terminator x) (tl s)" if "take 1 s = ''#''"
      using that by (simp add: tail_ok_def Cons)
    moreover have "take 1 s \<noteq> ''?''" "s \<noteq> []" using False Cons by simp_all
    ultimately show ?thesis by metis
  qed
qed

lemma tail_ok_Cons: "x \<noteq> CHR ''#'' \<Longrightarrow> tail_ok (x # t) = tail_ok t"
  by (simp add: tail_ok_def)

lemma tail_ok_dropWhile: "(\<And>x. p x \<Longrightarrow> x \<noteq> CHR ''#'') \<Longrightarrow> tail_ok (dropWhile p s) = tail_ok s"
  by (induction s) (simp_all add: tail_ok_Cons)

abbreviation "r_after \<equiv> RSeq r_path (RSeq r_query r_fragment)"

lemma path_rest: "dropWhile (none_of ''?#'') s = [] \<or> take 1 (dropWhile (none_of ''?#'') s) = ''?''
    \<or> take 1 (dropWhile (none_of ''?#'') s) = ''#''"
  by (induction s) (auto simp: none_of_def)

lemma match_path_ok: "rm r_after c s at_end \<noteq> None \<longleftrightarrow> tail_ok s"
proof -
  have "tail_ok (dropWhile (none_of ''?#'') s) = tail_ok s"
    by (rule tail_ok_dropWhile) (auto simp: none_of_def)
  then show ?thesis
    unfolding match_path query_tail_ok uri_path_def using path_rest [of s] by simp
qed

lemma match_path_none: "\<not> tail_ok s \<Longrightarrow> rm r_after c s at_end = None"
  using match_path_ok by blast

lemma match_authority:
  assumes "tail_ok s"
  shows "rm (RSeq r_authority r_after) c s at_end
     = rm r_after (if take 2 s = ''//'' then c(4 := Some (fst (uri_authority s)), 3 := Some (''//'' @ fst (uri_authority s))) else c)
         (snd (uri_authority s)) at_end"
proof (cases "take 2 s = ''//''")
  case False
  have "rm (RSeq (RLit CHR ''/'') (RSeq (RLit CHR ''/'') (RGroup 4 (RStar (RChar (none_of ''/?#'')))))) c s k = None"
    for k :: "captures \<Rightarrow> string \<Rightarrow> captures option"
    using False by (cases s; cases "tl s") auto
  then show ?thesis
    using False by (simp add: rm_seq [of r_authority] rm_opt rm_group uri_authority_def del: rm_seq)
next
  case True
  then obtain t where s: "s = ''//'' @ t" by (metis append_take_drop_id)
  let ?h = "takeWhile (none_of ''/?#'') t"
  let ?k = "\<lambda>c' s'. rm r_after (c'(4 := Some (take (length t - length s') t), 3 := Some (take (length s - length s') s))) s' at_end"
  have "tail_ok (dropWhile (none_of ''/?#'') t)"
    using assms tail_ok_dropWhile [of "none_of ''/?#''" t] by (simp add: s tail_ok_Cons none_of_def)
  then obtain v where v: "?k c (dropWhile (none_of ''/?#'') t) = Some v"
    using match_path_ok by blast
  have "length (dropWhile (none_of ''/?#'') t) \<le> length t"
    by (rule length_dropWhile_le)
  then have "take (length s - length (dropWhile (none_of ''/?#'') t)) s = ''//'' @ ?h"
    by (simp add: s Suc_diff_le take_dropped)
  then have v': "rm r_after (c(4 := Some ?h, 3 := Some (''//'' @ ?h))) (dropWhile (none_of ''/?#'') t) at_end = Some v"
    using v by (simp only: take_dropped)
  have "rm (RStar (RChar (none_of ''/?#''))) c t ?k = Some v"
    by (rule rm_star_all) (rule v)
  then have "rm (RGroup 3 (RSeq (RLit CHR ''/'') (RSeq (RLit CHR ''/'') (RGroup 4 (RStar (RChar (none_of ''/?#''))))))) c s
      (\<lambda>c' s'. rm r_after c' s' at_end) = Some v"
    by (simp add: s del: rm_opt)
  then have "rm (RSeq r_authority r_after) c s at_end = Some v"
    by (simp only: rm_seq [of r_authority] rm_opt or_else_simps)
  then show ?thesis
    using v' by (simp only: True if_True uri_authority_def fst_conv snd_conv) (simp add: s)
qed

abbreviation "r_hier \<equiv> RSeq r_authority r_after"

lemma tail_ok_authority: "tail_ok (snd (uri_authority s)) = tail_ok s"
proof (cases "take 2 s = ''//''")
  case True
  then obtain t where "s = ''//'' @ t" by (metis append_take_drop_id)
  then show ?thesis
    using tail_ok_dropWhile [of "none_of ''/?#''" t] by (simp add: uri_authority_def tail_ok_Cons none_of_def)
qed (simp add: uri_authority_def)

lemma match_hier_ok: "rm r_hier c s at_end \<noteq> None \<longleftrightarrow> tail_ok s"
proof (cases "tail_ok s")
  case True
  show ?thesis
    unfolding match_authority [OF True] match_path_ok tail_ok_authority ..
next
  case False
  have star: "rm (RStar (RChar (none_of ''/?#''))) c' t (\<lambda>c'' s'. rm r_after (f c'' s') s' at_end) = None"
    if "\<not> tail_ok t" for c' t f
    by (rule rm_star_none [where bad = "\<lambda>s. \<not> tail_ok s", OF _ _ that])
      (auto simp: match_path_none tail_ok_Cons none_of_def simp del: rm_seq)
  have "rm (RGroup 3 (RSeq (RLit CHR ''/'') (RSeq (RLit CHR ''/'') (RGroup 4 (RStar (RChar (none_of ''/?#''))))))) c s
      (\<lambda>c' s'. rm r_after c' s' at_end) = None"
  proof (cases "\<exists>t. s = ''//'' @ t")
    case True
    then obtain t where s: "s = ''//'' @ t" ..
    then have "\<not> tail_ok t" using False by (simp add: tail_ok_Cons)
    from star [OF this, of c] show ?thesis by (simp add: s del: rm_opt)
  next
    case False
    then show ?thesis by (cases s; cases "tl s") (auto simp del: rm_opt)
  qed
  moreover have "rm r_after c s at_end = None"
    using match_path_ok False by blast
  ultimately show ?thesis
    using False by (simp only: rm_seq [of r_authority] rm_opt or_else_simps simp_thms)
qed

lemma rm_plus_class:
  "rm (RPlus (RChar p)) c s k = (case s of x # t \<Rightarrow> if p x then rm (RStar (RChar p)) c t k else None | [] \<Rightarrow> None)"
  by (simp split: list.split)

lemma match_scheme:
  "rm (RSeq r_scheme r_hier) c s at_end
     = rm r_hier (if fst (uri_scheme s) \<noteq> []
           then c(2 := Some (fst (uri_scheme s)), 1 := Some (fst (uri_scheme s) @ '':'')) else c) (snd (uri_scheme s)) at_end"
proof -
  let ?p = "none_of '':/?#''"
  let ?g = "RGroup 1 (RSeq (RGroup 2 (RPlus (RChar ?p))) (RLit CHR '':''))"
  let ?w = "takeWhile ?p s" and ?r = "dropWhile ?p s"
  let ?k = "\<lambda>c' s'. rm (RLit CHR '':'') (c'(2 := Some (take (length s - length s') s))) s'
      (\<lambda>c'' s''. rm r_hier (c''(1 := Some (take (length s - length s'') s))) s'' at_end)"
  have opt: "rm (RSeq r_scheme r_hier) c s at_end = or_else (rm ?g c s (\<lambda>c' s'. rm r_hier c' s' at_end)) (rm r_hier c s at_end)"
    by (simp only: rm_seq [of r_scheme] rm_opt)
  have g: "rm ?g c s (\<lambda>c' s'. rm r_hier c' s' at_end) = (if ?w \<noteq> [] then ?k c ?r else None)"
  proof (cases s)
    case (Cons x t)
    have "rm (RStar (RChar ?p)) c t ?k = ?k c (dropWhile ?p t)"
      by (rule rm_star_greedy) (auto simp: none_of_def simp del: rm_seq rm_opt)
    then show ?thesis
      by (simp add: rm_group rm_seq [of "RGroup 2 _"] rm_plus_class Cons del: rm_plus rm_seq rm_opt)
  qed (simp add: rm_plus_class rm_seq [of "RGroup 2 _"] del: rm_plus rm_seq rm_opt)
  show ?thesis
  proof (cases "?w \<noteq> [] \<and> take 1 ?r = '':''")
    case True
    then obtain t where r: "?r = CHR '':'' # t" by (cases ?r) auto
    have s: "s = ?w @ CHR '':'' # t" by (metis r takeWhile_dropWhile_id)
    have "take (length s - length ?r) s = ?w" by (rule take_dropped)
    moreover have "take (length (a @ x # t) - length t) (a @ x # t) = a @ [x]" for a and x :: char
      by simp
    then have "take (length s - length t) s = ?w @ '':''" by (metis s)
    ultimately have k: "?k c ?r = rm r_hier (c(2 := Some ?w, 1 := Some (?w @ '':''))) t at_end"
      by (simp add: r del: rm_seq rm_opt)
    have u: "uri_scheme s = (?w, t)"
      using True r by (simp add: uri_scheme_def)
    have ok: "tail_ok t = tail_ok s"
      using tail_ok_dropWhile [of ?p s] by (simp add: r tail_ok_Cons none_of_def)
    show ?thesis
    proof (cases "tail_ok s")
      case True
      with ok match_hier_ok have "rm r_hier (c(2 := Some ?w, 1 := Some (?w @ '':''))) t at_end \<noteq> None" by blast
      then show ?thesis
        unfolding opt g u using \<open>?w \<noteq> [] \<and> take 1 ?r = '':''\<close> k by (auto simp del: rm_seq rm_opt)
    next
      case False
      with ok match_hier_ok have "rm r_hier c' t at_end = None" "rm r_hier c' s at_end = None" for c' by blast+
      then show ?thesis
        unfolding opt g u using k by (simp del: rm_seq rm_opt)
    qed
  next
    case False
    have "?k c ?r = None" if "?w \<noteq> []"
      by (rule rm_lit_none) (use False that in blast)
    then have "(if ?w \<noteq> [] then ?k c ?r else None) = None" by metis
    moreover have "uri_scheme s = ([], s)"
      unfolding uri_scheme_def Let_def if_not_P [OF False] ..
    ultimately show ?thesis
      unfolding opt g by (simp del: rm_seq rm_opt)
  qed
qed

lemma tail_ok_scheme: "tail_ok (snd (uri_scheme s)) = tail_ok s"
proof (cases "takeWhile (none_of '':/?#'') s \<noteq> [] \<and> take 1 (dropWhile (none_of '':/?#'') s) = '':''")
  case True
  then obtain t where r: "dropWhile (none_of '':/?#'') s = CHR '':'' # t"
    by (cases "dropWhile (none_of '':/?#'') s") auto
  with True tail_ok_dropWhile [of "none_of '':/?#''" s] show ?thesis
    by (simp add: uri_scheme_def tail_ok_Cons none_of_def)
next
  case False
  then show ?thesis unfolding uri_scheme_def Let_def if_not_P [OF False] by simp
qed

text \<open>The four groups that \<^verbatim>\<open>parse\<close> reads.\<close>

lemma query_tail_groups:
  assumes "query_tail c s = Some c'"
  shows "n \<noteq> 6 \<Longrightarrow> n \<noteq> 7 \<Longrightarrow> n \<noteq> 8 \<Longrightarrow> n \<noteq> 9 \<Longrightarrow> c' n = c n"
    and "c 7 = None \<Longrightarrow> group_str 7 c' = uri_query s"
proof -
  have f: "c2 n = c1 n" if "rm r_fragment c1 u at_end = Some c2" "n \<noteq> 8" "n \<noteq> 9" for c1 c2 u n
    using that by (subst (asm) match_fragment) (auto split: list.splits if_splits)
  show "n \<noteq> 6 \<Longrightarrow> n \<noteq> 7 \<Longrightarrow> n \<noteq> 8 \<Longrightarrow> n \<noteq> 9 \<Longrightarrow> c' n = c n"
    using assms f [of _ _ c' n] by (auto simp: query_tail_def simp del: rm_opt split: list.splits if_splits)
  show "c 7 = None \<Longrightarrow> group_str 7 c' = uri_query s"
    using assms f [of _ _ c' 7]
    by (auto simp: query_tail_def uri_query_def group_str_def simp del: rm_opt split: list.splits if_splits)
qed

text \<open>
  For every string: the first expression matches it unless a line terminator follows the
  first \<open>#\<close>, and captures scheme, authority, path and query.
\<close>

lemma s_regex_groups:
  "if tail_ok s
   then \<exists>c. regex_match s_regex s = Some c \<and> group_str 2 c = fst (uri_scheme s)
      \<and> group_str 4 c = fst (uri_authority (snd (uri_scheme s)))
      \<and> group_str 5 c = fst (uri_path (snd (uri_authority (snd (uri_scheme s)))))
      \<and> group_str 7 c = uri_query (snd (uri_path (snd (uri_authority (snd (uri_scheme s))))))
   else regex_match s_regex s = None"
proof -
  let ?t = "snd (uri_scheme s)"
  let ?u = "snd (uri_authority ?t)"
  define c1 where "c1 = (if fst (uri_scheme s) \<noteq> []
           then Map.empty(2 := Some (fst (uri_scheme s)), 1 := Some (fst (uri_scheme s) @ '':'')) else Map.empty :: captures)"
  define c2 where "c2 = (if take 2 ?t = ''//''
           then c1(4 := Some (fst (uri_authority ?t)), 3 := Some (''//'' @ fst (uri_authority ?t))) else c1)"
  have m: "regex_match s_regex s = rm r_hier c1 ?t at_end"
    unfolding regex_match_rm s_regex_def c1_def by (rule match_scheme)
  show ?thesis
  proof (cases "tail_ok s")
    case True
    then have "tail_ok ?t" by (simp add: tail_ok_scheme)
    then have r: "regex_match s_regex s = query_tail (c2(5 := Some (fst (uri_path ?u)))) (snd (uri_path ?u))"
      using m match_authority [of ?t c1] match_path [of c2 ?u] by (simp only: c2_def)
    moreover have "regex_match s_regex s \<noteq> None"
      unfolding m match_hier_ok using \<open>tail_ok ?t\<close> .
    ultimately obtain c where c: "regex_match s_regex s = Some c"
        "query_tail (c2(5 := Some (fst (uri_path ?u)))) (snd (uri_path ?u)) = Some c"
      by (metis not_None_eq)
    have "c 2 = c2 2" "c 4 = c2 4" "c 5 = Some (fst (uri_path ?u))"
      using query_tail_groups(1) [OF c(2)] by simp_all
    moreover have "group_str 7 c = uri_query (snd (uri_path ?u))"
      using query_tail_groups(2) [OF c(2)] by (simp add: c2_def c1_def)
    moreover have "fst (uri_authority ?t) = []" if "take 2 ?t \<noteq> ''//''"
      using that by (simp add: uri_authority_def)
    ultimately show ?thesis
      using True c(1) by (auto simp: group_str_def c2_def c1_def)
  next
    case False
    then show ?thesis
      using m match_hier_ok [of c1 ?t] tail_ok_scheme [of s] by (auto simp del: rm_seq rm_opt)
  qed
qed

subsection \<open>What the second expression finds\<close>

lemma rmatch_first: "rm r c s (\<lambda>c' s'. Some (c', s')) = (case rmatch r c s of [] \<Rightarrow> None | x # _ \<Rightarrow> Some x)"
  by (auto simp: rm_def split: list.split)

lemma regex_search_rm:
  "regex_search r s =
     (case rm r Map.empty s (\<lambda>c' s'. Some (c', s')) of
        Some (c, s') \<Rightarrow> Some (take (length s - length s') s, s')
      | None \<Rightarrow> (case s of [] \<Rightarrow> None | x # t \<Rightarrow> regex_search r t))"
  by (subst regex_search.simps) (simp add: rmatch_first split: list.split)

lemma length_rmatch: "(c', s') \<in> set (rmatch r c s) \<Longrightarrow> length s' \<le> length s"
  using rmatch_suffix [of c' s' r c s] by auto

lemma rmatch_seq_in:
  "(c', s') \<in> set (rmatch (RSeq a b) c s) \<Longrightarrow>
   \<exists>c1 s1. (c1, s1) \<in> set (rmatch a c s) \<and> (c', s') \<in> set (rmatch b c1 s1)"
  by auto

lemma rmatch_char_shorter:
  assumes "(c', s') \<in> set (rmatch (RPlus (RGroup n (RSeq (RPlus (RChar p)) r))) c s)"
  shows "length s' < length s"
proof -
  obtain c1 s1 where 1: "(c1, s1) \<in> set (rmatch (RGroup n (RSeq (RPlus (RChar p)) r)) c s)" "length s' \<le> length s1"
    using rmatch_seq_in [OF assms [unfolded RPlus_def [of "RGroup n _"]]] length_rmatch by blast
  obtain c2 where 2: "(c2, s1) \<in> set (rmatch (RSeq (RPlus (RChar p)) r) c s)"
    using 1(1) by auto
  obtain c3 s3 where 3: "(c3, s3) \<in> set (rmatch (RPlus (RChar p)) c s)" "length s1 \<le> length s3"
    using rmatch_seq_in [OF 2] length_rmatch by blast
  obtain c4 s4 where 4: "(c4, s4) \<in> set (rmatch (RChar p) c s)" "length s3 \<le> length s4"
    using rmatch_seq_in [OF 3(1) [unfolded RPlus_def]] length_rmatch by blast
  have "length s4 < length s" using 4(1) by (cases s) (auto split: if_splits)
  with 1(2) 3(2) 4(2) show ?thesis by simp
qed

lemma regex_search_shorter: "regex_search s_param_regex s = Some (m, suffix) \<Longrightarrow> length suffix < length s"
proof (induction s)
  case Nil
  have "regex_search s_param_regex [] = None"
    by (subst regex_search.simps) (simp add: s_param_regex_def RPlus_def)
  with Nil show ?case by simp
next
  case (Cons x t)
  show ?case
  proof (cases "rmatch s_param_regex Map.empty (x # t)")
    case Nil
    have "regex_search s_param_regex (x # t) = regex_search s_param_regex t"
      by (subst regex_search.simps) (simp add: Nil)
    with Cons show ?thesis by simp
  next
    case (Cons a xs)
    obtain c' s' where a: "a = (c', s')" by (rule prod.exhaust)
    have "regex_search s_param_regex (x # t) = Some (take (length (x # t) - length s') (x # t), s')"
      by (subst regex_search.simps) (simp add: Cons a)
    moreover have "(c', s') \<in> set (rmatch s_param_regex Map.empty (x # t))" by (simp add: Cons a)
    then have "length s' < length (x # t)"
      unfolding s_param_regex_def by (rule rmatch_char_shorter)
    ultimately show ?thesis using \<open>regex_search s_param_regex (x # t) = Some (m, suffix)\<close> by simp
  qed
qed

function parse_parameters :: "string \<Rightarrow> url_builder \<Rightarrow> url_builder" where
  "parse_parameters parameters b =
     (case regex_search s_param_regex parameters of
        None \<Rightarrow> b
      | Some (kv, suffix) \<Rightarrow>
          (case str_find CHR ''='' kv of
             None \<Rightarrow> parse_parameters suffix b
           | Some sep \<Rightarrow>
               if sep < length kv
               then let key = take sep kv;
                        val = take (length kv - sep - 1) (drop (sep + 1) kv)
                    in parse_parameters suffix (builder_addParameter key val b)
               else parse_parameters suffix b))"
  by pat_completeness auto
termination
  by (relation "measure (\<lambda>(s, b). length s)") (auto dest: regex_search_shorter)

declare parse_parameters.simps [simp del]

text \<open>\<^verbatim>\<open>std::smatch\<close> of a match has all ten entries, so that the tests of its size hold.\<close>

definition url_parse :: "string \<Rightarrow> url outcome" where
  "url_parse str =
     (case regex_match s_regex str of
        None \<Rightarrow> failwith_as MalformedUrlException ''Cannot parse string''
      | Some match \<Rightarrow>
          let builder = setProtocol (group_str 2 match) builder_new
          in bind_outcome (parse_hostport (group_str 4 match) builder) (\<lambda>builder.
               let builder = setPath (group_str 5 match) builder;
                   builder = parse_parameters (group_str 7 match) builder
               in url_build builder))"

subsection \<open>Printed numbers are read back\<close>

lemma of_char_digit [simp]: "n < 10 \<Longrightarrow> (of_char (digit n) :: nat) = 48 + n"
  by (simp add: digit_def)

lemma digit_props: "n < 10 \<Longrightarrow> is_digit (digit n) \<and> digit_value (digit n) = n"
  by (simp add: is_digit_def digit_value_def)

lemma digits_value_snoc: "digits_value (ds @ [x]) = 10 * digits_value ds + digit_value x"
  by (simp add: digits_value_def)

lemma show_nat_read: "show_nat n \<noteq> [] \<and> list_all is_digit (show_nat n) \<and> digits_value (show_nat n) = n"
proof (induction n rule: show_nat.induct)
  case (1 n)
  show ?case
  proof (cases "n < 10")
    case True
    then show ?thesis
      by (simp add: show_nat.simps [of n] digit_props digits_value_def)
  next
    case False
    then show ?thesis
      using 1 by (simp add: show_nat.simps [of n] digit_props digits_value_snoc)
  qed
qed

lemma is_digit_cases: "is_digit x \<Longrightarrow> \<not> is_space x \<and> x \<noteq> CHR ''-'' \<and> x \<noteq> CHR ''+'' \<and> none_of '':/?#'' x"
  by (auto simp: is_digit_def is_space_def none_of_def)

lemma stoi_show_nat:
  assumes "n < 2 ^ 31"
  shows "stoi (show_nat n) = Inr (int n)"
proof -
  obtain x t where s: "show_nat n = x # t" using show_nat_read [of n] by (cases "show_nat n") auto
  have x: "\<not> is_space x" "x \<noteq> CHR ''-''" "x \<noteq> CHR ''+''"
    using show_nat_read [of n] is_digit_cases [of x] by (auto simp: s)
  have "takeWhile is_digit (show_nat n) = show_nat n"
    using show_nat_read [of n] by (auto simp: takeWhile_eq_all_conv list_all_iff)
  then have ds: "takeWhile is_digit (x # t) = x # t" by (simp add: s)
  have "digits_value (x # t) = n" using show_nat_read [of n] by (simp add: s)
  then show ?thesis
    using assms x ds by (simp add: stoi_def s)
qed

subsection \<open>Printed parameters are found again\<close>

lemma dropWhile_front: "list_all p xs \<Longrightarrow> dropWhile p (xs @ ys) = dropWhile p ys"
  by (induction xs) simp_all

lemma takeWhile_front: "list_all p xs \<Longrightarrow> takeWhile p (xs @ ys) = xs @ takeWhile p ys"
  by (induction xs) simp_all

lemma not_alnum: "\<not> alnum CHR ''=''" "\<not> alnum CHR ''&''" "\<not> alnum CHR ''#''"
  by (simp_all add: alnum_def Let_def)

definition word_text :: "string \<Rightarrow> bool" where
  "word_text s \<longleftrightarrow> s \<noteq> [] \<and> list_all alnum s"

abbreviation "r_param \<equiv> RGroup 1 (RSeq (RPlus (RChar alnum)) (RSeq (RLit CHR ''='') (RPlus (RChar alnum))))"

lemma match_param_none: "rest = [] \<or> take 1 rest = ''&'' \<Longrightarrow> rm r_param c rest k = None"
  by (cases rest) (auto simp: rm_group rm_seq [of "RPlus _"] rm_plus_class not_alnum simp del: rm_plus)

lemma rm_plus_Cons: "p x \<Longrightarrow> rm (RPlus (RChar p)) c (x # t) k = rm (RStar (RChar p)) c t k"
  by (simp add: rm_plus_class del: rm_plus)

lemma match_param:
  assumes "word_text key" and "word_text val" and "rest = [] \<or> take 1 rest = ''&''"
  shows "\<exists>c'. rm s_param_regex c (key @ ''='' @ val @ rest) (\<lambda>c s. Some (c, s)) = Some (c', rest)"
proof -
  define S where "S = key @ ''='' @ val @ rest"
  define G where "G = (\<lambda>s' :: string. Some (take (length S - length s') S))"
  let ?some = "\<lambda>c s. Some (c :: captures, s :: string)"
  let ?k = "\<lambda>c' s'. rm (RStar r_param) (c'(1 := G s')) s' ?some"
  let ?m = "\<lambda>c' s'. rm (RLit CHR ''='') c' s' (\<lambda>c' s'. rm (RPlus (RChar alnum)) c' s' ?k)"
  obtain x ks where k: "key = x # ks" "alnum x" "list_all alnum ks"
    using assms(1) by (cases key) (auto simp: word_text_def)
  obtain y vs where v: "val = y # vs" "alnum y" "list_all alnum vs"
    using assms(2) by (cases val) (auto simp: word_text_def)
  have drest: "dropWhile alnum rest = rest"
    using assms(3) not_alnum by (cases rest) auto
  have stop: "?k c' rest = Some (c'(1 := G rest), rest)" for c'
    by (subst rm_star) (simp only: match_param_none [OF assms(3)] or_else_simps)
  have val: "rm (RPlus (RChar alnum)) c' (val @ rest) ?k = Some (c'(1 := G rest), rest)" for c'
  proof -
    have "rm (RStar (RChar alnum)) c' (vs @ rest) ?k = Some (c'(1 := G rest), rest)"
      by (rule rm_star_all) (simp only: dropWhile_front [OF v(3)] drest stop)
    then show ?thesis by (simp only: v(1) append_Cons rm_plus_Cons [of alnum, OF v(2)])
  qed
  have "?m c' (z # t) = None" if "alnum z" for c' z t
    by (rule rm_lit_none) (use that not_alnum in auto)
  then have "rm (RStar (RChar alnum)) c (ks @ ''='' @ val @ rest) ?m = ?m c (dropWhile alnum (ks @ ''='' @ val @ rest))"
    by (rule rm_star_greedy)
  also have "dropWhile alnum (ks @ ''='' @ val @ rest) = CHR ''='' # val @ rest"
    using dropWhile_front [OF k(3)] not_alnum by simp
  also have "?m c (CHR ''='' # val @ rest) = Some (c(1 := G rest), rest)"
    by (simp only: rm_lit simp_thms if_True val)
  finally have "rm (RPlus (RChar alnum)) c (x # ks @ ''='' @ val @ rest) ?m = Some (c(1 := G rest), rest)"
    by (simp only: rm_plus_Cons [of alnum, OF k(2)])
  moreover have "S = x # ks @ ''='' @ val @ rest"
    by (simp add: S_def k(1))
  moreover have "rm r_param c S (\<lambda>c' s'. rm (RStar r_param) c' s' ?some) = rm (RPlus (RChar alnum)) c S ?m"
    by (simp only: rm_group rm_seq G_def)
  ultimately have "rm s_param_regex c S ?some = Some (c(1 := G rest), rest)"
    by (simp only: s_param_regex_def RPlus_def [of r_param] rm_seq [of r_param])
  then show ?thesis
    unfolding S_def by blast
qed

lemma search_param:
  assumes "word_text key" and "word_text val" and "rest = [] \<or> take 1 rest = ''&''"
  shows "regex_search s_param_regex (key @ ''='' @ val @ rest) = Some (key @ ''='' @ val, rest)"
proof -
  obtain c' where "rm s_param_regex Map.empty (key @ ''='' @ val @ rest) (\<lambda>c s. Some (c, s)) = Some (c', rest)"
    using match_param [OF assms] by blast
  then show ?thesis
    by (subst regex_search_rm) simp
qed

lemma search_skips: "regex_search s_param_regex (CHR ''&'' # s) = regex_search s_param_regex s"
  by (subst regex_search.simps) (simp add: s_param_regex_def RPlus_def not_alnum)

lemma str_find_front: "x \<notin> set a \<Longrightarrow> str_find x (a @ x # b) = Some (length a)"
  by (induction a) auto

lemma parse_one_parameter:
  assumes "word_text key" and "word_text val" and "rest = [] \<or> take 1 rest = ''&''"
  shows "parse_parameters (key @ ''='' @ val @ rest) b = parse_parameters rest (builder_addParameter key val b)"
proof -
  have "CHR ''='' \<notin> set key"
    using assms(1) not_alnum by (auto simp: word_text_def list_all_iff)
  then have "str_find CHR ''='' (key @ ''='' @ val) = Some (length key)"
    using str_find_front [of "CHR ''=''" key val] by simp
  then show ?thesis
    by (subst parse_parameters.simps) (simp add: search_param [OF assms, simplified])
qed

lemma parse_more_parameters:
  "\<forall>p \<in> set ps. word_text (fst p) \<and> word_text (snd p) \<Longrightarrow>
   parse_parameters (show_more_parameters ps) b = fold (\<lambda>p. builder_addParameter (fst p) (snd p)) ps b"
proof (induction ps arbitrary: b)
  case Nil
  have "regex_search s_param_regex [] = None"
    by (subst regex_search.simps) (simp add: s_param_regex_def RPlus_def)
  then show ?case by (subst parse_parameters.simps) simp
next
  case (Cons p ps)
  have r: "show_more_parameters ps = [] \<or> take 1 (show_more_parameters ps) = ''&''"
    by (cases ps) simp_all
  have "parse_parameters (show_more_parameters (p # ps)) b
      = parse_parameters (fst p @ ''='' @ snd p @ show_more_parameters ps) b"
    by (subst (1 2) parse_parameters.simps) (simp add: search_skips)
  also have "\<dots> = parse_parameters (show_more_parameters ps) (builder_addParameter (fst p) (snd p) b)"
    using Cons.prems r by (intro parse_one_parameter) auto
  finally show ?case using Cons by simp
qed

subsection \<open>Properties\<close>

text \<open>\<^verbatim>\<open>parse\<close> without regular expressions: the string is cut at the first separators.\<close>

definition reference_parse :: "string \<Rightarrow> url outcome" where
  "reference_parse str =
     (if \<not> tail_ok str then failwith_as MalformedUrlException ''Cannot parse string''
      else let (scheme, t) = uri_scheme str; (authority, u) = uri_authority t; (path, v) = uri_path u
           in bind_outcome (parse_hostport authority (setProtocol scheme builder_new)) (\<lambda>b.
                url_build (parse_parameters (uri_query v) (setPath path b))))"

lemma url_parse_by_hand: "url_parse str = reference_parse str"
proof (cases "tail_ok str")
  case True
  then obtain c where "regex_match s_regex str = Some c" "group_str 2 c = fst (uri_scheme str)"
      "group_str 4 c = fst (uri_authority (snd (uri_scheme str)))"
      "group_str 5 c = fst (uri_path (snd (uri_authority (snd (uri_scheme str)))))"
      "group_str 7 c = uri_query (snd (uri_path (snd (uri_authority (snd (uri_scheme str))))))"
    using s_regex_groups [of str] by (auto simp only: if_True)
  then show ?thesis
    using True by (simp add: url_parse_def reference_parse_def Let_def case_prod_unfold)
next
  case False
  then show ?thesis
    using s_regex_groups [of str] by (simp add: url_parse_def reference_parse_def)
qed

text \<open>C12: Parsing a URL with the library's regular expression gives, for every string, what cutting it by
  hand gives: the scheme up to the first colon, the authority up to the next slash, question
  mark or hash, the path up to the next question mark or hash, the query up to the next
  hash; only a line terminator after the hash makes the expression fail.\<close>

theorem url_parse_reference: "url_parse str = reference_parse str"
  by (rule url_parse_by_hand)

text \<open>A URL whose parts can be told apart, and its parameters in some order of iteration.\<close>

definition plain_url :: "(string \<times> string) list \<Rightarrow> url \<Rightarrow> bool" where
  "plain_url ps u \<longleftrightarrow>
     m_protocol u \<noteq> [] \<and> list_all (none_of '':/?#'') (m_protocol u)
     \<and> m_hostname u \<noteq> [] \<and> list_all (none_of '':/?#'') (m_hostname u)
     \<and> unat (m_port u) < 2 ^ 31
     \<and> (m_path u = [] \<or> take 1 (m_path u) = ''/'') \<and> list_all (none_of ''?#'') (m_path u)
     \<and> m_query u = []
     \<and> distinct (map fst ps) \<and> map_of ps = m_parameters u
     \<and> (\<forall>p \<in> set ps. word_text (fst p) \<and> word_text (snd p))"

lemma none_of_weaker:
  "none_of '':/?#'' x \<Longrightarrow> none_of ''/?#'' x" "none_of '':/?#'' x \<Longrightarrow> x \<noteq> CHR ''#''" "none_of '':/?#'' x \<Longrightarrow> x \<noteq> CHR '':''"
  "none_of ''/?#'' x \<Longrightarrow> none_of ''?#'' x" "none_of ''?#'' x \<Longrightarrow> x \<noteq> CHR ''#''"
  by (auto simp: none_of_def)

definition show_port :: "32 word \<Rightarrow> string" where
  "show_port p = (if p \<noteq> 0 then '':'' @ show_nat (unat p) else [])"

definition show_parameters :: "(string \<times> string) list \<Rightarrow> string" where
  "show_parameters ps = (case ps of [] \<Rightarrow> [] | p # qs \<Rightarrow> fst p @ ''='' @ snd p @ show_more_parameters qs)"

definition show_query :: "(string \<times> string) list \<Rightarrow> string" where
  "show_query ps = (if ps = [] then [] else ''?'' @ show_parameters ps)"

lemma toString_plain:
  "plain_url ps u \<Longrightarrow> url_toString ps u
     = m_protocol u @ ''://'' @ (m_hostname u @ show_port (m_port u)) @ m_path u @ show_query ps"
  by (auto simp: url_toString_def plain_url_def show_port_def show_query_def show_parameters_def Let_def
      split: list.split)

lemma parameters_no_hash:
  assumes "\<forall>p \<in> set ps. word_text (fst p) \<and> word_text (snd p)"
  shows "list_all (none_of ''#'') (show_more_parameters ps)" "list_all (none_of ''#'') (show_parameters ps)"
proof -
  have w: "word_text s \<Longrightarrow> list_all (none_of ''#'') s" for s
    using not_alnum by (auto simp: word_text_def list_all_iff none_of_def)
  show m: "list_all (none_of ''#'') (show_more_parameters ps)"
    using assms w by (induction ps) (auto simp: none_of_def)
  show "list_all (none_of ''#'') (show_parameters ps)"
  proof (cases ps)
    case (Cons p qs)
    then show ?thesis using assms m by (simp add: show_parameters_def w none_of_def)
  qed (simp add: show_parameters_def)
qed

lemma parse_shown_parameters:
  assumes "\<forall>p \<in> set ps. word_text (fst p) \<and> word_text (snd p)"
  shows "parse_parameters (show_parameters ps) b = fold (\<lambda>p. builder_addParameter (fst p) (snd p)) ps b"
proof (cases ps)
  case Nil
  then show ?thesis using parse_more_parameters [of "[]" b] by (simp add: show_parameters_def)
next
  case (Cons p qs)
  have "show_more_parameters qs = [] \<or> take 1 (show_more_parameters qs) = ''&''" by (cases qs) simp_all
  then have "parse_parameters (show_parameters ps) b
      = parse_parameters (show_more_parameters qs) (builder_addParameter (fst p) (snd p) b)"
    using assms unfolding Cons show_parameters_def list.case by (intro parse_one_parameter) auto
  then show ?thesis using parse_more_parameters [of qs] assms by (simp add: Cons)
qed

lemma fold_addParameter:
  "m_url (fold (\<lambda>p. builder_addParameter (fst p) (snd p)) ps b)
     = (m_url b)\<lparr>m_parameters := (m_parameters (m_url b)) ++ map_of (rev ps)\<rparr>"
  by (induction ps arbitrary: b) (simp_all add: builder_addParameter_def url_addParameter_def)

lemma map_of_rev_distinct: "distinct (map fst ps) \<Longrightarrow> map_of (rev ps) = map_of ps"
  by (subst map_of_inject_set) (simp_all add: rev_map [symmetric])

lemma show_port_class: "list_all (none_of ''/?#'') (show_port p)"
proof -
  have "none_of ''/?#'' x" if "x \<in> set (show_nat n)" for x n
    using that show_nat_read [of n] is_digit_cases none_of_weaker(1) by (auto simp: list_all_iff)
  then show ?thesis by (auto simp: show_port_def list_all_iff none_of_def)
qed

lemma parse_shown_hostport:
  assumes "list_all (none_of '':/?#'') host" and "unat port < 2 ^ 31"
  shows "parse_hostport (host @ show_port port) b
     = Inr (if port = 0 then setHostname host b else setPort port (setHostname host b))"
proof (cases "port = 0")
  case True
  have "str_find CHR '':'' host = None"
    using assms(1) by (induction host) (auto dest: none_of_weaker)
  with True show ?thesis by (simp add: parse_hostport_def show_port_def)
next
  case False
  have "CHR '':'' \<notin> set host" using assms(1) by (auto simp: list_all_iff none_of_def)
  then have "str_find CHR '':'' (host @ CHR '':'' # show_nat (unat port)) = Some (length host)"
    by (rule str_find_front)
  moreover have "stoi (show_nat (unat port)) = Inr (int (unat port))"
    using assms(2) by (rule stoi_show_nat)
  moreover have "of_int (int (unat port)) = port" by simp
  ultimately show ?thesis
    using False by (simp add: parse_hostport_def show_port_def Let_def)
qed

text \<open>The scanner finds the parts of a plain URL in its string.\<close>

lemma plain_url_parts:
  assumes "plain_url ps u"
  defines "auth \<equiv> m_hostname u @ show_port (m_port u)"
  shows "uri_scheme (url_toString ps u) = (m_protocol u, ''//'' @ auth @ m_path u @ show_query ps)"
    "uri_authority (''//'' @ auth @ m_path u @ show_query ps) = (auth, m_path u @ show_query ps)"
    "uri_path (m_path u @ show_query ps) = (m_path u, show_query ps)"
    "uri_query (show_query ps) = show_parameters ps"
    "tail_ok (url_toString ps u)"
proof -
  let ?s = "url_toString ps u"
  have u: "m_protocol u \<noteq> []" "list_all (none_of '':/?#'') (m_protocol u)" "m_hostname u \<noteq> []"
    "list_all (none_of '':/?#'') (m_hostname u)" "unat (m_port u) < 2 ^ 31"
    "m_path u = [] \<or> take 1 (m_path u) = ''/''" "list_all (none_of ''?#'') (m_path u)" "m_query u = []"
    "distinct (map fst ps)" "map_of ps = m_parameters u" "\<forall>p \<in> set ps. word_text (fst p) \<and> word_text (snd p)"
    using assms(1) by (auto simp: plain_url_def)
  have s: "?s = m_protocol u @ ''://'' @ auth @ m_path u @ show_query ps"
    unfolding auth_def by (rule toString_plain [OF assms(1)])
  have q: "show_query ps = [] \<or> take 1 (show_query ps) = ''?''" by (simp add: show_query_def)
  have auth: "list_all (none_of ''/?#'') auth"
    unfolding auth_def using u(4) show_port_class none_of_weaker(1) by (auto simp: list_all_iff)
  have scheme: "uri_scheme ?s = (m_protocol u, ''//'' @ auth @ m_path u @ show_query ps)"
    using u(1) takeWhile_front [OF u(2), of "''://'' @ auth @ m_path u @ show_query ps"]
      dropWhile_front [OF u(2), of "''://'' @ auth @ m_path u @ show_query ps"]
    unfolding s by (simp add: uri_scheme_def none_of_def)
  have stop: "takeWhile (none_of ''/?#'') (m_path u @ show_query ps) = []
    \<and> dropWhile (none_of ''/?#'') (m_path u @ show_query ps) = m_path u @ show_query ps"
    using u(6) q by (cases "m_path u"; cases "show_query ps") (auto simp: none_of_def)
  have authority: "uri_authority (''//'' @ auth @ m_path u @ show_query ps) = (auth, m_path u @ show_query ps)"
    using takeWhile_front [OF auth] dropWhile_front [OF auth] stop by (simp add: uri_authority_def)
  have path: "uri_path (m_path u @ show_query ps) = (m_path u, show_query ps)"
    using takeWhile_front [OF u(7), of "show_query ps"] dropWhile_front [OF u(7), of "show_query ps"] q
    by (cases "show_query ps") (auto simp: uri_path_def none_of_def)
  have query: "uri_query (show_query ps) = show_parameters ps"
    using takeWhile_front [OF parameters_no_hash(2) [OF u(11)], of "[]"]
    by (auto simp: uri_query_def show_query_def show_parameters_def)
  have "list_all (\<lambda>x. x \<noteq> CHR ''#'') (show_query ps)"
    using parameters_no_hash(2) [OF u(11)] by (auto simp: show_query_def list_all_iff none_of_def)
  then have "list_all (\<lambda>x. x \<noteq> CHR ''#'') ?s"
    using list.pred_mono_strong [OF u(2) none_of_weaker(2)] list.pred_mono_strong [OF u(7) none_of_weaker(5)]
      list.pred_mono_strong [OF auth none_of_weaker(5) [OF none_of_weaker(4)]]
    unfolding s by simp
  then have "dropWhile (\<lambda>x. x \<noteq> CHR ''#'') ?s = []"
    by (simp add: dropWhile_eq_Nil_conv list_all_iff)
  then have ok: "tail_ok ?s" by (simp only: tail_ok_def) simp
  show "uri_scheme ?s = (m_protocol u, ''//'' @ auth @ m_path u @ show_query ps)"
    "uri_authority (''//'' @ auth @ m_path u @ show_query ps) = (auth, m_path u @ show_query ps)"
    "uri_path (m_path u @ show_query ps) = (m_path u, show_query ps)"
    "uri_query (show_query ps) = show_parameters ps" "tail_ok ?s"
    by (rule scheme, rule authority, rule path, rule query, rule ok)
qed

text \<open>C13: Round trip: whatever the order in which the parameters are printed, parsing the text of a URL
  gives the URL back, when protocol and host have no separators, the port fits into an
  \<^verbatim>\<open>int\<close>, the path is absolute, the names and values of the parameters are alphanumeric, and
  no query is set.\<close>

theorem url_round_trip:
  assumes "plain_url ps u"
  shows "url_parse (url_toString ps u) = Inr u"
proof -
  let ?auth = "m_hostname u @ show_port (m_port u)" and ?s = "url_toString ps u"
  have u: "m_protocol u \<noteq> []" "list_all (none_of '':/?#'') (m_protocol u)" "m_hostname u \<noteq> []"
    "list_all (none_of '':/?#'') (m_hostname u)" "unat (m_port u) < 2 ^ 31"
    "m_path u = [] \<or> take 1 (m_path u) = ''/''" "list_all (none_of ''?#'') (m_path u)" "m_query u = []"
    "distinct (map fst ps)" "map_of ps = m_parameters u" "\<forall>p \<in> set ps. word_text (fst p) \<and> word_text (snd p)"
    using assms by (auto simp: plain_url_def)
  note parts = plain_url_parts [OF assms]
  have rev: "map_of (rev ps) = m_parameters u"
    using map_of_rev_distinct [OF u(9)] u(10) by simp
  have "reference_parse ?s = bind_outcome (parse_hostport ?auth (setProtocol (m_protocol u) builder_new))
      (\<lambda>b. url_build (parse_parameters (show_parameters ps) (setPath (m_path u) b)))"
    by (simp only: reference_parse_def parts not_True_eq_False if_False Let_def prod.case)
  also have "\<dots> = Inr u"
    using u(1,3,8) fold_addParameter parse_shown_parameters [OF u(11)] rev
    by (simp add: parse_shown_hostport [OF u(4,5)] url_build_def setPath_def setPort_def setHostname_def
        setProtocol_def builder_new_def url_default_def)
  finally show ?thesis by (simp only: url_parse_by_hand)
qed

lemma nine_thousand:
  "show_nat 9000 = ''9000''"
  by (simp add: show_nat.simps digit_def char_of_eq_iff of_char_def)

definition demo_url :: url where
  "demo_url = \<lparr>m_protocol = ''tcp'', m_hostname = ''host'', m_port = 9000, m_path = ''/dev'', m_query = [],
     m_parameters = [''a'' \<mapsto> ''1'', ''b'' \<mapsto> ''2'']\<rparr>"

theorem url_round_trip_witness:
  "url_toString [(''b'', ''2''), (''a'', ''1'')] demo_url = ''tcp://host:9000/dev?b=2&a=1''
   \<and> url_parse (url_toString [(''b'', ''2''), (''a'', ''1'')] demo_url) = Inr demo_url"
proof
  show "url_toString [(''b'', ''2''), (''a'', ''1'')] demo_url = ''tcp://host:9000/dev?b=2&a=1''"
    by (simp add: url_toString_def demo_url_def nine_thousand)
  have "plain_url [(''b'', ''2''), (''a'', ''1'')] demo_url"
    by (auto simp: plain_url_def demo_url_def none_of_def word_text_def alnum_def fun_eq_iff)
  then show "url_parse (url_toString [(''b'', ''2''), (''a'', ''1'')] demo_url) = Inr demo_url"
    by (rule url_round_trip)
qed

text \<open>\<^verbatim>\<open>parse\<close> either returns a URL with a protocol and a host, and never with a query, or throws
  \<^verbatim>\<open>MalformedUrlException\<close>, on every string.\<close>

theorem url_parse_errors:
  "case url_parse str of
     Inr u \<Rightarrow> m_protocol u \<noteq> [] \<and> m_hostname u \<noteq> [] \<and> m_query u = []
   | Inl f \<Rightarrow> \<exists>msg. f = Thrown (mk_exn MalformedUrlException msg)"
proof -
  have stoi: "stoi s \<noteq> Inl (Fault f)" for s f
    by (auto simp: stoi_def failwith_as_def Let_def split: prod.split)
  have hp: "case parse_hostport h b of
      Inr b' \<Rightarrow> m_query (m_url b') = m_query (m_url b)
    | Inl f \<Rightarrow> \<exists>msg. f = Thrown (mk_exn MalformedUrlException msg)" for h b
    using stoi by (auto simp: parse_hostport_def failwith_as_def setHostname_def setPort_def Let_def
        split: option.split sum.split failure.split)
  have params: "m_query (m_url (parse_parameters s b)) = m_query (m_url b)" for s b
  proof (induction s b rule: parse_parameters.induct)
    case (1 s b)
    then show ?case
      by (subst parse_parameters.simps)
        (auto simp: builder_addParameter_def url_addParameter_def Let_def split: option.split)
  qed
  have build: "case url_build b of Inr u \<Rightarrow> m_protocol u \<noteq> [] \<and> m_hostname u \<noteq> [] \<and> m_query u = m_query (m_url b)
    | Inl f \<Rightarrow> \<exists>msg. f = Thrown (mk_exn MalformedUrlException msg)" for b
    by (auto simp: url_build_def failwith_as_def)
  show ?thesis
  proof (cases "regex_match s_regex str")
    case None
    then show ?thesis by (auto simp: url_parse_def failwith_as_def)
  next
    case (Some c)
    let ?b = "setProtocol (group_str 2 c) builder_new"
    show ?thesis
    proof (cases "parse_hostport (group_str 4 c) ?b")
      case (Inl f)
      then show ?thesis using hp [where h = "group_str 4 c" and b = ?b] by (simp add: url_parse_def Some)
    next
      case (Inr b')
      let ?b' = "parse_parameters (group_str 7 c) (setPath (group_str 5 c) b')"
      have "m_query (m_url b') = []"
        using hp [where h = "group_str 4 c" and b = ?b] Inr by (simp add: setProtocol_def builder_new_def url_default_def)
      then have "m_query (m_url ?b') = []" by (simp add: params setPath_def)
      then show ?thesis
        using build [of ?b'] by (simp add: url_parse_def Some Inr Let_def split: sum.splits)
    qed
  qed
qed

text \<open>
  A query that is set is printed as one more segment of the path, and read back as such; a
  negative port number is accepted and wraps.
\<close>

lemma query_becomes_path:
  "url_toString [] (demo_url\<lparr>m_path := ''/dev'', m_query := ''q'', m_parameters := Map.empty\<rparr>) = ''tcp://host:9000/dev/q''"
  by (simp add: url_toString_def demo_url_def nine_thousand)

lemma negative_port_wraps:
  "parse_hostport ''host:-1'' b = Inr (setPort (- 1) (setHostname ''host'' b))"
  by (simp add: parse_hostport_def stoi_def is_space_def is_digit_def digits_value_def digit_value_def Let_def)

end
