(* ===== verification/Messaging_Service.thy ===== *)
theory Messaging_Service
  imports Session_Model Url_Model
begin

text \<open>
  \<^verbatim>\<open>messaging_service.hpp\<close>: the service that owns the I/O context, the transport
  registry and the session manager.  \<^verbatim>\<open>connect\<close> composes the registry, a factory
  and the manager.  Starting and stopping involve two threads, the caller and the
  one that runs the context, which share \<^verbatim>\<open>m_state\<close> and the context; they are steps
  that interleave.
\<close>

subsection \<open>connect\<close>

text \<open>\<^verbatim>\<open>std::errc::protocol_not_supported\<close> has its Linux value.\<close>

definition make_error_code :: "int \<Rightarrow> error_code" where
  "make_error_code e = \<lparr>ec_value = e, ec_category = GenericCategory\<rparr>"

definition protocol_not_supported :: int where
  "protocol_not_supported = 93"

text \<open>A factory returns a shared pointer, which a factory of the program may leave null.\<close>

definition ms_connect ::
  "('w, 't) transport_class \<Rightarrow> ('w, 't) session_callbacks \<Rightarrow> ('w, 't option, url) transport_registry
     \<Rightarrow> url \<Rightarrow> ('t session_manager \<times> 'w, ('t session, error_code) result) eff" where
  "ms_connect c cb m_transport_registry url =
     eff_catch_all
       (eff_bind (eff_lift (getFactory (url_protocol url) m_transport_registry)) (\<lambda>maybe_factory.
          case maybe_factory of
            None \<Rightarrow> eff_return (Failure (make_error_code protocol_not_supported))
          | Some factory \<Rightarrow>
              eff_bind (in_world (createTransport factory url)) (\<lambda>transport_res.
                case transport_res of
                  Failure e \<Rightarrow> eff_return (Failure e)
                | Success transport \<Rightarrow>
                    eff_bind (createSession c cb transport) (\<lambda>session. eff_return (Success session)))))
       (eff_return (Failure (make_error_code 0xFF)))"

subsection \<open>Starting and stopping\<close>

text \<open>
  A position of the thread that \<^verbatim>\<open>doStart\<close> launches: before its first statement, at
  the loop's test, in \<^verbatim>\<open>m_ioc.run()\<close>, behind the loop, returned.
\<close>

datatype io_pc = IoCalled | IoTest | IoRun | IoLeave | IoReturned

text \<open>A position of the caller of \<^verbatim>\<open>start\<close> and \<^verbatim>\<open>stop\<close>.\<close>

datatype client_pc =
    ClientIdle
  | StartAsync
  | StartAssign nat
  | StopTerminateAll
  | StopContext
  | StopWait

text \<open>
  \<open>m_io\<close> names the thread whose future the service holds; \<open>ioc_stopped\<close> is the flag
  of the context that \<^verbatim>\<open>io_context::stop\<close> sets and only \<^verbatim>\<open>restart\<close> clears.
\<close>

record ('w, 't) messaging_service =
  ms_state :: service_state
  ioc_stopped :: bool
  m_io :: "nat option"
  io_threads :: "io_pc list"
  client :: client_pc
  stop_result :: "unit outcome"
  m_session_manager :: "'t session_manager"
  ms_world :: 'w

definition messaging_service_new :: "'w \<Rightarrow> ('w, 't) messaging_service" where
  "messaging_service_new w =
     \<lparr>ms_state = Stopped, ioc_stopped = False, m_io = None, io_threads = [], client = ClientIdle,
      stop_result = Inr (), m_session_manager = session_manager_new, ms_world = w\<rparr>"

definition set_thread :: "nat \<Rightarrow> io_pc \<Rightarrow> ('w, 't) messaging_service \<Rightarrow> ('w, 't) messaging_service" where
  "set_thread i pc S = S\<lparr>io_threads := (io_threads S)[i := pc]\<rparr>"

text \<open>
  A step of the handler: \<open>ready\<close> is the completion handler that the context runs
  next, if one is ready.  \<^verbatim>\<open>run()\<close> returns when the context is stopped, at once when
  it already was; the work guard keeps it from returning for want of work.  \<open>None\<close>:
  the thread waits, or has ended.
\<close>

definition io_handler ::
  "('t session_manager \<times> 'w, unit) eff option \<Rightarrow> nat \<Rightarrow> ('w, 't) messaging_service
     \<Rightarrow> ('w, 't) messaging_service option" where
  "io_handler ready i S =
     (case io_threads S ! i of
        IoCalled \<Rightarrow> Some (set_thread i IoTest (S\<lparr>ms_state := Started\<rparr>))
      | IoTest \<Rightarrow> Some (set_thread i (if ms_state S \<noteq> StopPending then IoRun else IoLeave) S)
      | IoRun \<Rightarrow>
          if ioc_stopped S then Some (set_thread i IoTest S)
          else (case ready of
                  None \<Rightarrow> None
                | Some h \<Rightarrow>
                    let (r, sm, w) = h (m_session_manager S, ms_world S);
                        S' = S\<lparr>m_session_manager := sm, ms_world := w\<rparr>
                    in (case r of
                          Inr u \<Rightarrow> Some S'
                        | Inl (Thrown e) \<Rightarrow> Some (set_thread i IoTest S')
                        | Inl (Fault f) \<Rightarrow> None))
      | IoLeave \<Rightarrow> Some (set_thread i IoReturned (S\<lparr>ms_state := Stopped\<rparr>))
      | IoReturned \<Rightarrow> None)"

text \<open>
  The steps of \<^verbatim>\<open>doStart\<close>.  The future of \<^verbatim>\<open>std::async\<close> that the assignment replaces
  waits for its thread.
\<close>

definition ms_doStart :: "('w, 't) messaging_service \<Rightarrow> ('w, 't) messaging_service option" where
  "ms_doStart S =
     (case client S of
        ClientIdle \<Rightarrow> Some (S\<lparr>ms_state := StartPending, client := StartAsync\<rparr>)
      | StartAsync \<Rightarrow>
          Some (S\<lparr>io_threads := io_threads S @ [IoCalled], client := StartAssign (length (io_threads S))\<rparr>)
      | StartAssign n \<Rightarrow>
          if (case m_io S of None \<Rightarrow> True | Some i \<Rightarrow> io_threads S ! i = IoReturned)
          then Some (S\<lparr>m_io := Some n, client := ClientIdle\<rparr>) else None
      | _ \<Rightarrow> None)"

definition ms_doInit :: "('w, 't) messaging_service \<Rightarrow> ('w, 't) messaging_service" where
  "ms_doInit S = S"

text \<open>
  The steps of \<^verbatim>\<open>doStop\<close>.  An exception of \<^verbatim>\<open>terminateAll\<close> ends it, and one that is
  not a \<^verbatim>\<open>std::exception\<close> reaches the caller.  To wait for a service that was never
  started throws \<^verbatim>\<open>std::future_error\<close>, which is caught.
\<close>

definition ms_doStop ::
  "('w, 't) transport_class \<Rightarrow> ('w, 't) session_callbacks \<Rightarrow> ('w, 't) messaging_service
     \<Rightarrow> ('w, 't) messaging_service option" where
  "ms_doStop c cb S =
     (case client S of
        ClientIdle \<Rightarrow> Some (S\<lparr>ms_state := StopPending, client := StopTerminateAll\<rparr>)
      | StopTerminateAll \<Rightarrow>
          let (r, sm, w) = terminateAll c cb (m_session_manager S, ms_world S);
              S' = S\<lparr>m_session_manager := sm, ms_world := w\<rparr>
          in (case r of
                Inr u \<Rightarrow> Some (S'\<lparr>client := StopContext\<rparr>)
              | Inl (Thrown e) \<Rightarrow>
                  Some (S'\<lparr>client := ClientIdle,
                    stop_result := (if caught_as_std e then Inr () else Inl (Thrown e))\<rparr>)
              | Inl (Fault f) \<Rightarrow> None)
      | StopContext \<Rightarrow> Some (S\<lparr>ioc_stopped := True, client := StopWait\<rparr>)
      | StopWait \<Rightarrow>
          if (case m_io S of None \<Rightarrow> True | Some i \<Rightarrow> io_threads S ! i = IoReturned)
          then Some (S\<lparr>client := ClientIdle, stop_result := Inr ()\<rparr>) else None
      | _ \<Rightarrow> None)"

text \<open>
  One step of the program: of the caller, who also connects between its calls, of an
  I/O thread, or of the rest of the program on its own state.
\<close>

inductive ms_step ::
  "('w, 't) transport_class \<Rightarrow> ('w, 't) session_callbacks \<Rightarrow> ('w, 't option, url) transport_registry
     \<Rightarrow> ('w, 't) messaging_service \<Rightarrow> ('w, 't) messaging_service \<Rightarrow> bool"
  for c cb registry where
  start: "ms_doStart S = Some S' \<Longrightarrow> ms_step c cb registry S S'"
| stop: "ms_doStop c cb S = Some S' \<Longrightarrow> ms_step c cb registry S S'"
| io: "i < length (io_threads S) \<Longrightarrow> io_handler ready i S = Some S' \<Longrightarrow> ms_step c cb registry S S'"
| connect: "client S = ClientIdle \<Longrightarrow>
    ms_connect c cb registry url (m_session_manager S, ms_world S) = (r, sm, w) \<Longrightarrow>
    ms_step c cb registry S (S\<lparr>m_session_manager := sm, ms_world := w\<rparr>)"
| environment: "ms_step c cb registry S (S\<lparr>ms_world := w\<rparr>)"

abbreviation ms_reaches where
  "ms_reaches c cb registry \<equiv> (ms_step c cb registry)\<^sup>*\<^sup>*"

text \<open>\<open>n\<close> steps of thread \<open>i\<close> alone, with no handler ready.\<close>

primrec io_steps :: "nat \<Rightarrow> nat \<Rightarrow> ('w, 't) messaging_service \<Rightarrow> ('w, 't) messaging_service option" where
  "io_steps 0 i S = Some S"
| "io_steps (Suc n) i S = (case io_handler None i S of None \<Rightarrow> None | Some S' \<Rightarrow> io_steps n i S')"

subsection \<open>Properties of connect\<close>

lemma getFactory_no_throw: "getFactory protocol registry \<noteq> Inl (Thrown e)"
proof -
  have "getFactory_loop protocol registry maybe \<noteq> Inl (Thrown e)" for maybe
    by (induction registry arbitrary: maybe) (auto split: option.split)
  then show ?thesis by (simp add: getFactory_def)
qed

lemma createTransport_no_throw: "createTransport f url w \<noteq> (Inl (Thrown e), w')"
  by (auto simp: createTransport_def eff_noexcept_def split: prod.split sum.split failure.split)

text \<open>What a session that \<^verbatim>\<open>createSession\<close> returns is: the entry under its identifier.\<close>

lemma createSession_registers:
  assumes "sm_inv sm" and "createSession c cb transport (sm, w) = (Inr s, sm', w')"
  shows "map_of (m_sessions sm') (session_m_id s) = Some (Some s)"
proof -
  have inv: "sm_inv sm'" using sm_inv_createSession [OF assms(1), of c cb transport w] assms(2) by simp
  have "\<exists>sid. map_of (m_sessions sm') sid = Some (Some s)"
    using assms(2)
    by (auto simp: createSession_def eff_bind_def eff_then_def Let_def deref_def in_world_def
        get_local_def set_local_def split: option.splits prod.splits sum.splits)
  then obtain sid where sid: "map_of (m_sessions sm') sid = Some (Some s)" by blast
  then have "session_m_id s = sid"
    using inv map_of_SomeD [OF sid] by (fastforce simp: sm_inv_def)
  with sid show ?thesis by simp
qed

lemma connect_cases:
  assumes "ms_connect c cb registry url (sm, w) = (r, sm', w')"
  obtains (fault) f where "r = Inl (Fault f)"
  | (unsupported) "getFactory (url_protocol url) registry = Inr None"
      "r = Inr (Failure (make_error_code protocol_not_supported))" "sm' = sm" "w' = w"
  | (refused) f e where "getFactory (url_protocol url) registry = Inr (Some f)" "r = Inr (Failure e)" "sm' = sm"
      "createTransport f url w = (Inr (Failure e), w')"
  | (session) f t w1 s where "getFactory (url_protocol url) registry = Inr (Some f)"
      "createTransport f url w = (Inr (Success t), w1)"
      "createSession c cb t (sm, w1) = (Inr s, sm', w')" "r = Inr (Success s)"
  | (internal) f t w1 e where "getFactory (url_protocol url) registry = Inr (Some f)"
      "createTransport f url w = (Inr (Success t), w1)"
      "createSession c cb t (sm, w1) = (Inl (Thrown e), sm', w')" "r = Inr (Failure (make_error_code 0xFF))"
proof (cases "getFactory (url_protocol url) registry")
  case (Inl e)
  then obtain f where "e = Fault f"
    using getFactory_no_throw [of "url_protocol url" registry] by (cases e) auto
  with Inl assms fault show thesis by (auto simp: ms_connect_def eff_catch_all_def)
next
  case (Inr mf)
  show thesis
  proof (cases mf)
    case None
    with Inr assms unsupported show thesis by (auto simp: ms_connect_def eff_catch_all_def)
  next
    case (Some f)
    obtain rt w1 where ct: "createTransport f url w = (rt, w1)" by (rule prod.exhaust)
    show thesis
    proof (cases rt)
      case (Inl e)
      then obtain ft where "e = Fault ft" using createTransport_no_throw [of f url w] ct by (cases e) auto
      with Inl Inr Some ct assms fault show thesis
        by (auto simp: ms_connect_def eff_catch_all_def eff_bind_def in_world_def)
    next
      case rt: (Inr tr)
      show thesis
      proof (cases tr)
        case (Failure e)
        with rt Inr Some ct assms refused show thesis
          by (auto simp: ms_connect_def eff_catch_all_def eff_bind_def in_world_def)
      next
        case (Success t)
        obtain rs sm2 w2 where cs: "createSession c cb t (sm, w1) = (rs, sm2, w2)" by (rule prod_cases3)
        note eqs = rt Inr Some ct Success cs
        show thesis
        proof (cases rs)
          case (Inl e)
          show thesis
          proof (cases e)
            case (Thrown ex)
            with eqs Inl assms internal show thesis
              by (auto simp: ms_connect_def eff_catch_all_def eff_bind_def in_world_def)
          next
            case (Fault ft)
            with eqs Inl assms fault show thesis
              by (auto simp: ms_connect_def eff_catch_all_def eff_bind_def in_world_def)
          qed
        next
          case rs: (Inr s)
          with eqs assms session show thesis
            by (auto simp: ms_connect_def eff_catch_all_def eff_bind_def in_world_def)
        qed
      qed
    qed
  qed
qed

lemma keeps_connect:
  assumes "sm_inv sm" and "ms_connect c cb registry url (sm, w) = (r, sm', w')" and "\<And>f. r \<noteq> Inl (Fault f)"
  shows "sm_inv sm'"
  using assms(2)
proof (cases rule: connect_cases)
  case (session f t w1 s)
  then show ?thesis using sm_inv_createSession [OF assms(1), of c cb t w1] by simp
next
  case (internal f t w1 e)
  then show ?thesis using sm_inv_createSession [OF assms(1), of c cb t w1] by simp
qed (use assms in auto)

subsection \<open>Reachable states of the service\<close>

text \<open>
  A thread that has not returned is the one whose future the service holds, or the
  one whose future \<^verbatim>\<open>start\<close> is about to store.
\<close>

definition ms_inv :: "('w, 't) messaging_service \<Rightarrow> bool" where
  "ms_inv S \<longleftrightarrow>
     pred_option (\<lambda>i. i < length (io_threads S)) (m_io S)
     \<and> (\<forall>j < length (io_threads S). io_threads S ! j \<noteq> IoReturned \<longrightarrow> m_io S = Some j \<or> client S = StartAssign j)
     \<and> (\<forall>n. client S = StartAssign n \<longrightarrow> n < length (io_threads S))
     \<and> (client S = StopWait \<longrightarrow> ioc_stopped S)"

lemma ms_inv_new: "ms_inv (messaging_service_new w)"
  by (simp add: ms_inv_def messaging_service_new_def)

lemma same_update: "\<exists>y. xs = xs[i := y]"
  by (rule exI [of _ "xs ! i"]) simp

text \<open>What a step of a thread leaves alone.\<close>

lemma io_handler_frame:
  assumes "io_handler ready i S = Some S'"
  shows "m_io S' = m_io S" "client S' = client S" "ioc_stopped S' = ioc_stopped S"
    "io_threads S ! i \<noteq> IoReturned" "\<exists>pc. io_threads S' = (io_threads S)[i := pc]"
    "ms_state S' = ms_state S \<or> io_threads S ! i = IoCalled \<or> io_threads S ! i = IoLeave"
    "ioc_stopped S \<Longrightarrow> m_session_manager S' = m_session_manager S \<and> ms_world S' = ms_world S"
  using assms
  by (auto simp: io_handler_def set_thread_def Let_def
      intro: same_update
      split: io_pc.splits if_splits option.splits prod.splits sum.splits failure.splits)

lemma ms_inv_io:
  assumes "ms_inv S" and "io_handler ready i S = Some S'"
  shows "ms_inv S'"
proof -
  obtain pc where "io_threads S' = (io_threads S)[i := pc]"
    using io_handler_frame(5) [OF assms(2)] by blast
  moreover have "(io_threads S)[i := pc] ! j \<noteq> IoReturned \<Longrightarrow> io_threads S ! j \<noteq> IoReturned" for j
    using io_handler_frame(4) [OF assms(2)] by (cases "i = j") auto
  ultimately show ?thesis
    using assms(1) io_handler_frame(1-3) [OF assms(2)] by (simp add: ms_inv_def)
qed

lemma ms_inv_start:
  assumes "ms_inv S" and "ms_doStart S = Some S'"
  shows "ms_inv S'"
proof (cases "client S")
  case ClientIdle
  with assms show ?thesis by (auto simp: ms_inv_def ms_doStart_def)
next
  case StartAsync
  with assms have "S' = S\<lparr>io_threads := io_threads S @ [IoCalled], client := StartAssign (length (io_threads S))\<rparr>"
    by (simp add: ms_doStart_def)
  with assms(1) StartAsync show ?thesis
    by (cases "m_io S") (auto simp: ms_inv_def nth_append less_Suc_eq)
next
  case (StartAssign n)
  with assms have "case m_io S of None \<Rightarrow> True | Some i \<Rightarrow> io_threads S ! i = IoReturned"
    and S': "S' = S\<lparr>m_io := Some n, client := ClientIdle\<rparr>"
    by (simp_all add: ms_doStart_def split: if_splits)
  with assms(1) StartAssign show ?thesis
    by (cases "m_io S") (auto simp: ms_inv_def)
qed (use assms in \<open>simp_all add: ms_doStart_def\<close>)

lemma ms_inv_stop: "ms_inv S \<Longrightarrow> ms_doStop c cb S = Some S' \<Longrightarrow> ms_inv S'"
  by (auto simp: ms_inv_def ms_doStop_def Let_def
      split: client_pc.splits if_splits prod.splits sum.splits failure.splits)

lemma ms_inv_step: "ms_step c cb registry S S' \<Longrightarrow> ms_inv S \<Longrightarrow> ms_inv S'"
proof (induction rule: ms_step.induct)
  case (start S S')
  then show ?case by (metis ms_inv_start)
next
  case (stop S S')
  then show ?case by (metis ms_inv_stop)
next
  case (io i S ready S')
  then show ?case by (metis ms_inv_io)
qed (simp_all add: ms_inv_def)

interpretation sv: stable "ms_step c cb registry" ms_inv
  by unfold_locales (rule ms_inv_step)

lemma ms_reaches_inv: "ms_reaches c cb registry S S' \<Longrightarrow> ms_inv S \<Longrightarrow> ms_inv S'"
  by (rule sv.stays)

lemma ioc_stopped_step: "ms_step c cb registry S S' \<Longrightarrow> ioc_stopped S \<Longrightarrow> ioc_stopped S'"
proof (induction rule: ms_step.induct)
  case (io i S ready S')
  then show ?case using io_handler_frame(3) by metis
qed (auto simp: ms_doStart_def ms_doStop_def Let_def
    split: client_pc.splits if_splits prod.splits sum.splits failure.splits)

interpretation st: stable "ms_step c cb registry" ioc_stopped
  by unfold_locales (rule ioc_stopped_step)

text \<open>
  A wait that does not end: the thread has set \<^verbatim>\<open>Started\<close> after \<^verbatim>\<open>stop\<close> set
  \<^verbatim>\<open>StopPending\<close>.
\<close>

definition hung :: "nat \<Rightarrow> ('w, 't) messaging_service \<Rightarrow> bool" where
  "hung i S \<longleftrightarrow>
     client S = StopWait \<and> m_io S = Some i \<and> i < length (io_threads S)
     \<and> io_threads S ! i \<in> {IoTest, IoRun} \<and> ms_state S = Started"

lemma hung_io:
  assumes "hung i S" and "ioc_stopped S" and "io_handler ready i S = Some S'"
  shows "hung i S'"
proof -
  have i: "i < length (io_threads S)" "io_threads S ! i = IoTest \<or> io_threads S ! i = IoRun"
    "ms_state S = Started"
    using assms(1) by (auto simp: hung_def)
  then have "S' = set_thread i IoRun S \<or> S' = set_thread i IoTest S"
    using assms(2,3) by (auto simp: io_handler_def)
  with assms(1) i show ?thesis by (auto simp: hung_def set_thread_def)
qed

lemma hung_start:
  assumes "ms_inv S" and "client S = StopWait" and "m_io S = Some i" and "io_threads S ! i = IoCalled"
    and "io_handler ready i S = Some S'"
  shows "hung i S'"
proof -
  have "i < length (io_threads S)" using assms(1,3) by (simp add: ms_inv_def)
  moreover have "S' = set_thread i IoTest (S\<lparr>ms_state := Started\<rparr>)"
    using assms(4,5) by (simp add: io_handler_def)
  ultimately show ?thesis using assms(2,3) by (simp add: hung_def set_thread_def)
qed

lemma hung_step:
  assumes "ms_step c cb registry S S'" and "hung i S" and "ms_inv S"
  shows "hung i S'"
  using assms(1)
proof cases
  case start
  with assms(2) show ?thesis by (auto simp: hung_def ms_doStart_def)
next
  case stop
  with assms(2) show ?thesis by (auto simp: hung_def ms_doStop_def)
next
  case (io j ready)
  have "io_threads S ! j = IoReturned" if "j \<noteq> i"
    using that assms(2,3) io(1) by (auto simp: hung_def ms_inv_def)
  then have "j = i" using io_handler_frame(4) [OF io(2)] by blast
  then show ?thesis using hung_io [OF assms(2)] io(2) assms(2,3) by (auto simp: hung_def ms_inv_def)
next
  case connect
  with assms(2) show ?thesis by (auto simp: hung_def)
next
  case environment
  with assms(2) show ?thesis by (auto simp: hung_def)
qed

interpretation hg: stable "ms_step c cb registry" "\<lambda>S. hung i S \<and> ms_inv S"
  by unfold_locales (auto intro: hung_step ms_inv_step)

subsection \<open>Properties\<close>


text \<open>A factory of TCP transports that counts, and one whose connections are refused.\<close>

definition demo_factory :: "(nat, nat option, url) transport_factory" where
  "demo_factory = \<lparr>createTransport_body = (\<lambda>u n. (Inr (Success (Some 4)), n)), tf_supports = tcp_supports\<rparr>"

definition tcp_url :: url where
  "tcp_url = url_default\<lparr>m_protocol := ''tcp'', m_hostname := ''host'', m_port := 9000\<rparr>"

lemma demo_connect:
  "ms_connect fake_transport session_callbacks_new (map Some [demo_factory]) tcp_url (session_manager_new, 0)
     = (Inr (Success \<lparr>session_m_id = 1, session_m_transport = 4\<rparr>), demo_sessions, 0)"
  using demo_sessions_created
  by (simp add: ms_connect_def getFactory_def demo_factory_def tcp_supports_def tcp_url_def url_protocol_def
      eff_catch_all_def eff_bind_def in_world_def createTransport_def eff_noexcept_def)


text \<open>
  A callback that throws after the session was stored: \<^verbatim>\<open>connect\<close> reports an internal
  error, and the session stays in the manager, with its transport started.
\<close>

definition rude_callbacks :: "(nat, nat) session_callbacks" where
  "rude_callbacks =
     session_callbacks_new\<lparr>onSessionOpened := Some (\<lambda>s n. (Inl (Thrown (mk_exn StdException [])), n))\<rparr>"

lemma failed_connect_keeps_session:
  "ms_connect fake_transport rude_callbacks (map Some [demo_factory]) tcp_url (session_manager_new, 0)
     = (Inr (Failure (make_error_code 0xFF)), demo_sessions, 0)"
proof -
  have "createSession fake_transport rude_callbacks (Some 4) (session_manager_new, 0)
      = (Inl (Thrown (mk_exn StdException [])), demo_sessions, 0)"
    using demo_sessions_created
    by (simp add: createSession_def factory_createSession_def session_generateId_def session_createNew_def
        setOwner_def fake_transport_def session_manager_new_def session_callbacks_new_def demo_sessions_def
        rude_callbacks_def call_if_set_def eff_bind_def eff_then_def in_world_def get_local_def set_local_def
        al_insert_def deref_def)
  then show ?thesis
    by (simp add: ms_connect_def getFactory_def demo_factory_def tcp_supports_def tcp_url_def url_protocol_def
        eff_catch_all_def eff_bind_def in_world_def createTransport_def eff_noexcept_def)
qed

subsection \<open>Runs\<close>

lemma terminateAll_empty: "terminateAll c cb (session_manager_new, w) = (Inr (), session_manager_new, w)"
  by (simp add: terminateAll_def session_manager_new_def eff_bind_def get_local_def)

text \<open>A start, and a stop that waits before the launched thread has run.\<close>

definition stopped_early :: "'w \<Rightarrow> ('w, 't) messaging_service" where
  "stopped_early w =
     \<lparr>ms_state = StopPending, ioc_stopped = True, m_io = Some 0, io_threads = [IoCalled], client = StopWait,
      stop_result = Inr (), m_session_manager = session_manager_new, ms_world = w\<rparr>"

text \<open>The same with the thread in the context when \<^verbatim>\<open>stop\<close> is called.\<close>

definition stopped_running :: "'w \<Rightarrow> ('w, 't) messaging_service" where
  "stopped_running w = (stopped_early w)\<lparr>io_threads := [IoRun]\<rparr>"

lemmas run_simps = messaging_service_new_def stopped_early_def stopped_running_def ms_doStart_def ms_doStop_def
  io_handler_def set_thread_def terminateAll_empty Let_def

lemma reaches_by:
  "ms_doStart S = Some S' \<Longrightarrow> ms_reaches c cb registry S' T \<Longrightarrow> ms_reaches c cb registry S T"
  "ms_doStop c cb S = Some S' \<Longrightarrow> ms_reaches c cb registry S' T \<Longrightarrow> ms_reaches c cb registry S T"
  "i < length (io_threads S) \<Longrightarrow> io_handler ready i S = Some S' \<Longrightarrow> ms_reaches c cb registry S' T
     \<Longrightarrow> ms_reaches c cb registry S T"
  by (meson converse_rtranclp_into_rtranclp ms_step.start ms_step.stop ms_step.io)+

lemma reaches_started:
  "ms_reaches c cb registry (messaging_service_new w)
     \<lparr>ms_state = StartPending, ioc_stopped = False, m_io = Some 0, io_threads = [IoCalled], client = ClientIdle,
      stop_result = Inr (), m_session_manager = session_manager_new, ms_world = w\<rparr>"
  by (rule reaches_by(1), simp add: run_simps, rule reaches_by(1), simp add: run_simps,
      rule reaches_by(1), simp add: run_simps, simp)

lemma stop_reaches:
  assumes "client S = ClientIdle" and "m_session_manager S = session_manager_new"
  shows "ms_reaches c cb registry S (S\<lparr>ms_state := StopPending, ioc_stopped := True, client := StopWait\<rparr>)"
  by (rule reaches_by(2), simp add: run_simps assms, rule reaches_by(2), simp add: run_simps assms,
      rule reaches_by(2), simp add: run_simps assms) (use assms in \<open>cases S; simp\<close>)

lemma reaches_running:
  "ms_reaches c cb registry (messaging_service_new w) (stopped_running w)"
proof -
  let ?S = "\<lparr>ms_state = StartPending, ioc_stopped = False, m_io = Some 0, io_threads = [IoCalled],
    client = ClientIdle, stop_result = Inr (), m_session_manager = session_manager_new, ms_world = w\<rparr>"
  let ?T = "?S\<lparr>ms_state := Started, io_threads := [IoRun]\<rparr>"
  have "ms_reaches c cb registry ?S ?T"
    by (rule reaches_by(3) [of 0 _ None], simp, simp add: run_simps,
        rule reaches_by(3) [of 0 _ None], simp, simp add: run_simps, simp)
  moreover have "ms_reaches c cb registry ?T (stopped_running w)"
    using stop_reaches [of ?T] by (simp add: run_simps)
  ultimately show ?thesis using reaches_started by (meson rtranclp_trans)
qed

lemma reaches_stopped_early: "ms_reaches c cb registry (messaging_service_new w) (stopped_early w)"
  using rtranclp_trans [OF reaches_started stop_reaches] by (simp add: run_simps)

text \<open>C30: Stopping ends: once the thread of the service is in its loop when \<^verbatim>\<open>stop\<close> waits and
  nothing overwrote \<^verbatim>\<open>StopPending\<close>, it returns within three steps whether or not handlers
  are ready, \<^verbatim>\<open>stop\<close> returns after that, and the service is stopped.
\<close>

theorem stop_completes:
  assumes "ms_reaches c cb registry (messaging_service_new w) S"
    and "client S = StopWait" and "m_io S = Some i"
    and "io_threads S ! i \<in> {IoTest, IoRun, IoLeave}" and "ms_state S = StopPending"
  shows "\<exists>n \<le> 3. \<exists>S1 S2. io_steps n i S = Some S1 \<and> io_threads S1 ! i = IoReturned
    \<and> ms_doStop c cb S1 = Some S2 \<and> client S2 = ClientIdle \<and> ms_state S2 = Stopped"
proof -
  have i: "i < length (io_threads S)" and stopped: "ioc_stopped S"
    using ms_reaches_inv [OF assms(1) ms_inv_new] assms(2,3) by (auto simp: ms_inv_def)
  let ?n = "if io_threads S ! i = IoRun then 3 else if io_threads S ! i = IoTest then 2 else 1 :: nat"
  let ?S1 = "set_thread i IoReturned (S\<lparr>ms_state := Stopped\<rparr>)"
  have "io_steps ?n i S = Some ?S1"
    using assms(4,5) i stopped
    by (auto simp: io_handler_def set_thread_def eval_nat_numeral)
  moreover have "ms_doStop c cb ?S1 = Some (?S1\<lparr>client := ClientIdle, stop_result := Inr ()\<rparr>)"
    using assms(2,3) i by (simp add: ms_doStop_def set_thread_def)
  ultimately show ?thesis
    using i by (intro exI [of _ ?n] conjI exI [of _ ?S1] exI) (auto simp: set_thread_def)
qed

theorem stop_completes_witness:
  "\<exists>n \<le> 3. \<exists>S1 S2. io_steps n 0 (stopped_running (0::nat)) = Some S1 \<and> io_threads S1 ! 0 = IoReturned
    \<and> ms_doStop fake_transport session_callbacks_new S1 = Some S2 \<and> client S2 = ClientIdle \<and> ms_state S2 = Stopped"
  by (rule stop_completes [OF reaches_running [where registry = "[]"]]) (simp_all add: run_simps)

text \<open>C40: A \<^verbatim>\<open>stop\<close> that is faster than the launched thread never returns: the thread then
  overwrites \<^verbatim>\<open>StopPending\<close> with \<^verbatim>\<open>Started\<close>, and in every state after that the caller still
  waits and the service is not stopped.
\<close>

theorem stop_can_hang:
  assumes "ms_reaches c cb registry (messaging_service_new w) S"
    and "client S = StopWait" and "m_io S = Some i" and "io_threads S ! i = IoCalled"
    and "io_handler ready i S = Some S1" and "ms_reaches c cb registry S1 S'"
  shows "client S' = StopWait \<and> ms_state S' = Started \<and> io_threads S' ! i \<noteq> IoReturned"
proof -
  have inv: "ms_inv S" by (rule ms_reaches_inv [OF assms(1) ms_inv_new])
  then have "hung i S1" by (rule hung_start [OF _ assms(2-5)])
  then have "hung i S' \<and> ms_inv S'" using hg.stays [OF assms(6)] ms_inv_io [OF inv assms(5)] by blast
  then show ?thesis by (auto simp: hung_def)
qed

theorem stop_can_hang_witness:
  "ms_reaches fake_transport session_callbacks_new [] (messaging_service_new (0::nat)) (stopped_early 0)
   \<and> (\<exists>S1. io_handler None 0 (stopped_early (0::nat)) = Some S1
        \<and> ms_reaches fake_transport session_callbacks_new [] (stopped_early 0) S1
        \<and> client S1 = StopWait \<and> ms_state S1 = Started)"
proof -
  let ?S = "stopped_early 0 :: (nat, nat) messaging_service"
  obtain S1 where S1: "io_handler None 0 ?S = Some S1" by (simp add: run_simps)
  have r: "ms_reaches fake_transport session_callbacks_new [] (messaging_service_new 0) ?S"
    by (rule reaches_stopped_early)
  have "client S1 = StopWait \<and> ms_state S1 = Started \<and> io_threads S1 ! 0 \<noteq> IoReturned"
    by (rule stop_can_hang [OF r _ _ _ S1 rtranclp.rtrancl_refl]) (simp_all add: run_simps)
  moreover have "ms_reaches fake_transport session_callbacks_new [] ?S S1"
    by (rule reaches_by(3) [OF _ S1 rtranclp.rtrancl_refl]) (simp add: run_simps)
  ultimately show ?thesis using r S1 by blast
qed

text \<open>
  The context of a service that was stopped is never restarted: it can be started again
  and says so, but no completion handler runs any more, whatever is ready.
\<close>

theorem restarted_service_is_dead:
  assumes "ioc_stopped S" and "ms_reaches c cb registry S S'" and "io_handler ready i S' = Some S''"
  shows "m_session_manager S'' = m_session_manager S' \<and> ms_world S'' = ms_world S' \<and> ioc_stopped S''"
  using io_handler_frame(3,7) [OF assms(3)] st.stays [OF assms(2,1)] by simp

text \<open>A service that was stopped and started again, with its new thread in the context.\<close>

definition restarted :: "'w \<Rightarrow> ('w, 't) messaging_service" where
  "restarted w =
     \<lparr>ms_state = Started, ioc_stopped = True, m_io = Some 1, io_threads = [IoReturned, IoRun], client = ClientIdle,
      stop_result = Inr (), m_session_manager = session_manager_new, ms_world = w\<rparr>"

lemma restart_reached:
  "ms_reaches c cb registry (stopped_running w) (restarted w)"
proof -
  have thread: "ms_reaches c cb registry (stopped_running w)
      ((stopped_running w)\<lparr>ms_state := Stopped, io_threads := [IoReturned]\<rparr>)"
    by (rule reaches_by(3) [of 0 _ None], simp add: run_simps, simp add: run_simps,
        rule reaches_by(3) [of 0 _ None], simp, simp add: run_simps,
        rule reaches_by(3) [of 0 _ None], simp, simp add: run_simps) (simp add: run_simps)
  have start: "ms_reaches c cb registry ((stopped_running w)\<lparr>ms_state := Stopped, io_threads := [IoReturned]\<rparr>)
      ((restarted w)\<lparr>ms_state := StartPending, io_threads := [IoReturned, IoCalled]\<rparr>)"
    by (rule reaches_by(2), simp add: run_simps, rule reaches_by(1), simp add: run_simps,
        rule reaches_by(1), simp add: run_simps, rule reaches_by(1), simp add: run_simps)
      (simp add: restarted_def)
  have "ms_reaches c cb registry ((restarted w)\<lparr>ms_state := StartPending, io_threads := [IoReturned, IoCalled]\<rparr>)
      (restarted w)"
    by (rule reaches_by(3) [of 1 _ None], simp, simp add: run_simps,
        rule reaches_by(3) [of 1 _ None], simp, simp add: run_simps) (simp add: restarted_def)
  then show ?thesis using thread start by (meson rtranclp_trans)
qed

text \<open>A handler that is ready and would count.\<close>

definition counting_handler :: "(nat session_manager \<times> nat, unit) eff option" where
  "counting_handler = Some (\<lambda>(sm, n). (Inr (), sm, n + 1))"

theorem restarted_service_is_dead_witness:
  "ms_reaches fake_transport session_callbacks_new [] (messaging_service_new 0) (restarted (0::nat))
   \<and> ms_state (restarted (0::nat)) = Started
   \<and> (\<exists>S. io_handler counting_handler 1 (restarted 0) = Some S \<and> ms_world S = 0)"
proof -
  have first: "ms_reaches fake_transport session_callbacks_new [] (messaging_service_new 0) (stopped_running (0::nat))"
    and again: "ms_reaches fake_transport session_callbacks_new [] (stopped_running (0::nat)) (restarted 0)"
    by (rule reaches_running, rule restart_reached)
  have stopped: "ioc_stopped (stopped_running (0::nat) :: (nat, nat) messaging_service)" by (simp add: run_simps)
  obtain S where S: "io_handler counting_handler 1 (restarted (0::nat)) = Some S"
    by (simp add: run_simps restarted_def)
  have "ms_world S = 0"
    using restarted_service_is_dead [OF stopped again S] by (simp add: restarted_def)
  then show ?thesis using S rtranclp_trans [OF first again] by (simp add: restarted_def)
qed

end
