(* ===== verification/Listenable.thy ===== *)
theory Listenable
  imports Effects
begin

text \<open>
  \<^verbatim>\<open>base/listenable.hpp\<close>: a vector of shared pointers to listeners.  A pointer is the
  address of its object, or null.  Operations run on the object and the state \<open>'w\<close> of
  the rest of the program, which holds the listeners themselves and the arguments of
  an invocation: a listener's function can change both, also the vector that
  \<^verbatim>\<open>invoke\<close> iterates over.
\<close>

subsection \<open>State\<close>

type_synonym listener_ptr = "nat option"

text \<open>
  \<open>vector_version\<close> counts the changes that invalidate the vector's end iterator;
  \<^verbatim>\<open>push_back\<close>, \<^verbatim>\<open>erase\<close> of at least one element and \<^verbatim>\<open>clear\<close> do.
\<close>

record listenable =
  m_listeners :: "listener_ptr list"
  vector_version :: nat

definition listenable_new :: listenable where
  "listenable_new = \<lparr>m_listeners = [], vector_version = 0\<rparr>"

definition push_listener :: "listener_ptr \<Rightarrow> listenable \<Rightarrow> listenable" where
  "push_listener p L = L\<lparr>m_listeners := m_listeners L @ [p], vector_version := vector_version L + 1\<rparr>"

subsection \<open>Operations\<close>

definition hasListeners :: "listenable \<Rightarrow> bool" where
  "hasListeners L \<longleftrightarrow> m_listeners L \<noteq> []"

definition hasListener :: "listener_ptr \<Rightarrow> listenable \<Rightarrow> bool" where
  "hasListener listener L \<longleftrightarrow> list_ex (\<lambda>added_listener. added_listener = listener) (m_listeners L)"

definition null_listener :: exn where
  "null_listener = mk_exn InvalidArgumentException ''Listener is null''"

definition addListener :: "listener_ptr \<Rightarrow> (listenable \<times> 'w, unit) eff" where
  "addListener listener =
     (if listener = None then eff_throw null_listener else set_local (push_listener listener))"

definition addListener_mutate ::
  "listener_ptr \<Rightarrow> (nat \<Rightarrow> (listenable \<times> 'w, unit) eff) \<Rightarrow> (listenable \<times> 'w, unit) eff" where
  "addListener_mutate listener mutate =
     (case listener of
        None \<Rightarrow> eff_throw null_listener
      | Some a \<Rightarrow> eff_then (mutate a) (set_local (push_listener listener)))"

text \<open>\<open>make\<close> is \<^verbatim>\<open>std::make_shared<ConcreteListener>(args...)\<close>.\<close>

definition addListener_make :: "('w, nat) eff \<Rightarrow> (listenable \<times> 'w, listener_ptr) eff" where
  "addListener_make make_shared =
     eff_bind (in_world make_shared) (\<lambda>a.
       eff_then (set_local (push_listener (Some a))) (eff_return (Some a)))"

definition addListener_make_mutate ::
  "('w, nat) eff \<Rightarrow> (nat \<Rightarrow> (listenable \<times> 'w, unit) eff) \<Rightarrow> (listenable \<times> 'w, listener_ptr) eff" where
  "addListener_make_mutate make_shared mutate =
     eff_bind (in_world make_shared) (\<lambda>a.
       eff_then (mutate a) (eff_then (set_local (push_listener (Some a))) (eff_return (Some a))))"

text \<open>\<^verbatim>\<open>(*listener.*action)(args...)\<close> inside \<^verbatim>\<open>try { } catch (...) { }\<close>\<close>

definition call_listener ::
  "(nat \<Rightarrow> (listenable \<times> 'w, unit) eff) \<Rightarrow> listener_ptr \<Rightarrow> (listenable \<times> 'w, unit) eff" where
  "call_listener action listener =
     (case listener of
        None \<Rightarrow> eff_fail (Fault NullDereference)
      | Some a \<Rightarrow> eff_catch_all (action a) (eff_return ()))"

text \<open>
  The range-based loop: its end iterator was taken when the vector had version
  \<open>v\<close>, \<open>k\<close> elements are left and the next has index \<open>i\<close>.  To compare with an
  invalidated iterator is undefined.
\<close>

primrec invoke_loop ::
  "(nat \<Rightarrow> (listenable \<times> 'w, unit) eff) \<Rightarrow> nat \<Rightarrow> nat \<Rightarrow> nat \<Rightarrow> (listenable \<times> 'w, unit) eff" where
  "invoke_loop action v 0 i =
     eff_bind get_local (\<lambda>L. if vector_version L = v then eff_return () else eff_fail (Fault DanglingReference))"
| "invoke_loop action v (Suc k) i =
     eff_bind get_local (\<lambda>L.
       if vector_version L = v
       then eff_then (call_listener action (m_listeners L ! i)) (invoke_loop action v k (Suc i))
       else eff_fail (Fault DanglingReference))"

definition invoke :: "(nat \<Rightarrow> (listenable \<times> 'w, unit) eff) \<Rightarrow> (listenable \<times> 'w, unit) eff" where
  "invoke action =
     eff_bind get_local (\<lambda>L.
       if hasListeners L then invoke_loop action (vector_version L) (length (m_listeners L)) 0 else eff_return ())"

definition invokeOnce :: "(nat \<Rightarrow> (listenable \<times> 'w, unit) eff) \<Rightarrow> (listenable \<times> 'w, unit) eff" where
  "invokeOnce action =
     eff_bind get_local (\<lambda>L.
       if hasListeners L then call_listener action (hd (m_listeners L)) else eff_return ())"

definition removeListener :: "listener_ptr \<Rightarrow> (listenable \<times> 'w, bool) eff" where
  "removeListener listener =
     eff_bind get_local (\<lambda>L.
       let prev_size = length (m_listeners L);
           kept = filter (\<lambda>added_listener. added_listener \<noteq> listener) (m_listeners L);
           version = (if length kept < prev_size then vector_version L + 1 else vector_version L)
       in eff_then (set_local (\<lambda>L. L\<lparr>m_listeners := kept, vector_version := version\<rparr>))
            (eff_return (length kept < prev_size)))"

definition removeListeners :: "(listenable \<times> 'w, unit) eff" where
  "removeListeners = set_local (\<lambda>L. L\<lparr>m_listeners := [], vector_version := vector_version L + 1\<rparr>)"

definition listenable_add :: "listener_ptr \<Rightarrow> (listenable \<times> 'w, unit) eff" where
  "listenable_add listener = addListener listener"

definition listenable_subtract :: "listener_ptr \<Rightarrow> (listenable \<times> 'w, bool) eff" where
  "listenable_subtract listener = removeListener listener"

subsection \<open>Lemmas\<close>

text \<open>No listener in the vector is null.\<close>

definition listeners_ok :: "listenable \<Rightarrow> bool" where
  "listeners_ok L \<longleftrightarrow> None \<notin> set (m_listeners L)"

lemma listeners_ok_new: "listeners_ok listenable_new"
  by (simp add: listeners_ok_def listenable_new_def)

text \<open>A function that leaves the vector alone and does not leave defined behaviour.\<close>

definition calm :: "(nat \<Rightarrow> (listenable \<times> 'w, unit) eff) \<Rightarrow> bool" where
  "calm action \<longleftrightarrow>
     (\<forall>a L w. fst (snd (action a (L, w))) = L \<and> (\<forall>f. fst (action a (L, w)) \<noteq> Inl (Fault f)))"

text \<open>What the rest of the program looks like after a call.\<close>

definition after_call :: "(nat \<Rightarrow> (listenable \<times> 'w, unit) eff) \<Rightarrow> listenable \<Rightarrow> listener_ptr \<Rightarrow> 'w \<Rightarrow> 'w" where
  "after_call action L listener w = (case listener of None \<Rightarrow> w | Some a \<Rightarrow> snd (snd (action a (L, w))))"

lemma call_listener_calm:
  assumes "calm action" and "listener \<noteq> None"
  shows "call_listener action listener (L, w) = (Inr (), L, after_call action L listener w)"
proof -
  obtain a where a: "listener = Some a" using assms(2) by blast
  obtain r L' w' where r: "action a (L, w) = (r, L', w')" by (rule prod_cases3)
  have "L' = L" "\<And>f. r \<noteq> Inl (Fault f)" using assms(1) r unfolding calm_def by (metis fst_conv snd_conv)+
  with a r show ?thesis
    by (auto simp: call_listener_def eff_catch_all_def after_call_def split: sum.split failure.split)
qed

lemma invoke_loop_calm:
  assumes "calm action" and "listeners_ok L" and "i + k = length (m_listeners L)"
  shows "invoke_loop action (vector_version L) k i (L, w)
    = (Inr (), L, fold (after_call action L) (drop i (m_listeners L)) w)"
  using assms(3)
proof (induction k arbitrary: i w)
  case 0
  then show ?case by (simp add: eff_bind_def get_local_def)
next
  case (Suc k)
  then have i: "i < length (m_listeners L)" by simp
  then have "m_listeners L ! i \<noteq> None"
    using assms(2) nth_mem [OF i] by (metis listeners_ok_def)
  then show ?case
    using Suc Cons_nth_drop_Suc [OF i, symmetric]
    by (simp add: eff_bind_def eff_then_def get_local_def call_listener_calm [OF assms(1)] del: not_None_eq)
qed

lemma calm_invoke:
  assumes "calm action" and "listeners_ok L"
  shows "invoke action (L, w) = (Inr (), L, fold (after_call action L) (m_listeners L) w)"
  using invoke_loop_calm [OF assms, of 0] by (cases "m_listeners L") (simp_all add: invoke_def hasListeners_def eff_bind_def get_local_def)

text \<open>
  The states the operations reach, with mutators and constructors that do not touch
  the list of listeners.
\<close>

definition calm_mutator :: "(nat \<Rightarrow> (listenable \<times> 'w, unit) eff) \<Rightarrow> bool" where
  "calm_mutator mutate \<longleftrightarrow> (\<forall>a L w. fst (snd (mutate a (L, w))) = L)"

inductive listenable_reachable :: "listenable \<Rightarrow> 'w \<Rightarrow> bool" where
  start: "listenable_reachable listenable_new w"
| environment: "listenable_reachable L w \<Longrightarrow> listenable_reachable L w'"
| add: "listenable_reachable L w \<Longrightarrow> addListener p (L, w) = (r, L', w') \<Longrightarrow> listenable_reachable L' w'"
| add_mutate: "listenable_reachable L w \<Longrightarrow> calm_mutator mutate
    \<Longrightarrow> addListener_mutate p mutate (L, w) = (r, L', w') \<Longrightarrow> listenable_reachable L' w'"
| make: "listenable_reachable L w \<Longrightarrow> addListener_make make_shared (L, w) = (r', L', w')
    \<Longrightarrow> listenable_reachable L' w'"
| make_mutate: "listenable_reachable L w \<Longrightarrow> calm_mutator mutate
    \<Longrightarrow> addListener_make_mutate make_shared mutate (L, w) = (r', L', w') \<Longrightarrow> listenable_reachable L' w'"
| remove: "listenable_reachable L w \<Longrightarrow> removeListener p (L, w) = (b, L', w') \<Longrightarrow> listenable_reachable L' w'"
| remove_all: "listenable_reachable L w \<Longrightarrow> removeListeners (L, w) = (r, L', w') \<Longrightarrow> listenable_reachable L' w'"

lemma listeners_ok_push: "p \<noteq> None \<Longrightarrow> listeners_ok (push_listener p L) = listeners_ok L"
  by (auto simp: listeners_ok_def push_listener_def)

lemma calm_mutatorD: "calm_mutator mutate \<Longrightarrow> mutate a (L, w) = (r, L', w') \<Longrightarrow> L' = L"
  by (metis calm_mutator_def fst_conv snd_conv)

lemma push_after_mutate:
  assumes "calm_mutator mutate" and "eff_then (mutate a) k (L, w) = (r, L', w')"
    and "\<And>L w. fst (snd (k (L, w))) = push_listener p L"
  shows "L' = L \<or> L' = push_listener p L"
proof -
  obtain r1 L1 w1 where m: "mutate a (L, w) = (r1, L1, w1)" by (rule prod_cases3)
  then have "L1 = L" by (rule calm_mutatorD [OF assms(1)])
  with m assms(2) assms(3) [of L w1] show ?thesis
    by (cases r1) (auto simp: eff_then_def eff_bind_def)
qed

lemma reachable_listeners_ok: "listenable_reachable L w \<Longrightarrow> listeners_ok L"
proof (induction rule: listenable_reachable.induct)
  case (add L w p r L' w')
  then show ?case
    by (auto simp: addListener_def set_local_def listeners_ok_push split: if_splits)
next
  case (add_mutate L w mutate p r L' w')
  show ?case
  proof (cases p)
    case None
    with add_mutate show ?thesis by (simp add: addListener_mutate_def)
  next
    case (Some a)
    then have "eff_then (mutate a) (set_local (push_listener p)) (L, w) = (r, L', w')"
      using add_mutate(3) by (simp add: addListener_mutate_def)
    then have "L' = L \<or> L' = push_listener p L"
      by (rule push_after_mutate [OF add_mutate(2)]) simp
    with add_mutate(4) Some show ?thesis by (auto simp: listeners_ok_push)
  qed
next
  case (make L w make_shared r' L' w')
  then show ?case
    by (auto simp: addListener_make_def eff_then_def eff_bind_def set_local_def in_world_def listeners_ok_push
        split: prod.splits sum.splits)
next
  case (make_mutate L w mutate make_shared r' L' w')
  obtain r1 w1 where m: "make_shared w = (r1, w1)" by (rule prod.exhaust)
  show ?case
  proof (cases r1)
    case (Inl e)
    with m make_mutate show ?thesis by (simp add: addListener_make_mutate_def eff_bind_def in_world_def)
  next
    case (Inr a)
    then have "eff_then (mutate a) (eff_then (set_local (push_listener (Some a))) (eff_return (Some a))) (L, w1)
        = (r', L', w')"
      using m make_mutate(3) by (simp add: addListener_make_mutate_def eff_bind_def in_world_def)
    then have "L' = L \<or> L' = push_listener (Some a) L"
      by (rule push_after_mutate [OF make_mutate(2)]) simp
    with make_mutate(4) show ?thesis by (auto simp: listeners_ok_push)
  qed
next
  case (remove L w p b L' w')
  then show ?case
    by (auto simp: removeListener_def eff_then_def eff_bind_def get_local_def set_local_def Let_def listeners_ok_def)
next
  case (remove_all L w r L' w')
  then show ?case by (auto simp: removeListeners_def set_local_def listeners_ok_def)
qed (simp_all add: listeners_ok_new)

subsection \<open>Properties\<close>

text \<open>\<^verbatim>\<open>invoke\<close> calls every listener that was added and not removed, once for each time it
  was added, in the order of their addition; the exceptions of some do not keep the others
  from being called nor reach the caller.
\<close>

theorem invoke_reaches_every_listener:
  assumes "listenable_reachable L w" and "calm action"
  shows "invoke action (L, w) = (Inr (), L, fold (after_call action L) (m_listeners L) w)
    \<and> (\<forall>p \<in> set (m_listeners L). p \<noteq> None \<and> hasListener p L)"
proof -
  note ok = reachable_listeners_ok [OF assms(1)]
  have "\<forall>p \<in> set (m_listeners L). p \<noteq> None" using ok unfolding listeners_ok_def by metis
  then show ?thesis using calm_invoke [OF assms(2) ok] by (simp add: hasListener_def list_ex_iff)
qed

text \<open>Two listeners that log their addresses, the first of which throws.\<close>

definition log_action :: "nat \<Rightarrow> (listenable \<times> nat list, unit) eff" where
  "log_action a = (\<lambda>(L, w). (if a = 1 then Inl (Thrown (mk_exn StdException [])) else Inr (), L, w @ [a]))"

definition two_listeners :: listenable where
  "two_listeners = push_listener (Some 2) (push_listener (Some 1) listenable_new)"

lemma two_listeners_reachable: "listenable_reachable two_listeners w"
proof -
  have "addListener (Some 1) (listenable_new, w) = (Inr (), push_listener (Some 1) listenable_new, w)"
    by (simp add: addListener_def)
  then have one: "listenable_reachable (push_listener (Some 1) listenable_new) w"
    by (rule listenable_reachable.add [OF listenable_reachable.start])
  have "addListener (Some 2) (push_listener (Some 1) listenable_new, w) = (Inr (), two_listeners, w)"
    by (simp add: addListener_def two_listeners_def)
  then show ?thesis by (rule listenable_reachable.add [OF one])
qed

theorem invoke_reaches_every_listener_witness:
  "invoke log_action (two_listeners, []) = (Inr (), two_listeners, [1, 2])"
proof -
  have "calm log_action" by (auto simp: calm_def log_action_def)
  then have "invoke log_action (two_listeners, [])
      = (Inr (), two_listeners, fold (after_call log_action two_listeners) (m_listeners two_listeners) [])"
    by (rule conjunct1 [OF invoke_reaches_every_listener [OF two_listeners_reachable [of "[]"]]])
  then show ?thesis
    by (simp add: two_listeners_def push_listener_def listenable_new_def after_call_def log_action_def)
qed

text \<open>
  \<^verbatim>\<open>removeListener\<close> removes every occurrence of the listener, says whether there was one,
  and keeps the others in their order.
\<close>

theorem remove_listener_effect:
  "\<exists>L'. removeListener p (L, w) = (Inr (hasListener p L), L', w)
     \<and> \<not> hasListener p L' \<and> m_listeners L' = filter (\<lambda>q. q \<noteq> p) (m_listeners L)"
proof -
  have "hasListener p L \<longleftrightarrow> length (filter (\<lambda>q. q \<noteq> p) (m_listeners L)) < length (m_listeners L)"
  proof (cases "p \<in> set (m_listeners L)")
    case True
    then show ?thesis
      using length_filter_less [OF True, of "\<lambda>q. q \<noteq> p"] by (auto simp: hasListener_def list_ex_iff)
  next
    case False
    then have "filter (\<lambda>q. q \<noteq> p) (m_listeners L) = m_listeners L" by (auto simp: filter_id_conv)
    with False show ?thesis by (auto simp: hasListener_def list_ex_iff)
  qed
  then show ?thesis
    by (auto simp: removeListener_def eff_bind_def eff_then_def get_local_def set_local_def Let_def
        hasListener_def list_ex_iff)
qed

text \<open>
  A listener that adds or removes listeners while it is invoked leaves the loop with
  invalid iterators: whatever follows, the invocation ends in undefined behaviour.
\<close>

theorem changing_listeners_while_invoked:
  assumes "m_listeners L = Some a # ps" and "action a (L, w) = (r, L', w')"
    and "\<And>f. r \<noteq> Inl (Fault f)" and "vector_version L' \<noteq> vector_version L"
  shows "fst (invoke action (L, w)) = Inl (Fault DanglingReference)"
proof -
  have "call_listener action (Some a) (L, w) = (Inr (), L', w')"
    using assms(2,3) by (auto simp: call_listener_def eff_catch_all_def split: sum.split failure.split)
  moreover have "fst (invoke_loop action (vector_version L) k i (L', w')) = Inl (Fault DanglingReference)" for k i
    using assms(4) by (cases k) (simp_all add: eff_bind_def get_local_def)
  ultimately show ?thesis
    using assms(1) by (simp add: invoke_def hasListeners_def eff_bind_def eff_then_def get_local_def)
qed

theorem changing_listeners_while_invoked_witness:
  "fst (invoke (\<lambda>a. addListener (Some 7)) (two_listeners, [] :: nat list)) = Inl (Fault DanglingReference)"
  by (rule changing_listeners_while_invoked [of _ 1 "[Some 2]" _ _ "Inr ()" "push_listener (Some 7) two_listeners" "[]"])
    (simp_all add: two_listeners_def push_listener_def listenable_new_def addListener_def)

text \<open>
  The arguments are forwarded to every listener: a listener that takes its argument
  by value empties an argument passed as an rvalue, and the next one gets what is left.
\<close>

definition by_value_action :: "nat \<Rightarrow> (listenable \<times> (string \<times> string list), unit) eff" where
  "by_value_action a = (\<lambda>(L, arg, received). (Inr (), L, [], received @ [arg]))"

lemma second_listener_gets_moved_argument:
  "invoke by_value_action (two_listeners, ''text'', []) = (Inr (), two_listeners, [], [''text'', []])"
  by (simp add: invoke_def hasListeners_def two_listeners_def push_listener_def listenable_new_def
      call_listener_def eff_catch_all_def by_value_action_def eff_bind_def eff_then_def get_local_def)

end
