(* ===== verification/Utilities.thy ===== *)
theory Utilities
  imports Effects
begin

text \<open>
  \<^verbatim>\<open>utility/\<close>: deferred calls and the joiner of threads built on them, properties and
  sets of them, and the helpers for strings and streams.
\<close>

subsection \<open>DeferredCall\<close>

type_synonym 'w wrapped_call = "('w, unit) eff"

record 'w deferred_call =
  m_call :: "'w wrapped_call option"

definition deferred_call_new :: "'w wrapped_call \<Rightarrow> 'w deferred_call" where
  "deferred_call_new call = \<lparr>m_call = Some call\<rparr>"

definition deferred_call_default :: "'w deferred_call" where
  "deferred_call_default = \<lparr>m_call = None\<rparr>"

text \<open>\<^verbatim>\<open>= default\<close>: the members are moved, which empties the source.\<close>

definition deferred_move :: "'w deferred_call \<Rightarrow> 'w deferred_call \<times> 'w deferred_call" where
  "deferred_move other = (other, deferred_call_default)"

definition deferred_move_assign ::
  "'w deferred_call \<Rightarrow> 'w deferred_call \<Rightarrow> 'w deferred_call \<times> 'w deferred_call" where
  "deferred_move_assign self other = (other, deferred_call_default)"

definition deferred_destroy :: "'w deferred_call \<Rightarrow> ('w, unit) eff" where
  "deferred_destroy d =
     eff_noexcept
       (eff_catch_all (case m_call d of None \<Rightarrow> eff_return () | Some call \<Rightarrow> call) (eff_return ()))"

text \<open>\<^verbatim>\<open>std::bind(fn, args...)\<close>; for a member function the first argument is the object.\<close>

definition defer_call :: "('a \<Rightarrow> ('w, 'r) eff) \<Rightarrow> 'a \<Rightarrow> 'w deferred_call" where
  "defer_call fn args = deferred_call_new (eff_bind (fn args) (\<lambda>r. eff_return ()))"

definition defer_member :: "('c \<Rightarrow> 'a \<Rightarrow> ('w, 'r) eff) \<Rightarrow> 'c \<Rightarrow> 'a \<Rightarrow> 'w deferred_call" where
  "defer_member fn obj args = deferred_call_new (eff_bind (fn obj args) (\<lambda>r. eff_return ()))"

lemma deferred_destroy_no_throw: "fst (deferred_destroy d w) \<noteq> Inl (Thrown e)"
  by (auto simp: deferred_destroy_def eff_noexcept_def split: prod.split sum.split failure.split)

subsection \<open>ThreadJoiner\<close>

text \<open>
  A thread object, in the vector the joiner holds a reference to.  \<^verbatim>\<open>join\<close> waits for
  the thread and leaves the object not joinable; \<^verbatim>\<open>detach\<close> of an object that is not
  joinable throws \<^verbatim>\<open>std::system_error\<close>.
\<close>

datatype thread_object = Joinable | NotJoinable

definition no_such_thread :: exn where
  "no_such_thread = mk_exn StdSystemError ''Invalid argument''"

definition thread_join :: "nat \<Rightarrow> (thread_object list, unit) eff" where
  "thread_join i ts =
     (if ts ! i = Joinable then (Inr (), ts[i := NotJoinable]) else (Inl (Thrown no_such_thread), ts))"

definition thread_detach :: "nat \<Rightarrow> (thread_object list, unit) eff" where
  "thread_detach i ts =
     (if ts ! i = Joinable then (Inr (), ts[i := NotJoinable]) else (Inl (Thrown no_such_thread), ts))"

definition joiner_join :: "nat \<Rightarrow> (thread_object list, unit) eff" where
  "joiner_join i ts = (if ts ! i = Joinable then thread_join i ts else thread_detach i ts)"

definition joiner_join_container :: "(thread_object list, unit) eff" where
  "joiner_join_container ts = eff_for [0..<length ts] joiner_join ts"

definition thread_joiner :: "nat \<Rightarrow> thread_object list deferred_call" where
  "thread_joiner i = defer_call joiner_join i"

definition container_joiner :: "thread_object list deferred_call" where
  "container_joiner = defer_call (\<lambda>_. joiner_join_container) ()"

lemma join_all_from:
  "eff_for [length us..<length us + length ts] joiner_join (us @ ts)
     = (if list_all (\<lambda>t. t = Joinable) ts then Inr () else Inl (Thrown no_such_thread),
        us @ map (\<lambda>t. NotJoinable) (takeWhile (\<lambda>t. t = Joinable) ts) @ dropWhile (\<lambda>t. t = Joinable) ts)"
proof (induction ts arbitrary: us)
  case (Cons t ts)
  have upt: "[length us..<length us + length (t # ts)]
      = length us # [length (us @ [NotJoinable])..<length (us @ [NotJoinable]) + length ts]"
    using upt_conv_Cons [of "length us" "length us + length (t # ts)"] by (simp del: upt_Suc)
  show ?case
  proof (cases "t = Joinable")
    case True
    then have "joiner_join (length us) (us @ t # ts) = (Inr (), (us @ [NotJoinable]) @ ts)"
      by (simp add: joiner_join_def thread_join_def)
    then have "eff_for [length us..<length us + length (t # ts)] joiner_join (us @ t # ts)
      = eff_for [length (us @ [NotJoinable])..<length (us @ [NotJoinable]) + length ts] joiner_join
          ((us @ [NotJoinable]) @ ts)"
      unfolding upt eff_for.simps by (rule eff_then_cases(2))
    with True show ?thesis unfolding Cons.IH by simp
  next
    case False
    then have "joiner_join (length us) (us @ t # ts) = (Inl (Thrown no_such_thread), us @ t # ts)"
      by (simp add: joiner_join_def thread_detach_def)
    then have "eff_for [length us..<length us + length (t # ts)] joiner_join (us @ t # ts)
      = (Inl (Thrown no_such_thread), us @ t # ts)"
      unfolding upt eff_for.simps by (rule eff_then_cases(1))
    with False show ?thesis by simp
  qed
qed simp

text \<open>A joiner of threads joins them only up to the first object that is not joinable; the
  exception of \<^verbatim>\<open>detach\<close> ends the loop and is swallowed, and the threads behind it are
  left running.
\<close>

theorem joiner_joins_a_prefix:
  "deferred_destroy container_joiner ts
     = (Inr (), map (\<lambda>t. NotJoinable) (takeWhile (\<lambda>t. t = Joinable) ts) @ dropWhile (\<lambda>t. t = Joinable) ts)"
  using join_all_from [of "[]" ts]
  by (simp add: deferred_destroy_def container_joiner_def defer_call_def deferred_call_new_def eff_noexcept_def
      eff_catch_all_def eff_bind_def joiner_join_container_def)

subsection \<open>Property and PropertySet\<close>

text \<open>
  \<^verbatim>\<open>std::any\<close>: a value or none.  \<open>ty\<close> gives the type of a value, as \<^verbatim>\<open>typeid\<close> does.
\<close>

record 'v property =
  m_value :: "'v option"

definition property_default :: "'v property" where
  "property_default = \<lparr>m_value = None\<rparr>"

definition property_assign :: "'v \<Rightarrow> 'v property \<Rightarrow> 'v property" where
  "property_assign value p = p\<lparr>m_value := Some value\<rparr>"

definition any_has_type :: "('v \<Rightarrow> 't) \<Rightarrow> 't \<Rightarrow> 'v property \<Rightarrow> bool" where
  "any_has_type ty T p = (case m_value p of None \<Rightarrow> False | Some v \<Rightarrow> ty v = T)"

definition property_as :: "('v \<Rightarrow> 't) \<Rightarrow> 't \<Rightarrow> 'v property \<Rightarrow> 'v outcome" where
  "property_as ty T p =
     (case m_value p of
        None \<Rightarrow> Inl (Thrown (mk_exn StdBadAnyCast ''bad any_cast''))
      | Some v \<Rightarrow> if ty v = T then Inr v else Inl (Thrown (mk_exn StdBadAnyCast ''bad any_cast'')))"

definition property_safe_as :: "('v \<Rightarrow> 't) \<Rightarrow> 't \<Rightarrow> 'v property \<Rightarrow> 'v option outcome" where
  "property_safe_as ty T p =
     (if any_has_type ty T p then bind_outcome (property_as ty T p) (\<lambda>v. Inr (Some v)) else Inr None)"

definition property_safe_as_or :: "('v \<Rightarrow> 't) \<Rightarrow> 't \<Rightarrow> 'v \<Rightarrow> 'v property \<Rightarrow> 'v outcome" where
  "property_safe_as_or ty T default_value p =
     (if any_has_type ty T p then property_as ty T p else Inr default_value)"

definition valueless :: "'v property \<Rightarrow> bool" where
  "valueless p \<longleftrightarrow> m_value p = None"

definition property_equal :: "('v \<Rightarrow> 't) \<Rightarrow> ('v \<Rightarrow> 'v \<Rightarrow> bool) \<Rightarrow> 'v property \<Rightarrow> 'v \<Rightarrow> bool outcome" where
  "property_equal ty eq lhs rhs =
     (if any_has_type ty (ty rhs) lhs
      then bind_outcome (property_as ty (ty rhs) lhs) (\<lambda>v. Inr (eq v rhs)) else Inr False)"

record ('k, 'v) property_set =
  m_properties :: "'k \<rightharpoonup> 'v property"

definition property_set_new :: "('k, 'v) property_set" where
  "property_set_new = \<lparr>m_properties = Map.empty\<rparr>"

text \<open>\<^verbatim>\<open>operator[]\<close> inserts an empty property under a new key; what it returns is a reference to it.\<close>

definition property_at :: "'k \<Rightarrow> ('k, 'v) property_set \<Rightarrow> 'v property \<times> ('k, 'v) property_set" where
  "property_at key s =
     (case m_properties s key of
        Some p \<Rightarrow> (p, s)
      | None \<Rightarrow> (property_default, s\<lparr>m_properties := (m_properties s)(key \<mapsto> property_default)\<rparr>))"

text \<open>\<^verbatim>\<open>set[key] = value\<close>\<close>

definition property_put :: "'k \<Rightarrow> 'v \<Rightarrow> ('k, 'v) property_set \<Rightarrow> ('k, 'v) property_set" where
  "property_put key value s =
     (let (p, s') = property_at key s
      in s'\<lparr>m_properties := (m_properties s')(key \<mapsto> property_assign value p)\<rparr>)"

definition properties_contains :: "'k \<Rightarrow> ('k, 'v) property_set \<Rightarrow> bool" where
  "properties_contains key s \<longleftrightarrow> m_properties s key \<noteq> None"

definition properties_remove :: "'k \<Rightarrow> ('k, 'v) property_set \<Rightarrow> bool \<times> ('k, 'v) property_set" where
  "properties_remove key s =
     (m_properties s key \<noteq> None, s\<lparr>m_properties := (m_properties s)(key := None)\<rparr>)"

definition properties_removeAll :: "('k, 'v) property_set \<Rightarrow> ('k, 'v) property_set" where
  "properties_removeAll s = s\<lparr>m_properties := Map.empty\<rparr>"

lemma property_put_then_as:
  "property_as ty T (fst (property_at key (property_put key value s)))
     = (if ty value = T then Inr value else Inl (Thrown (mk_exn StdBadAnyCast ''bad any_cast'')))"
  by (simp add: property_put_def property_at_def property_assign_def property_as_def property_default_def
      split: option.split)

lemma property_put_other:
  "k \<noteq> key \<Longrightarrow> m_properties (property_put key value s) k = m_properties s k"
  by (simp add: property_put_def property_at_def split: option.split)

lemma safe_as_never_throws:
  "property_safe_as ty T p = Inr (if any_has_type ty T p then m_value p else None)"
  "property_safe_as_or ty T d p = Inr (case m_value p of Some v \<Rightarrow> if ty v = T then v else d | None \<Rightarrow> d)"
  "property_equal ty eq p v = Inr (case m_value p of Some u \<Rightarrow> ty u = ty v \<and> eq u v | None \<Rightarrow> False)"
  by (auto simp: property_safe_as_def property_safe_as_or_def property_equal_def property_as_def any_has_type_def
      split: option.split)

lemma property_read_inserts:
  "properties_contains key (snd (property_at key s))"
  "valueless (fst (property_at key property_set_new))"
  by (simp_all add: properties_contains_def property_at_def property_set_new_def valueless_def
      property_default_def split: option.split)

lemma properties_remove_effect:
  "fst (properties_remove key s) = properties_contains key s"
  "\<not> properties_contains key (snd (properties_remove key s))"
  "\<not> properties_contains key (properties_removeAll s)"
  by (simp_all add: properties_remove_def properties_contains_def properties_removeAll_def)

subsection \<open>Strings\<close>

primrec join_rest :: "string \<Rightarrow> string list \<Rightarrow> string" where
  "join_rest separator [] = []"
| "join_rest separator (s # strings) = separator @ s @ join_rest separator strings"

definition join_strings :: "string \<Rightarrow> string list \<Rightarrow> string" where
  "join_strings separator strings = (case strings of [] \<Rightarrow> [] | s # ss \<Rightarrow> s @ join_rest separator ss)"

text \<open>\<^verbatim>\<open>std::tolower\<close> in the locale a program starts with\<close>

definition tolower_char :: "char \<Rightarrow> char" where
  "tolower_char c =
     (if of_char c \<ge> (65::nat) \<and> of_char c \<le> (90::nat) then char_of (of_char c + 32 :: nat) else c)"

definition to_lower :: "string \<Rightarrow> string" where
  "to_lower str = map tolower_char str"

lemma length_join:
  "strings \<noteq> [] \<Longrightarrow>
     length (join_strings sep strings) = sum_list (map length strings) + length sep * (length strings - 1)"
proof -
  have rest: "length (join_rest sep ss) = sum_list (map length ss) + length sep * length ss" for ss
    by (induction ss) simp_all
  assume "strings \<noteq> []"
  then show ?thesis by (cases strings) (simp_all add: join_strings_def rest)
qed

lemma tolower_idem: "tolower_char (tolower_char c) = tolower_char c"
proof (cases "of_char c \<ge> (65::nat) \<and> of_char c \<le> (90::nat)")
  case True
  then have "of_char (char_of (of_char c + 32 :: nat)) = (of_char c + 32 :: nat)"
    by (simp add: of_char_of)
  with True show ?thesis unfolding tolower_char_def by simp
next
  case False
  then have same: "tolower_char c = c" by (auto simp: tolower_char_def)
  show ?thesis by (simp only: same)
qed

lemma to_lower_idem: "to_lower (to_lower str) = to_lower str"
  by (simp add: to_lower_def tolower_idem)

subsection \<open>Streams\<close>

text \<open>
  An input stream over a buffer: what it holds, the read position and whether it
  failed.  \<^verbatim>\<open>tellg\<close> of a failed stream is -1 (\<open>None\<close>), and to seek there fails it.
\<close>

record istream =
  is_content :: string
  is_pos :: nat
  is_failed :: bool

definition tellg :: "istream \<Rightarrow> nat option" where
  "tellg s = (if is_failed s then None else Some (is_pos s))"

definition stream_clear :: "istream \<Rightarrow> istream" where
  "stream_clear s = s\<lparr>is_failed := False\<rparr>"

definition seekg :: "nat option \<Rightarrow> istream \<Rightarrow> istream" where
  "seekg pos s = (case pos of None \<Rightarrow> s\<lparr>is_failed := True\<rparr> | Some p \<Rightarrow> s\<lparr>is_pos := p\<rparr>)"

text \<open>\<^verbatim>\<open>dst\<close> is the memory from the pointer on to the end of its object; the copy writes past it when it is too short.\<close>

definition StreamUtils_copy :: "istream \<Rightarrow> string \<Rightarrow> (nat \<times> string \<times> istream) outcome" where
  "StreamUtils_copy stream dst =
     (let pos = tellg stream;
          chars = drop (is_pos stream) (is_content stream);
          stream' = stream\<lparr>is_pos := is_pos stream + length chars\<rparr>
      in if length dst < length chars then Inl (Fault BufferOverflow)
         else Inr (length chars, chars @ drop (length chars) dst, seekg pos (stream_clear stream')))"

text \<open>\<^verbatim>\<open>std::for_each\<close> over the rest of the stream; an iterator advances after the call.\<close>

primrec foreach_chars :: "(char \<Rightarrow> ('w, unit) eff) \<Rightarrow> string \<Rightarrow> (istream \<times> 'w, unit) eff" where
  "foreach_chars action [] = eff_return ()"
| "foreach_chars action (c # cs) =
     eff_then (in_world (action c))
       (eff_then (set_local (\<lambda>s. s\<lparr>is_pos := is_pos s + 1\<rparr>)) (foreach_chars action cs))"

definition StreamUtils_foreach :: "(char \<Rightarrow> ('w, unit) eff) \<Rightarrow> (istream \<times> 'w, unit) eff" where
  "StreamUtils_foreach action =
     eff_bind get_local (\<lambda>stream.
       let pos = tellg stream in
       eff_then (foreach_chars action (drop (is_pos stream) (is_content stream)))
         (set_local (\<lambda>s. seekg pos (stream_clear s))))"

lemma copy_restores_stream:
  assumes "\<not> is_failed s" and "length (is_content s) - is_pos s \<le> length dst"
  shows "StreamUtils_copy s dst
    = Inr (length (is_content s) - is_pos s,
           drop (is_pos s) (is_content s) @ drop (length (is_content s) - is_pos s) dst, s)"
  using assms
  by (cases s) (simp add: StreamUtils_copy_def tellg_def seekg_def stream_clear_def Let_def)

lemma foreach_restores_stream:
  assumes "\<not> is_failed s" and "\<And>c w. fst (action c w) = Inr ()"
  shows "StreamUtils_foreach action (s, w)
    = (Inr (), s, fold (\<lambda>c w. snd (action c w)) (drop (is_pos s) (is_content s)) w)"
proof -
  have loop: "foreach_chars action cs (t, w)
      = (Inr (), t\<lparr>is_pos := is_pos t + length cs\<rparr>, fold (\<lambda>c w. snd (action c w)) cs w)" for cs t w
  proof (induction cs arbitrary: t w)
    case (Cons c cs)
    then show ?case using assms(2) by (simp add: then_in_world(1))
  qed simp
  show ?thesis
    using assms(1) loop [of "drop (is_pos s) (is_content s)" s w]
    by (cases s)
      (simp add: StreamUtils_foreach_def tellg_def seekg_def stream_clear_def Let_def eff_then_def eff_bind_def
        get_local_def set_local_def)
qed

end
