(* ===== verification/Signal_Interceptor.thy ===== *)
theory Signal_Interceptor
  imports Effects
begin

text \<open>
  \<^verbatim>\<open>sys/signal_interceptor.hpp\<close>: handlers by signal number and a
  \<^verbatim>\<open>boost::asio::signal_set\<close>.  The set is not in the repository: \<open>add\<close> and \<open>cancel\<close>
  say what its operations of these names do, and \<^verbatim>\<open>async_wait\<close> starts a wait whose
  handler is called exactly once, with a signal or with an error.
\<close>

type_synonym signal = int

type_synonym 'w signal_handler = "('w, unit) eff option"

text \<open>\<open>waits\<close> counts the waits started and not completed.\<close>

record 'w signal_interceptor =
  m_signal_handlers :: "signal \<rightharpoonup> 'w signal_handler"
  waits :: nat

definition signal_interceptor_new :: "'w signal_interceptor" where
  "signal_interceptor_new = \<lparr>m_signal_handlers = Map.empty, waits = 0\<rparr>"

text \<open>The handler that \<^verbatim>\<open>run\<close> passes: \<open>ec\<close> is the error of the wait, if any.\<close>

definition intercept ::
  "int option \<Rightarrow> signal \<Rightarrow> ('w signal_interceptor \<times> 'w, unit) eff" where
  "intercept ec sig =
     eff_bind get_local (\<lambda>si.
       if ec = None
       then (case m_signal_handlers si sig of
               None \<Rightarrow> eff_return ()
             | Some handler \<Rightarrow>
                 eff_catch_all (in_world (call_function (map_option (\<lambda>h u. h) handler) ())) (eff_return ()))
       else eff_return ())"

definition interceptor_run :: "('w signal_interceptor \<times> 'w, unit) eff" where
  "interceptor_run = set_local (\<lambda>si. si\<lparr>waits := waits si + 1\<rparr>)"

text \<open>\<^verbatim>\<open>catch (const std::system_error& err)\<close>\<close>

definition as_system_exception :: "string \<Rightarrow> ('w, unit) eff \<Rightarrow> ('w, unit) eff" where
  "as_system_exception msg m =
     (\<lambda>w. case m w of
        (Inl (Thrown e), w') \<Rightarrow>
          if ex_class e = StdSystemError
          then (Inl (Thrown \<lparr>ex_class = SystemException, ex_message = msg, ex_payload = ex_payload e\<rparr>), w')
          else (Inl (Thrown e), w')
      | r \<Rightarrow> r)"

definition interceptor_addHandler ::
  "(signal \<Rightarrow> ('w, unit) eff) \<Rightarrow> signal \<Rightarrow> 'w signal_handler \<Rightarrow> ('w signal_interceptor \<times> 'w, unit) eff" where
  "interceptor_addHandler add sig handler =
     as_system_exception ''Cannot set signal handler''
       (eff_then (in_world (add sig))
         (set_local (\<lambda>si. si\<lparr>m_signal_handlers := (m_signal_handlers si)(sig \<mapsto> handler)\<rparr>)))"

definition interceptor_cancel :: "('w, unit) eff \<Rightarrow> ('w signal_interceptor \<times> 'w, unit) eff" where
  "interceptor_cancel cancel = as_system_exception ''Cannot cancel signal interception'' (in_world cancel)"

text \<open>A wait that completes.\<close>

definition complete_wait :: "int option \<Rightarrow> signal \<Rightarrow> ('w signal_interceptor \<times> 'w, unit) eff" where
  "complete_wait ec sig =
     eff_then (set_local (\<lambda>si. si\<lparr>waits := waits si - 1\<rparr>)) (intercept ec sig)"

text \<open>
  Runs of an interceptor: how often \<^verbatim>\<open>run\<close> was called, and how often a handler was.
\<close>

inductive interceptor_reachable :: "nat \<Rightarrow> nat \<Rightarrow> 'w signal_interceptor \<Rightarrow> 'w \<Rightarrow> bool" where
  start: "interceptor_reachable 0 0 signal_interceptor_new w"
| environment: "interceptor_reachable runs calls si w \<Longrightarrow> interceptor_reachable runs calls si w'"
| add_handler: "interceptor_reachable runs calls si w \<Longrightarrow>
    interceptor_addHandler add sig h (si, w) = (r, si', w') \<Longrightarrow> interceptor_reachable runs calls si' w'"
| run: "interceptor_reachable runs calls si w \<Longrightarrow> interceptor_run (si, w) = (r, si', w') \<Longrightarrow>
    interceptor_reachable (runs + 1) calls si' w'"
| cancel: "interceptor_reachable runs calls si w \<Longrightarrow>
    interceptor_cancel cancel (si, w) = (r, si', w') \<Longrightarrow> interceptor_reachable runs calls si' w'"
| wait_signal: "interceptor_reachable runs calls si w \<Longrightarrow> waits si > 0 \<Longrightarrow>
    complete_wait None sig (si, w) = (r, si', w') \<Longrightarrow> interceptor_reachable runs (calls + 1) si' w'"
| wait_error: "interceptor_reachable runs calls si w \<Longrightarrow> waits si > 0 \<Longrightarrow>
    complete_wait (Some ec) sig (si, w) = (r, si', w') \<Longrightarrow> interceptor_reachable runs calls si' w'"

lemma intercept_frame: "fst (snd (intercept ec sig (si, w))) = si"
  by (auto simp: intercept_def eff_catch_all_def in_world_def split: option.split prod.split sum.split failure.split)

lemma intercept_catches: "fst (intercept ec sig (si, w)) \<noteq> Inl (Thrown e)"
  by (auto simp: intercept_def eff_catch_all_def in_world_def split: option.split prod.split sum.split failure.split)

lemma complete_wait_frame: "complete_wait ec sig (si, w) = (r, si', w') \<Longrightarrow> si' = si\<lparr>waits := waits si - 1\<rparr>"
  using intercept_frame [of ec sig "si\<lparr>waits := waits si - 1\<rparr>" w] by (simp add: complete_wait_def)

lemma addHandler_waits: "waits (fst (snd (interceptor_addHandler add sig h (si, w)))) = waits si"
  by (auto simp: interceptor_addHandler_def as_system_exception_def eff_then_def eff_bind_def in_world_def
      set_local_def split: prod.split sum.split failure.split)

lemma cancel_frame: "fst (snd (interceptor_cancel cancel (si, w))) = si"
  by (auto simp: interceptor_cancel_def as_system_exception_def in_world_def
      split: prod.split sum.split failure.split)

text \<open>
  Handlers are called at most once per call of \<^verbatim>\<open>run\<close>: it starts one wait, which is
  not started again when it completes.
\<close>

lemma waits_balance: "interceptor_reachable runs calls si w \<Longrightarrow> calls + waits si \<le> runs"
proof (induction rule: interceptor_reachable.induct)
  case (add_handler runs calls si w add sig h r si' w')
  then show ?case using addHandler_waits [of add sig h si w] by simp
next
  case (run runs calls si w r si' w')
  then show ?case by (auto simp: interceptor_run_def)
next
  case (cancel runs calls si w cancel r si' w')
  then show ?case using cancel_frame [of cancel si w] by simp
next
  case (wait_signal runs calls si w sig r si' w')
  then show ?case using complete_wait_frame [OF wait_signal(3)] by simp
next
  case (wait_error runs calls si w ec sig r si' w')
  then show ?case using complete_wait_frame [OF wait_error(3)] by simp
qed (simp_all add: signal_interceptor_new_def)

end
