(* ===== verification/Scheduler_Timing.thy ===== *)
theory Scheduler_Timing
  imports Task_Scheduler
begin

text \<open>
  When the scheduler starts its actions, that is, hands them to the pool.  A program that
  neither schedules nor terminates leaves the watcher alone: then the instant of the next
  start is known (\<open>earliest\<close>), the queue is served within three sections of \<^verbatim>\<open>watcherFn\<close> per
  action, and each action starts within a millisecond of the later of that instant and its
  own, but for the \<open>misorder\<close> of the queue.  Wake-ups are not spurious here; what a spurious
  one does is in \<open>Task_Scheduler\<close>.
\<close>

subsection \<open>The watcher left alone\<close>

text \<open>The next section of \<^verbatim>\<open>watcherFn\<close>, at the instant at which it can run.\<close>

definition watcher_alone :: "int \<Rightarrow> nat \<Rightarrow> sched_system \<Rightarrow> sched_system" where
  "watcher_alone clock_max j s =
     (case m_watcher (sched s) of
        WatchTest \<Rightarrow> s\<lparr>sched := watcher_test (sched s)\<rparr>
      | WatchLock \<Rightarrow> s\<lparr>sched := watcher_wait (clock s) (sched s)\<rparr>
      | Waiting t n \<Rightarrow> watcher_wakes clock_max j (s\<lparr>clock := (if n then clock s else max (clock s) t)\<rparr>)
      | WatchDone \<Rightarrow> s)"

definition wakes_at :: "sched_system \<Rightarrow> int" where
  "wakes_at s =
     (case m_watcher (sched s) of
        Waiting t n \<Rightarrow> if n then clock s else max (clock s) t
      | _ \<Rightarrow> clock s + max 0 (m_delay (sched s)) * 1000000)"

definition earliest :: "sched_system \<Rightarrow> int" where
  "earliest s =
     wakes_at s + (if m_suspend_reason (sched s) = UpdateDelay then max 0 (m_delay (sched s)) * 1000000 else 0)"

text \<open>Steps that neither schedule nor terminate.\<close>

inductive unattended :: "int \<Rightarrow> sched_system \<Rightarrow> sched_system \<Rightarrow> bool" for clock_max s where
  same: "unattended clock_max s s"
| step: "unattended clock_max s s' \<Longrightarrow> sched_step clock_max False s' s'' \<Longrightarrow>
    scheduled s'' = scheduled s' \<Longrightarrow> m_suspend_reason (sched s'') \<noteq> Terminate \<Longrightarrow> unattended clock_max s s''"

lemma clock_le_earliest: "clock s \<le> wakes_at s" "wakes_at s \<le> earliest s"
  by (auto simp: earliest_def wakes_at_def split: watcher_pc.split)

lemma watching_simps [simp]:
  "watching (S\<lparr>m_watcher := pc\<rparr>) \<longleftrightarrow> m_suspend_reason S \<noteq> Terminate \<and> \<not> scheduler_isTerminating S \<and> pc \<noteq> WatchDone"
  "scheduler_isTerminating (S\<lparr>m_watcher := pc\<rparr>) = scheduler_isTerminating S"
  "scheduler_isTerminating (S\<lparr>m_suspend_reason := r\<rparr>) = scheduler_isTerminating S"
  "scheduler_isTerminating (S\<lparr>m_delay := d\<rparr>) = scheduler_isTerminating S"
  "scheduler_isTerminating (S\<lparr>m_delay_update_ts := i\<rparr>) = scheduler_isTerminating S"
  "scheduler_isTerminating (S\<lparr>m_scheduled_actions := q\<rparr>) = scheduler_isTerminating S"
  by (simp_all add: watching_def scheduler_isTerminating_def)

text \<open>The watcher alone takes the steps of the scheduler, after a pause.\<close>

lemma watcher_alone_steps: "(sched_step clock_max False)\<^sup>*\<^sup>* s (watcher_alone clock_max j s)"
proof (cases "m_watcher (sched s)")
  case WatchTest
  then show ?thesis by (auto simp: watcher_alone_def intro: sched_step.test)
next
  case WatchLock
  then show ?thesis by (auto simp: watcher_alone_def intro: sched_step.wait)
next
  case (Waiting t n)
  define d where "d = (if n then 0 else max 0 (t - clock s))"
  let ?s = "s\<lparr>clock := clock s + d\<rparr>"
  have s: "s\<lparr>clock := (if n then clock s else max (clock s) t)\<rparr> = ?s"
    by (simp add: d_def max_def)
  have "sched_step clock_max False s ?s" by (rule sched_step.tick) (simp add: d_def)
  moreover have "sched_step clock_max False ?s (watcher_wakes clock_max j ?s)"
    by (rule sched_step.wake [of _ t n]) (auto simp: Waiting d_def)
  ultimately show ?thesis
    unfolding watcher_alone_def Waiting s watcher_pc.case by simp
qed (simp add: watcher_alone_def)

interpretation sched: stable "sched_step clock_max False" "sched_inv clock_max"
  by unfold_locales (rule sched_step_inv)

interpretation accounts: stable "sched_step clock_max spurious" accounted
  by unfold_locales (rule sched_step_accounts)

lemmas watcher_alone_inv = sched.stays [OF watcher_alone_steps]
lemmas watcher_alone_accounts = accounts.stays [OF watcher_alone_steps]

lemma watcher_alone_scheduled [simp]: "scheduled (watcher_alone clock_max j s) = scheduled s"
  by (simp add: watcher_alone_def split: watcher_pc.split)

subsection \<open>Nothing starts before \<open>earliest\<close>\<close>

lemma pq_top_stable [simp]: "pq_pop now [] = []"
  by (simp add: pq_pop_def)

lemma execute_task_simps [simp]:
  "m_suspend_reason (execute_task clock_max now j S) = m_suspend_reason S"
  "m_scheduled_actions (execute_task clock_max now j S) = pq_pop now (m_scheduled_actions S)"
  "m_delay (execute_task clock_max now j S) = (let q = pq_pop now (m_scheduled_actions S)
     in if q \<noteq> [] then scheduled_timeLeft now (pq_top q) else maxWaitTime clock_max now)"
  "m_watcher (execute_task clock_max now j S) = m_watcher S"
  "scheduler_isTerminating (execute_task clock_max now j S) = scheduler_isTerminating S"
  by (simp_all add: execute_task_def Let_def scheduler_isTerminating_def pool_doTerminatingCheck_def)

text \<open>The watcher's part of a wake-up.\<close>

lemma watcher_wakes_watcher:
  assumes "m_suspend_reason (sched s) \<noteq> Terminate"
  shows "m_watcher (sched (watcher_wakes clock_max j s)) = WatchTest"
    and "m_suspend_reason (sched (watcher_wakes clock_max j s)) = ExecuteTask"
    and "scheduler_isTerminating (sched (watcher_wakes clock_max j s)) = scheduler_isTerminating (sched s)"
  using assms by (cases "m_suspend_reason (sched s)"; simp add: watcher_wakes_def watcherFn_def Let_def)+

text \<open>What has been started since \<open>s\<close>, at the instants allowed by \<open>E\<close>.\<close>

definition starts_after :: "int \<Rightarrow> (nat \<times> int) list \<Rightarrow> sched_system \<Rightarrow> bool" where
  "starts_after E old s \<longleftrightarrow>
     E \<le> earliest s \<and> (\<exists>new. executed s = old @ new \<and> (\<forall>(a, t) \<in> set new. E \<le> t))"

lemma earliest_pool [simp]:
  "earliest (s\<lparr>sched := (sched s)\<lparr>s_pool := p\<rparr>\<rparr>) = earliest s"
  by (cases "m_watcher (sched s)") (simp_all add: earliest_def wakes_at_def)

lemma starts_after_step:
  assumes "sched_step clock_max False s s'" and "starts_after E old s"
    and "scheduled s' = scheduled s" and "m_suspend_reason (sched s') \<noteq> Terminate"
  shows "starts_after E old s'"
  using assms(1)
proof cases
  case test
  then have "earliest s' = earliest s" by (simp add: earliest_def wakes_at_def watcher_test_def)
  with test assms(2) show ?thesis by (simp add: starts_after_def)
next
  case wait
  then have "earliest s' = earliest s" by (auto simp: earliest_def wakes_at_def watcher_wait_def max_def)
  with wait assms(2) show ?thesis by (simp add: starts_after_def)
next
  case (wake t n j)
  then have now: "wakes_at s = clock s" by (auto simp: wakes_at_def)
  show ?thesis
  proof (cases "m_suspend_reason (sched s)")
    case UpdateDelay
    then have "earliest s' = earliest s"
      using wake(1) now by (simp add: earliest_def wakes_at_def watcher_wakes_def watcherFn_def Let_def)
    with assms(2) UpdateDelay wake(1) show ?thesis by (simp add: starts_after_def starts_def)
  next
    case ExecuteTask
    then have "E \<le> clock s" "clock s \<le> earliest s'"
      using assms(2) now clock_le_earliest [of s'] wake by (simp_all add: starts_after_def earliest_def [of s])
    with wake(1) assms(2) show ?thesis by (auto simp: starts_after_def)
  next
    case Terminate
    then show ?thesis using assms(4) wake by (simp add: watcher_wakes_def watcherFn_def)
  qed
next
  case (tick d)
  then have "earliest s \<le> earliest s'"
    by (auto simp: earliest_def wakes_at_def split: watcher_pc.split)
  with tick assms(2) show ?thesis by (auto simp: starts_after_def)
next
  case (workers p)
  then show ?thesis using assms(2) by (simp add: starts_after_def)
qed (use assms(3,4) in \<open>simp_all add: scheduler_doTerminate_def\<close>)

lemma not_before_earliest:
  assumes "unattended clock_max s s'"
  shows "\<exists>new. executed s' = executed s @ new \<and> (\<forall>(a, t) \<in> set new. earliest s \<le> t)"
proof -
  from assms have "starts_after (earliest s) (executed s) s'"
  proof (induction rule: unattended.induct)
    case same
    show ?case by (simp add: starts_after_def)
  next
    case (step s' s'')
    then show ?case using starts_after_step by blast
  qed
  then show ?thesis by (simp add: starts_after_def)
qed

subsection \<open>The next start\<close>

lemma watcher_alone_watching:
  assumes "watching (sched s)"
  shows "watching (sched (watcher_alone clock_max j s))"
proof (cases "m_watcher (sched s)")
  case (Waiting t n)
  then show ?thesis
    using assms watcher_wakes_watcher [of "s\<lparr>clock := (if n then clock s else max (clock s) t)\<rparr>" clock_max j]
    by (simp add: watcher_alone_def watching_def)
qed (use assms in \<open>simp_all add: watcher_alone_def watcher_test_def watcher_wait_def watching_def\<close>)

text \<open>Sections until a start.\<close>

definition sections_left :: "sched_system \<Rightarrow> nat" where
  "sections_left s =
     (case m_watcher (sched s) of WatchTest \<Rightarrow> 3 | WatchLock \<Rightarrow> 2 | Waiting t n \<Rightarrow> 1 | WatchDone \<Rightarrow> 0)
     + (if m_suspend_reason (sched s) = UpdateDelay then 3 else 0)"

text \<open>What has been started, queued, and given to the pool.\<close>

definition books :: "sched_system \<Rightarrow> (nat \<times> int) list \<times> scheduled_action list \<times> nat list" where
  "books s = (executed s, m_scheduled_actions (sched s), m_actions (s_pool (sched s)))"

lemma watcher_alone_approaches:
  assumes "watching (sched s)" and "sections_left s > 1"
  shows "Suc (sections_left (watcher_alone clock_max j s)) = sections_left s
    \<and> earliest (watcher_alone clock_max j s) = earliest s \<and> books (watcher_alone clock_max j s) = books s"
proof (cases "m_watcher (sched s)")
  case (Waiting t n)
  with assms have r: "m_suspend_reason (sched s) = UpdateDelay"
    by (cases "m_suspend_reason (sched s)") (simp_all add: sections_left_def watching_def)
  with Waiting show ?thesis
    by (simp add: watcher_alone_def watcher_wakes_def watcherFn_def sections_left_def earliest_def wakes_at_def books_def)
qed (use assms in \<open>auto simp: watcher_alone_def watcher_test_def watcher_wait_def watching_def sections_left_def
       earliest_def wakes_at_def max_def books_def\<close>)

lemma sections_left_pos: "watching (sched s) \<Longrightarrow> sections_left s > 0"
  by (auto simp: sections_left_def watching_def split: watcher_pc.split)

lemma watcher_alone_starts:
  assumes "watching (sched s)" and "sections_left s = 1" and q: "m_scheduled_actions (sched s) = q" "q \<noteq> []"
  shows "sections_left (watcher_alone clock_max j s) = 3"
    and "clock (watcher_alone clock_max j s) = earliest s"
    and "executed (watcher_alone clock_max j s) = executed s @ [(the (sa_action (pq_top q)), earliest s)]"
    and "m_scheduled_actions (sched (watcher_alone clock_max j s)) = pq_pop (earliest s) q"
    and "m_actions (s_pool (sched (watcher_alone clock_max j s))) = m_actions (s_pool (sched s)) @ [the (sa_action (pq_top q))]"
    and "pq_pop (earliest s) q \<noteq> [] \<Longrightarrow> earliest (watcher_alone clock_max j s) = earliest s
      + max 0 (scheduled_timeLeft (earliest s) (pq_top (pq_pop (earliest s) q))) * 1000000"
proof -
  obtain t n where pc: "m_watcher (sched s) = Waiting t n" "m_suspend_reason (sched s) = ExecuteTask"
    using assms(1,2) by (cases "m_watcher (sched s)"; cases "m_suspend_reason (sched s)")
      (auto simp: sections_left_def watching_def)
  let ?s = "s\<lparr>clock := earliest s\<rparr>"
  have "earliest s = (if n then clock s else max (clock s) t)" by (simp add: earliest_def wakes_at_def pc)
  then have alone: "watcher_alone clock_max j s = watcher_wakes clock_max j ?s"
    by (simp add: watcher_alone_def pc)
  have st: "starts (sched ?s)" using pc q by (simp add: starts_def)
  have w: "m_watcher (sched (watcher_wakes clock_max j ?s)) = WatchTest"
    "m_suspend_reason (sched (watcher_wakes clock_max j ?s)) = ExecuteTask"
    using watcher_wakes_watcher [of ?s clock_max j] pc by simp_all
  show "sections_left (watcher_alone clock_max j s) = 3"
    "clock (watcher_alone clock_max j s) = earliest s"
    "executed (watcher_alone clock_max j s) = executed s @ [(the (sa_action (pq_top q)), earliest s)]"
    "m_scheduled_actions (sched (watcher_alone clock_max j s)) = pq_pop (earliest s) q"
    "m_actions (s_pool (sched (watcher_alone clock_max j s))) = m_actions (s_pool (sched s)) @ [the (sa_action (pq_top q))]"
    using q st w unfolding alone by (simp_all add: sections_left_def)
  show "earliest (watcher_alone clock_max j s) = earliest s
      + max 0 (scheduled_timeLeft (earliest s) (pq_top (pq_pop (earliest s) q))) * 1000000"
    if "pq_pop (earliest s) q \<noteq> []"
  proof -
    have "m_delay (sched (watcher_wakes clock_max j ?s)) = scheduled_timeLeft (earliest s) (pq_top (pq_pop (earliest s) q))"
      using that q pc by (simp add: watcher_wakes_def watcherFn_def Let_def)
    with w show ?thesis unfolding alone by (simp add: earliest_def [of "watcher_wakes _ _ _"] wakes_at_def)
  qed
qed

abbreviation alone where
  "alone clock_max j k s \<equiv> (watcher_alone clock_max j ^^ k) s"

lemma alone_add: "alone clock_max j k (alone clock_max j l s) = alone clock_max j (l + k) s"
  by (simp add: add.commute [of l] funpow_add)

lemma alone_watching: "watching (sched s) \<Longrightarrow> watching (sched (alone clock_max j k s))"
  by (induction k) (simp_all add: watcher_alone_watching)

lemma alone_inv: "sched_inv clock_max s \<Longrightarrow> sched_inv clock_max (alone clock_max j k s)"
  by (induction k) (simp_all add: watcher_alone_inv)

lemma alone_accounts: "accounted s \<Longrightarrow> accounted (alone clock_max j k s)"
  by (induction k) (simp_all add: watcher_alone_accounts)

lemma alone_scheduled [simp]: "scheduled (alone clock_max j k s) = scheduled s"
  by (induction k) simp_all

lemma alone_approaches:
  assumes "watching (sched s)" and "k < sections_left s"
  shows "sections_left (alone clock_max j k s) = sections_left s - k
    \<and> earliest (alone clock_max j k s) = earliest s \<and> books (alone clock_max j k s) = books s"
  using assms(2)
proof (induction k)
  case (Suc k)
  then have "sections_left (alone clock_max j k s) > 1" by simp
  from watcher_alone_approaches [OF alone_watching [OF assms(1)] this, of clock_max j] Suc
  show ?case by auto
qed simp

text \<open>The first start, and the state it leaves.\<close>

lemma next_start:
  fixes clock_max j s
  defines "T \<equiv> alone clock_max j (sections_left s) s" and "q \<equiv> m_scheduled_actions (sched s)"
  assumes w: "watching (sched s)" and "q \<noteq> []"
  shows "sections_left T = 3" "clock T = earliest s"
    "executed T = executed s @ [(the (sa_action (pq_top q)), earliest s)]"
    "m_scheduled_actions (sched T) = pq_pop (earliest s) q"
    "m_actions (s_pool (sched T)) = m_actions (s_pool (sched s)) @ [the (sa_action (pq_top q))]"
    "pq_pop (earliest s) q \<noteq> [] \<Longrightarrow> earliest T = earliest s
      + max 0 (scheduled_timeLeft (earliest s) (pq_top (pq_pop (earliest s) q))) * 1000000"
proof -
  obtain k where k: "sections_left s = Suc k" using sections_left_pos [OF w] gr0_implies_Suc by blast
  define S where "S = alone clock_max j k s"
  have S: "watching (sched S)" "sections_left S = 1" "m_scheduled_actions (sched S) = q" "earliest S = earliest s"
    "executed S = executed s" "m_actions (s_pool (sched S)) = m_actions (s_pool (sched s))"
    using alone_approaches [OF w, of k clock_max j] alone_watching [OF w] k by (simp_all add: S_def q_def books_def)
  have T: "T = watcher_alone clock_max j S" by (simp add: T_def S_def k)
  show "sections_left T = 3" "clock T = earliest s"
    "executed T = executed s @ [(the (sa_action (pq_top q)), earliest s)]"
    "m_scheduled_actions (sched T) = pq_pop (earliest s) q"
    "m_actions (s_pool (sched T)) = m_actions (s_pool (sched s)) @ [the (sa_action (pq_top q))]"
    "pq_pop (earliest s) q \<noteq> [] \<Longrightarrow> earliest T = earliest s
      + max 0 (scheduled_timeLeft (earliest s) (pq_top (pq_pop (earliest s) q))) * 1000000"
    using watcher_alone_starts [OF S(1-3) assms(4), of clock_max j] unfolding T S(4-6) by blast+
qed

subsection \<open>Serving the queue\<close>

text \<open>
  \<open>served E xs d new\<close>: the starts \<open>new\<close> are of actions of \<open>xs\<close>, and none is later than \<open>E\<close> and a
  millisecond after its own instant, but for \<open>d\<close>.
\<close>

definition served :: "int \<Rightarrow> scheduled_action list \<Rightarrow> int \<Rightarrow> (nat \<times> int) list \<Rightarrow> bool" where
  "served E xs d new \<longleftrightarrow>
     (\<forall>(a, t) \<in> set new. \<exists>x \<in> set xs. sa_action x = Some a \<and> t \<le> max E (due x + 1000000 + d))"

text \<open>When the next start can be late.\<close>

lemma next_start_not_late:
  assumes "watching (sched s)" and "sched_inv clock_max s" and "y \<in> set (pq_pop (earliest s) (m_scheduled_actions (sched s)))"
    and "\<forall>y \<in> set (m_scheduled_actions (sched s)). earliest s \<le> max E (due y + 1000000 + misorder (scheduled s))"
  shows "earliest (alone clock_max j (sections_left s) s) \<le> max E (due y + 1000000 + misorder (scheduled s))"
proof -
  let ?q = "m_scheduled_actions (sched s)" and ?t = "earliest s" and ?T = "alone clock_max j (sections_left s) s"
  let ?q' = "pq_pop (earliest s) (m_scheduled_actions (sched s))"
  have q: "?q \<noteq> []" "?q' \<noteq> []" using assms(3) by (auto simp: pq_pop_def)
  note T = next_start [OF assms(1) q(1), of clock_max j]
  have invT: "sched_inv clock_max ?T" by (rule alone_inv [OF assms(2)])
  let ?x = "pq_top ?q'"
  have "due ?x \<le> due y + misorder (scheduled s)"
    using sched_inv_top [OF invT, of y] assms(3) T(4) by simp
  moreover have "?x \<in> set (scheduled s)"
    using invT pq_top_in [OF q(2)] T(4) by (auto simp: sched_inv_def accounted_def)
  then have "sa_creation_ts ?x \<le> ?t"
    using invT T(2) by (simp add: sched_inv_def)
  then have "?t + scheduled_timeLeft ?t ?x * 1000000 < due ?x + 1000000" by (rule timeLeft_upper)
  moreover have "?t \<le> max E (due y + 1000000 + misorder (scheduled s))"
    using assms(3,4) set_pq_pop by blast
  moreover have "earliest ?T = ?t + max 0 (scheduled_timeLeft ?t ?x) * 1000000" by (rule T(6) [OF q(2)])
  ultimately show ?thesis by (cases "scheduled_timeLeft ?t ?x \<ge> 0") auto
qed

lemma alone_serves:
  assumes "watching (sched s)"
  shows "\<exists>k new. k \<le> (if m_scheduled_actions (sched s) = [] then 0
        else sections_left s + 3 * (length (m_scheduled_actions (sched s)) - 1))
    \<and> m_scheduled_actions (sched (alone clock_max j k s)) = []
    \<and> executed (alone clock_max j k s) = executed s @ new
    \<and> m_actions (s_pool (sched (alone clock_max j k s))) = m_actions (s_pool (sched s)) @ map fst new
    \<and> (sched_inv clock_max s \<longrightarrow>
         (\<forall>y \<in> set (m_scheduled_actions (sched s)). earliest s \<le> max E (due y + 1000000 + misorder (scheduled s))) \<longrightarrow>
         served E (m_scheduled_actions (sched s)) (misorder (scheduled s)) new)"
  using assms
proof (induction "length (m_scheduled_actions (sched s))" arbitrary: s)
  case 0
  then show ?case by (intro exI [of _ 0]) (simp add: served_def)
next
  case (Suc n)
  let ?q = "m_scheduled_actions (sched s)" and ?t = "earliest s" and ?d = "misorder (scheduled s)"
  let ?T = "alone clock_max j (sections_left s) s" and ?q' = "pq_pop (earliest s) (m_scheduled_actions (sched s))"
  let ?a = "the (sa_action (pq_top (m_scheduled_actions (sched s))))"
  have q: "?q \<noteq> []" using Suc.hyps(2) by auto
  note T = next_start [OF Suc.prems(1) q, of clock_max j]
  have len: "length ?q' = n"
    using Suc.hyps(2) arg_cong [OF pq.elems_pop [of ?q ?t], of size] q by simp
  obtain k new where k: "k \<le> (if ?q' = [] then 0 else 3 + 3 * (length ?q' - 1))"
    "m_scheduled_actions (sched (alone clock_max j k ?T)) = []" "executed (alone clock_max j k ?T) = executed ?T @ new"
    "m_actions (s_pool (sched (alone clock_max j k ?T))) = m_actions (s_pool (sched ?T)) @ map fst new"
    and ok: "sched_inv clock_max ?T \<longrightarrow> (\<forall>y \<in> set ?q'. earliest ?T \<le> max E (due y + 1000000 + ?d)) \<longrightarrow> served E ?q' ?d new"
    using Suc.hyps(1) [of ?T, unfolded T(1,4)] alone_watching [OF Suc.prems(1)] len by auto
  have "k + sections_left s \<le> sections_left s + 3 * (length ?q - 1)"
    using k(1) len Suc.hyps(2) by (cases n) (auto split: if_splits)
  moreover have "served E ?q ?d ((?a, ?t) # new)"
    if inv: "sched_inv clock_max s" and E: "\<forall>y \<in> set ?q. ?t \<le> max E (due y + 1000000 + ?d)"
  proof -
    have "served E ?q' ?d new"
      using ok alone_inv [OF inv] next_start_not_late [OF Suc.prems inv _ E] by blast
    then have "served E ?q ?d new" using set_pq_pop [of ?t ?q] by (force simp: served_def)
    moreover have "pq_top ?q \<in> set (scheduled s)" using inv pq_top_in [OF q] by (auto simp: sched_inv_def accounted_def)
    then have "sa_action (pq_top ?q) = Some ?a" using inv by (auto simp: sched_inv_def accounted_def)
    ultimately show ?thesis using E pq_top_in [OF q] by (auto simp: served_def)
  qed
  ultimately show ?case
    using k(2-4) q unfolding alone_add T(3,5)
    by (intro exI [of _ "sections_left s + k"] exI [of _ "(?a, ?t) # new"]) auto
qed

lemma alone_empties:
  assumes "watching (sched s)"
  shows "\<exists>k \<le> 3 * length (m_scheduled_actions (sched s)) + 3. \<exists>new. m_scheduled_actions (sched (alone clock_max j k s)) = []
    \<and> executed (alone clock_max j k s) = executed s @ new
    \<and> m_actions (s_pool (sched (alone clock_max j k s))) = m_actions (s_pool (sched s)) @ map fst new
    \<and> (sched_inv clock_max s \<longrightarrow> served (earliest s) (m_scheduled_actions (sched s)) (misorder (scheduled s)) new)"
proof -
  let ?q = "m_scheduled_actions (sched s)"
  have "sections_left s \<le> 6" by (simp add: sections_left_def split: watcher_pc.split)
  then have "k \<le> (if ?q = [] then 0 else sections_left s + 3 * (length ?q - 1)) \<Longrightarrow> k \<le> 3 * length ?q + 3" for k
    by (cases ?q) auto
  with alone_serves [OF assms, of clock_max j "earliest s"] show ?thesis by fastforce
qed

subsection \<open>Properties\<close>

text \<open>
  What a scheduler promises, without queue, watcher and condition variable: timers are
  armed, and each may fire once, when its delay has passed, or at most \<open>slack\<close> sooner.
\<close>

record timers =
  t_now :: int
  t_pending :: "scheduled_action multiset"
  t_fired :: "(nat \<times> int) list"

inductive timer_step :: "int \<Rightarrow> timers \<Rightarrow> timers \<Rightarrow> bool" for slack where
  arm: "timer_step slack T (T\<lparr>t_pending := add_mset (scheduled_new (t_now T) (Some a) delay) (t_pending T)\<rparr>)"
| fire: "x \<in># t_pending T \<Longrightarrow> sa_action x = Some a \<Longrightarrow>
    sa_creation_ts x + sa_delay x * 1000000 \<le> t_now T + slack \<Longrightarrow>
    timer_step slack T (T\<lparr>t_pending := t_pending T - {#x#}, t_fired := t_fired T @ [(a, t_now T)]\<rparr>)"
| pass: "0 \<le> d \<Longrightarrow> timer_step slack T (T\<lparr>t_now := t_now T + d\<rparr>)"

definition timers_of :: "sched_system \<Rightarrow> timers" where
  "timers_of s = \<lparr>t_now = clock s, t_pending = mset (m_scheduled_actions (sched s)), t_fired = executed s\<rparr>"

lemma wake_refines:
  assumes "sched_inv clock_max s" and "m_watcher (sched s) = Waiting t n" and "n \<or> clock s \<ge> t"
  shows "(timer_step (misorder (scheduled s)))\<^sup>=\<^sup>= (timers_of s) (timers_of (watcher_wakes clock_max j s))"
proof (cases "starts (sched s)")
  case True
  let ?q = "m_scheduled_actions (sched s)" and ?x = "pq_top (m_scheduled_actions (sched s))"
  have "\<not> n" using assms(1,2) True by (auto simp: sched_inv_def starts_def)
  then have due: "due ?x \<le> clock s + misorder (scheduled s)"
    using sched_inv_execute [OF assms(1) _ assms(2) True] assms(3) by blast
  have q: "?q \<noteq> []" using True by (simp add: starts_def)
  have "?x \<in> set (scheduled s)" using assms(1) pq_top_in [OF q] by (auto simp: sched_inv_def accounted_def)
  then have a: "sa_action ?x = Some (the (sa_action ?x))" using assms(1) by (auto simp: sched_inv_def accounted_def)
  have "timer_step (misorder (scheduled s)) (timers_of s) ((timers_of s)\<lparr>t_pending := t_pending (timers_of s) - {#?x#},
      t_fired := t_fired (timers_of s) @ [(the (sa_action ?x), t_now (timers_of s))]\<rparr>)"
    using pq_top_in [OF q] due a by (intro timer_step.fire) (simp_all add: timers_of_def due_def)
  moreover have "mset (pq_pop (clock s) ?q) = mset ?q - {#?x#}"
    using arg_cong [OF pq.elems_pop [of ?q "clock s"], of "\<lambda>M. M - {#?x#}"] q by simp
  ultimately show ?thesis using True by (simp add: timers_of_def)
next
  case False
  then show ?thesis by (simp add: timers_of_def)
qed



text \<open>The next start is exact: while nobody schedules or terminates, no run starts an action before
  \<open>earliest\<close>, whatever the pauses, and a watcher that runs whenever it can starts the top of the
  queue at that very instant, after \<open>sections_left\<close> sections.\<close>

theorem next_start_is_exact:
  assumes "watching (sched s)" and "m_scheduled_actions (sched s) \<noteq> []"
  shows "(\<forall>s'. unattended clock_max s s' \<longrightarrow>
      (\<exists>new. executed s' = executed s @ new \<and> (\<forall>(a, t) \<in> set new. earliest s \<le> t)))
    \<and> executed (alone clock_max j (sections_left s) s)
      = executed s @ [(the (sa_action (pq_top (m_scheduled_actions (sched s)))), earliest s)]"
  using not_before_earliest next_start(3) [OF assms] by blast

theorem next_start_is_exact_witness:
  "executed (alone clock_end 0 6 demo_sched) = [(4, 2000000000)]"
proof -
  have s: "watching (sched demo_sched)" "m_scheduled_actions (sched demo_sched) = [scheduled_new 0 (Some 4) 1000]"
    "m_watcher (sched demo_sched) = WatchTest" "m_suspend_reason (sched demo_sched) = UpdateDelay"
    "m_delay (sched demo_sched) = 1000" "clock demo_sched = 0" "executed demo_sched = []"
    by (simp_all add: demo_sched_def doSchedule_def scheduler_new_def scheduler_isTerminating_def watching_def
        pool_doTerminatingCheck_def pool_new_def scheduler_timeLeft_def maxWaitTime_def clock_end_def to_ms_def
        pq_push_def notify_watcher_def Let_def)
  then have "sections_left demo_sched = 6" "earliest demo_sched = 2000000000"
    by (simp_all add: sections_left_def earliest_def wakes_at_def)
  with next_start_is_exact [of demo_sched clock_end 0] s show ?thesis
    by (simp add: pq_top_def)
qed



text \<open>C38: A shorter delay can be ignored: when the watcher has slept for a while and two actions are
  scheduled before it is awake, the time left of the first is reckoned from the last wake-up, so
  that the second does not shorten it.  The second starts when the first was to start.\<close>

theorem second_schedule_is_late:
  assumes "m_watcher (sched s) = Waiting t n" and "\<not> scheduler_isTerminating (sched s)"
    and "m_scheduled_actions (sched s) = []" and "d1 < scheduler_timeLeft (clock s) (sched s)"
    and "0 \<le> d2" and "d2 < d1" and "d1 - d2 \<le> to_ms (clock s - m_delay_update_ts (sched s))"
    and "sched s' = doSchedule (clock s) b d2 (doSchedule (clock s) a d1 (sched s))"
    and "clock s' = clock s" and "executed s' = executed s"
  shows "executed (alone clock_max j 4 s') = executed s @ [(b, clock s + d1 * 1000000)]
    \<and> m_scheduled_actions (sched (alone clock_max j 4 s')) = [scheduled_new (clock s) (Some a) d1]
    \<and> (\<forall>s''. unattended clock_max s' s'' \<longrightarrow>
        (\<exists>new. executed s'' = executed s @ new \<and> (\<forall>(c, t) \<in> set new. clock s + d1 * 1000000 \<le> t)))"
proof -
  let ?x = "\<lambda>a d. scheduled_new (clock s) (Some a) d"
  have "scheduled_greater (clock s) (?x a d1) (?x b d2)"
    using assms(6) by (simp add: greater_timeLeft scheduled_timeLeft_def)
  then have S: "m_watcher (sched s') = Waiting t True" "m_suspend_reason (sched s') = UpdateDelay"
    "m_delay (sched s') = d1" "m_scheduled_actions (sched s') = [?x b d2, ?x a d1]" "watching (sched s')"
    using assms(1-8)
    by (simp_all add: doSchedule_def Let_def scheduler_timeLeft_def pq_push_def notify_watcher_def watching_def)
  have E: "earliest s' = clock s + d1 * 1000000" "sections_left s' = 4"
    using assms(5,6,9) S(1-3) by (simp_all add: earliest_def wakes_at_def sections_left_def)
  with next_start(3,4) [OF S(5), of clock_max j] not_before_earliest [of clock_max s'] S(4) assms(10)
  show ?thesis by (simp add: pq_top_def pq_pop_def)
qed

text \<open>The scheduler after a minute without actions; ten seconds and ten milliseconds.\<close>

definition demo_idle :: sched_system where
  "demo_idle =
     \<lparr>sched = (scheduler_new 1 clock_end 0)\<lparr>m_watcher := Waiting 9223368436854000000 False\<rparr>,
      clock = 60000000000, scheduled = [], executed = []\<rparr>"

theorem second_schedule_is_late_witness:
  "executed (alone clock_end 0 4 (demo_idle\<lparr>sched :=
      doSchedule 60000000000 2 10 (doSchedule 60000000000 1 10000 (sched demo_idle))\<rparr>))
    = [(2, 70000000000)]"
  using second_schedule_is_late [of demo_idle 9223368436854000000 False 10000 10 "demo_idle\<lparr>sched :=
      doSchedule 60000000000 2 10 (doSchedule 60000000000 1 10000 (sched demo_idle))\<rparr>" 2 1 clock_end 0]
  by (simp add: demo_idle_def scheduler_new_def scheduler_isTerminating_def pool_doTerminatingCheck_def pool_new_def
      scheduler_timeLeft_def maxWaitTime_def clock_end_def to_ms_def)

text \<open>The comparator of the queue looks at the clock, so that the order of two actions depends on the
  instant at which it is asked: these two, due half a millisecond apart, are equivalent to it
  at one instant and not at another.\<close>

theorem order_depends_on_the_instant:
  fixes x y
  defines "x \<equiv> scheduled_new 0 (Some 1) 1000" and "y \<equiv> scheduled_new 500000 (Some 2) 1000"
  shows "due x < due y \<and> scheduled_compare 1000000 1000000 x y = OrderLess
    \<and> scheduled_compare 1500000 1500000 x y = OrderEquivalent
    \<and> pq_top (pq_push 600000 x (pq_push 600000 y [])) = y"
  by (simp add: x_def y_def scheduled_compare_def scheduled_timeLeft_def to_ms_def pq_push_def pq_top_def
      scheduled_greater_def)

text \<open>An action scheduled while the watcher is between two waits starts after twice its delay: the
  watcher waits for it once, takes the end of the wait for the notification, and waits again.\<close>

theorem schedule_between_waits:
  assumes "m_watcher (sched s) = WatchTest \<or> m_watcher (sched s) = WatchLock"
    and "\<not> scheduler_isTerminating (sched s)" and "d < scheduler_timeLeft (clock s) (sched s)" and "0 \<le> d"
    and "sched s' = doSchedule (clock s) a d (sched s)" and "clock s' = clock s" and "unattended clock_max s' s''"
  shows "\<exists>new. executed s'' = executed s' @ new \<and> (\<forall>(b, t) \<in> set new. clock s + 2 * d * 1000000 \<le> t)"
proof -
  have "earliest s' = clock s + 2 * d * 1000000"
    using assms(1-6) by (auto simp: doSchedule_def Let_def scheduler_timeLeft_def notify_watcher_def earliest_def wakes_at_def)
  with not_before_earliest [OF assms(7)] show ?thesis by simp
qed

text \<open>Once the watcher has ended, \<^verbatim>\<open>schedule\<close> still accepts actions (\<open>m_done\<close> is set only when the pool
  is destroyed), but none is ever started.\<close>

theorem scheduled_after_termination:
  assumes "(sched_step clock_max spurious)\<^sup>*\<^sup>* s s'" and "m_watcher (sched s) = WatchDone"
  shows "executed s' = executed s \<and> m_watcher (sched s') = WatchDone
    \<and> set (m_scheduled_actions (sched s)) \<subseteq> set (m_scheduled_actions (sched s'))"
  using assms
proof (induction rule: rtranclp_induct)
  case (step s' s'')
  then have w: "m_watcher (sched s') = WatchDone" "executed s' = executed s"
    "set (m_scheduled_actions (sched s)) \<subseteq> set (m_scheduled_actions (sched s'))" by simp_all
  from step.hyps(2) show ?case
    by cases (use w in \<open>auto simp: doSchedule_def Let_def scheduler_doTerminate_def\<close>)
qed simp

end
