(* ===== verification/Pool_Tasks.thy ===== *)
theory Pool_Tasks
  imports Thread_Pool
begin

text \<open>
  Tasks on the thread pool: \<^verbatim>\<open>TaskExecutor::submit\<close> with
  \<^verbatim>\<open>ThreadPoolTaskExecutor::doExecute\<close>, workers that perform the actions, and threads
  that cancel tasks or ask for their results meanwhile.  The parts of
  \<^verbatim>\<open>Action::perform\<close> of different workers interleave with everything else.
  Each \<^verbatim>\<open>compare_exchange_weak\<close> may fail spuriously; \<open>weak\<close> tells whether those of \<^verbatim>\<open>perform\<close> do on
  the platform at hand (where the exchange is a single instruction they do not).
\<close>

subsection \<open>State and steps\<close>

text \<open>
  \<open>pt_pc i\<close> is the position of worker \<open>i\<close> inside \<^verbatim>\<open>perform\<close>, while it performs an action.
\<close>

record ('w, 'a) pool_tasks =
  pt_pool :: thread_pool
  pt_pc :: "nat \<Rightarrow> perform_pc"
  pt_heap :: "('w, 'a) task_heap"
  pt_world :: 'w

definition pool_tasks_new :: "nat \<Rightarrow> (nat \<Rightarrow> ('w, 'a) task_cell) \<Rightarrow> 'w \<Rightarrow> ('w, 'a) pool_tasks" where
  "pool_tasks_new n cs w =
     \<lparr>pt_pool = pool_new n, pt_pc = (\<lambda>i. Returned), pt_heap = \<lparr>cells = cs, next_cell = 0\<rparr>, pt_world = w\<rparr>"

text \<open>\<^verbatim>\<open>submit\<close>: a new task whose action is appended to the queue; \<open>j\<close> is the worker notified.\<close>

definition pool_submit :: "nat \<Rightarrow> ('w, 'a) eff \<Rightarrow> ('w, 'a) pool_tasks \<Rightarrow> task option \<times> ('w, 'a) pool_tasks" where
  "pool_submit j fn S =
     (case task_new fn (pt_heap S, pt_world S) of
        (Inr t, (h, w)) \<Rightarrow>
          (case task_action t of
             None \<Rightarrow> (None, S)
           | Some a \<Rightarrow> (Some t, S\<lparr>pt_heap := h, pt_world := w, pt_pool := pool_doExecute j a (pt_pool S)\<rparr>))
      | (Inl e, _) \<Rightarrow> (None, S))"

text \<open>
  The virtual functions of \<^verbatim>\<open>ThreadPoolTaskExecutor\<close>, for a pool that is the first part of the
  program's state: \<open>pool_submit\<close> is what the \<^verbatim>\<open>submit\<close> of the base class does with them.
\<close>

definition pool_class :: "((thread_pool \<times> 'v, 'a) task_heap \<times> (thread_pool \<times> 'v), nat) executor_class" where
  "pool_class =
     \<lparr>doExecute = (\<lambda>j a (h, (p, v)). (Inr (), (h, (pool_doExecute j a p, v)))),
      doTerminate = (\<lambda>_ (h, (p, v)). (Inr (), (h, (pool_doTerminate p, v)))),
      doTerminatingCheck = (\<lambda>_ (h, (p, v)). pool_doTerminatingCheck p)\<rparr>"

lemma pool_submit_is_submit:
  "executor_submit pool_class j fn (h, (p, v)) =
     (case pool_submit j fn \<lparr>pt_pool = p, pt_pc = pcs, pt_heap = h, pt_world = (p, v)\<rparr> of
        (t, T) \<Rightarrow> (Inr (the t), (pt_heap T, (pt_pool T, v))))"
  by (simp add: executor_submit_def pool_class_def pool_submit_def task_new_def task_action_def through_def
      eff_noexcept_def eff_bind_def eff_then_def eff_return_def Let_def)

text \<open>
  One part of \<^verbatim>\<open>perform\<close>, whose exchange fails if \<open>spurious\<close>; an exception or a fault that leaves it
  ends the program (\<open>Crashed\<close>).
\<close>

definition perform_part ::
  "bool \<Rightarrow> bool \<Rightarrow> perform_pc \<Rightarrow> ('w, 'a) task_cell \<times> 'w \<Rightarrow> perform_pc \<times> (('w, 'a) task_cell \<times> 'w)" where
  "perform_part ndebug spurious pc cw =
     (case pc of
        AtCheck \<Rightarrow> (case perform_check cw of (r, cw') \<Rightarrow> (advance AtStart Returned r, cw'))
      | AtStart \<Rightarrow> (case perform_start spurious cw of (r, cw') \<Rightarrow> (advance AtBody Returned r, cw'))
      | AtBody \<Rightarrow> (case perform_body cw of (r, cw') \<Rightarrow> (case r of Inr _ \<Rightarrow> AtFinish | Inl _ \<Rightarrow> Crashed, cw'))
      | AtFinish \<Rightarrow>
          (case perform_finish ndebug spurious cw of (r, cw') \<Rightarrow> (case r of Inr _ \<Rightarrow> Returned | Inl _ \<Rightarrow> Crashed, cw'))
      | _ \<Rightarrow> (pc, cw))"

text \<open>A step of worker \<open>i\<close>: inside \<^verbatim>\<open>perform\<close> as long as that has not returned.\<close>

definition worker_step :: "bool \<Rightarrow> bool \<Rightarrow> bool \<Rightarrow> nat \<Rightarrow> ('w, 'a) pool_tasks \<Rightarrow> ('w, 'a) pool_tasks" where
  "worker_step ndebug spurious locked i S =
     (case m_workers (pt_pool S) ! i of
        WPerform a \<Rightarrow>
          (if pt_pc S i = Returned then S\<lparr>pt_pool := worker_moves locked i (pt_pool S)\<rparr>
           else case perform_part ndebug spurious (pt_pc S i) (cells (pt_heap S) a, pt_world S) of
             (pc, (c, w)) \<Rightarrow>
               S\<lparr>pt_pc := (pt_pc S)(i := pc), pt_world := w,
                 pt_heap := (pt_heap S)\<lparr>cells := (cells (pt_heap S))(a := c)\<rparr>\<rparr>)
      | _ \<Rightarrow> S\<lparr>pt_pool := worker_moves locked i (pt_pool S), pt_pc := (pt_pc S)(i := AtCheck)\<rparr>)"

definition pool_cancel :: "bool \<Rightarrow> nat \<Rightarrow> ('w, 'a) pool_tasks \<Rightarrow> ('w, 'a) pool_tasks" where
  "pool_cancel spurious a S =
     (let c = cells (pt_heap S) a
      in S\<lparr>pt_heap := (pt_heap S)\<lparr>cells := (cells (pt_heap S))
             (a := c\<lparr>t_status := snd (state_tryCancel spurious (t_status c))\<rparr>)\<rparr>\<rparr>)"

definition pool_get :: "nat \<Rightarrow> ('w, 'a) pool_tasks \<Rightarrow> 'a outcome option \<times> ('w, 'a) pool_tasks" where
  "pool_get a S =
     (let (r, c) = awaiter_get (cells (pt_heap S) a)
      in (r, S\<lparr>pt_heap := (pt_heap S)\<lparr>cells := (cells (pt_heap S))(a := c)\<rparr>\<rparr>))"

text \<open>An operation that ends with a value or a C++ exception, whatever it finds.\<close>

definition safe_fn :: "('w, 'a) eff \<Rightarrow> bool" where
  "safe_fn fn \<longleftrightarrow> (\<forall>w. promised (fst (fn w)) \<noteq> None)"

inductive pt_step :: "bool \<Rightarrow> bool \<Rightarrow> ('w, 'a) pool_tasks \<Rightarrow> ('w, 'a) pool_tasks \<Rightarrow> bool" for ndebug weak where
  submit: "safe_fn fn \<Longrightarrow> pt_step ndebug weak S (snd (pool_submit j fn S))"
| worker: "i < length (m_workers (pt_pool S)) \<Longrightarrow> (spurious \<longrightarrow> weak) \<Longrightarrow>
    pt_step ndebug weak S (worker_step ndebug spurious locked i S)"
| cancel: "pt_step ndebug weak S (pool_cancel spurious a S)"
| get: "pt_step ndebug weak S (snd (pool_get a S))"
| wake: "pt_step ndebug weak S (S\<lparr>pt_pool := notify_one j (pt_pool S)\<rparr>)"
| terminate: "pt_step ndebug weak S (S\<lparr>pt_pool := pool_doTerminate (pt_pool S)\<rparr>)"
| shutdown: "pt_step ndebug weak S (S\<lparr>pt_pool := pool_shutdown (pt_pool S)\<rparr>)"
| elsewhere: "pt_step ndebug weak S (S\<lparr>pt_world := w\<rparr>)"

abbreviation pt_reaches where
  "pt_reaches ndebug weak \<equiv> (pt_step ndebug weak)\<^sup>*\<^sup>*"

subsection \<open>One cell\<close>

text \<open>The result is what the operation gave once, in some state of the program.\<close>

definition stored :: "('w, 'a) task_cell \<Rightarrow> bool" where
  "stored c \<longleftrightarrow> t_result c \<noteq> None \<and> (\<exists>w. t_result c = promised (fst (t_fn c w)))"

definition ran :: "('w, 'a) task_cell \<Rightarrow> bool" where
  "ran c \<longleftrightarrow> t_runs c = 1 \<and> stored c \<and> (t_status c = InProgress \<or> t_status c = Completed)"

definition not_run :: "('w, 'a) task_cell \<Rightarrow> bool" where
  "not_run c \<longleftrightarrow> t_runs c = 0 \<and> t_status c = Cancelled \<and> (t_result c = None \<or> t_result c = Some (Inl cancelled_exn))"

text \<open>Returned without having run, since the exchange to \<^verbatim>\<open>InProgress\<close> failed spuriously.\<close>

definition lost :: "('w, 'a) task_cell \<Rightarrow> bool" where
  "lost c \<longleftrightarrow> t_runs c = 0 \<and> t_status c = Created \<and> t_result c = None"

primrec part_ok :: "bool \<Rightarrow> bool \<Rightarrow> ('w, 'a) task_cell \<Rightarrow> perform_pc \<Rightarrow> bool" where
  "part_ok nd wk c AtCheck \<longleftrightarrow> t_runs c = 0 \<and> t_result c = None \<and> (t_status c = Created \<or> t_status c = Cancelled)"
| "part_ok nd wk c AtStart \<longleftrightarrow> t_runs c = 0 \<and> t_result c = None \<and> (t_status c = Created \<or> t_status c = Cancelled)"
| "part_ok nd wk c AtBody \<longleftrightarrow> t_runs c = 0 \<and> t_result c = None \<and> t_status c = InProgress"
| "part_ok nd wk c AtFinish \<longleftrightarrow> ran c \<and> t_status c = InProgress"
| "part_ok nd wk c Returned \<longleftrightarrow> ran c \<or> not_run c \<or> wk \<and> lost c"
| "part_ok nd wk c Crashed \<longleftrightarrow> wk \<and> \<not> nd \<and> ran c \<and> t_status c = InProgress"

lemma stored_updates [simp]:
  "stored (c\<lparr>t_status := s\<rparr>) = stored c"
  "stored (c\<lparr>t_retrieved := b\<rparr>) = stored c"
  by (simp_all add: stored_def)

lemma part_ok_runs: "part_ok nd wk c pc \<Longrightarrow> t_runs c \<le> 1"
  by (cases pc) (auto simp: ran_def not_run_def lost_def)

lemma part_ok_perform:
  assumes "part_ok nd wk c pc" and "safe_fn (t_fn c)" and "sp \<longrightarrow> wk"
    and "perform_part nd sp pc (c, w) = (pc', (c', w'))"
  shows "part_ok nd wk c' pc' \<and> t_fn c' = t_fn c"
proof (cases pc)
  case AtCheck
  with assms show ?thesis
    by (cases "t_status c = Cancelled")
      (auto simp: perform_part_def perform_check_cases advance_def not_run_def)
next
  case AtStart
  with assms show ?thesis
    by (auto simp: perform_part_def perform_start_cases advance_def not_run_def lost_def split: if_splits)
next
  case AtBody
  obtain r v where r: "t_fn c w = (r, v)" by (rule prod.exhaust)
  have p: "promised r \<noteq> None" using assms(2) r unfolding safe_fn_def by (metis fst_conv)
  have "t_result c = None" using assms(1) AtBody by simp
  from perform_body_empty [OF this r p] AtBody assms p r show ?thesis
    by (auto simp: perform_part_def ran_def stored_def intro!: exI [of _ w])
next
  case AtFinish
  with assms show ?thesis
    by (cases nd; cases sp) (auto simp: perform_part_def perform_finish_def cas_defs ran_def)
qed (use assms in \<open>auto simp: perform_part_def\<close>)

lemma part_ok_cancel:
  "part_ok nd wk c pc \<Longrightarrow> part_ok nd wk (c\<lparr>t_status := snd (state_tryCancel spurious (t_status c))\<rparr>) pc"
  by (cases pc) (auto simp: status_of_cancel ran_def not_run_def lost_def)

lemma awaiter_get_cell: "snd (awaiter_get c) = c \<or> snd (awaiter_get c) = c\<lparr>t_retrieved := True\<rparr>"
  by (auto simp: awaiter_get_def split: option.split sum.split)

lemma part_ok_get: "part_ok nd wk (snd (awaiter_get c)) pc = part_ok nd wk c pc"
  by (rule disjE [OF awaiter_get_cell [of c]]; cases pc; simp add: ran_def not_run_def lost_def)

declare part_ok.simps [simp del]

subsection \<open>Where the actions are\<close>

text \<open>
  The queue \<open>Q\<close>, the actions in the hands of the workers (\<open>H i a\<close>) with their positions,
  and the \<open>n\<close> cells: an action waits in the queue, is with exactly one worker, or is
  nowhere any more, and its cell is right for that.
\<close>

definition placed ::
  "bool \<Rightarrow> bool \<Rightarrow> nat list \<Rightarrow> (nat \<Rightarrow> nat \<Rightarrow> bool) \<Rightarrow> (nat \<Rightarrow> perform_pc) \<Rightarrow> (nat \<Rightarrow> ('w, 'a) task_cell) \<Rightarrow> nat \<Rightarrow> bool" where
  "placed nd wk Q H pcs cs n \<longleftrightarrow>
     distinct Q
     \<and> (\<forall>a \<in> set Q. a < n \<and> part_ok nd wk (cs a) AtCheck)
     \<and> (\<forall>i a. H i a \<longrightarrow> a < n \<and> a \<notin> set Q \<and> part_ok nd wk (cs a) (pcs i) \<and> (\<forall>j b. H j b \<longrightarrow> (i = j) = (a = b)))
     \<and> (\<forall>a < n. a \<notin> set Q \<and> (\<forall>i. \<not> H i a) \<longrightarrow> part_ok nd wk (cs a) Returned)
     \<and> (\<forall>a < n. safe_fn (t_fn (cs a)))"

lemma placed_perm:
  assumes "mset Q = mset Q'"
  shows "placed nd wk Q H pcs cs n \<longleftrightarrow> placed nd wk Q' H pcs cs n"
  unfolding placed_def mset_eq_imp_distinct_iff [OF assms] mset_eq_setD [OF assms] by (rule refl)

lemma placed_cell:
  assumes "placed nd wk Q H pcs cs n" and "\<And>pc. part_ok nd wk (cs a) pc \<Longrightarrow> part_ok nd wk c pc" and "t_fn c = t_fn (cs a)"
  shows "placed nd wk Q H pcs (cs(a := c)) n"
  using assms unfolding placed_def by auto

lemma placed_push:
  assumes "placed nd wk Q H pcs cs n" and "safe_fn fn"
  shows "placed nd wk (Q @ [n]) H pcs (cs(n := action_create fn)) (Suc n)"
proof -
  have "part_ok nd wk (action_create fn) AtCheck" "t_fn (action_create fn) = fn"
    by (simp_all add: action_create_def part_ok.simps)
  with assms show ?thesis unfolding placed_def by (auto simp: less_Suc_eq)
qed

lemma placed_take:
  assumes "placed nd wk (a # Q) H pcs cs n" and "\<And>b. \<not> H i b"
  shows "placed nd wk Q (\<lambda>j b. if j = i then b = a else H j b) (pcs(i := AtCheck)) cs n"
  using assms unfolding placed_def by (auto; metis)

lemma placed_perform:
  assumes "placed nd wk Q H pcs cs n" and "H i a" and "part_ok nd wk c pc" and "t_fn c = t_fn (cs a)"
  shows "placed nd wk Q H (pcs(i := pc)) (cs(a := c)) n"
  using assms unfolding placed_def by auto

lemma placed_leave:
  assumes "placed nd wk Q H pcs cs n" and "pcs i = Returned"
  shows "placed nd wk Q (\<lambda>j b. j \<noteq> i \<and> H j b) pcs cs n"
  using assms unfolding placed_def by (auto; metis)

lemma placed_position:
  "placed nd wk Q H pcs cs n \<Longrightarrow> (\<And>b. \<not> H i b) \<Longrightarrow> placed nd wk Q H (pcs(i := pc)) cs n"
  unfolding placed_def by auto

subsection \<open>Reachable states\<close>

definition in_hand_of :: "thread_pool \<Rightarrow> nat \<Rightarrow> nat \<Rightarrow> bool" where
  "in_hand_of p i a \<longleftrightarrow> i < length (m_workers p) \<and> m_workers p ! i = WPerform a"

text \<open>\<open>R\<close>: actions that wait elsewhere, to be handed to the pool.\<close>

definition pt_inv :: "bool \<Rightarrow> bool \<Rightarrow> nat list \<Rightarrow> ('w, 'a) pool_tasks \<Rightarrow> bool" where
  "pt_inv nd wk R S \<longleftrightarrow>
     placed nd wk (m_actions (pt_pool S) @ R) (in_hand_of (pt_pool S)) (pt_pc S) (cells (pt_heap S)) (next_cell (pt_heap S))"

lemma wake_performs [simp]: "wake pc = WPerform a \<longleftrightarrow> pc = WPerform a"
  by (simp add: wake_def)

lemma nth_wake: "i < length xs \<Longrightarrow> xs[j := wake (xs ! j)] ! i = WPerform a \<longleftrightarrow> xs ! i = WPerform a"
  by (cases "j = i") simp_all

lemma in_hand_pool_changes [simp]:
  "in_hand_of (notify_one j p) = in_hand_of p" "in_hand_of (notify_all p) = in_hand_of p"
  "in_hand_of (p\<lparr>m_done := b\<rparr>) = in_hand_of p" "in_hand_of (p\<lparr>m_actions := q\<rparr>) = in_hand_of p"
  by (auto simp: in_hand_of_def notify_one_def notify_all_def nth_wake fun_eq_iff)

lemma actions_pool_changes [simp]:
  "m_actions (notify_one j p) = m_actions p" "m_actions (notify_all p) = m_actions p"
  by (simp_all add: notify_one_def notify_all_def)

lemma pt_inv_new: "pt_inv nd wk [] (pool_tasks_new n cs w)"
  by (simp add: pt_inv_def pool_tasks_new_def placed_def pool_new_def in_hand_of_def)

lemma pt_inv_submit:
  assumes "pt_inv nd wk R S" and "safe_fn fn"
  shows "pt_inv nd wk R (snd (pool_submit j fn S))"
  using placed_perm [THEN iffD1, OF _ placed_push [OF assms [unfolded pt_inv_def]],
      of "m_actions (pt_pool S) @ next_cell (pt_heap S) # R"]
  by (simp add: pt_inv_def pool_submit_def task_new_def task_action_def pool_doExecute_def Let_def)

text \<open>A worker outside \<^verbatim>\<open>perform\<close> takes the first action of the queue, or no action.\<close>

lemma worker_moves_outside:
  assumes "i < length (m_workers p)" and "\<And>b. m_workers p ! i \<noteq> WPerform b"
  shows "(m_actions (worker_moves locked i p) = m_actions p \<and> in_hand_of (worker_moves locked i p) = in_hand_of p)
    \<or> (\<exists>a. m_actions p = a # m_actions (worker_moves locked i p)
         \<and> in_hand_of (worker_moves locked i p) = (\<lambda>j b. if j = i then b = a else in_hand_of p j b))"
  using assms
  by (cases "m_workers p ! i"; cases "m_actions p"; cases locked)
    (auto simp: worker_moves_def in_hand_of_def fun_eq_iff nth_list_update)

lemma worker_moves_returns:
  assumes "i < length (m_workers p)" and "m_workers p ! i = WPerform a"
  shows "m_actions (worker_moves locked i p) = m_actions p
    \<and> in_hand_of (worker_moves locked i p) = (\<lambda>j b. j \<noteq> i \<and> in_hand_of p j b)"
  using assms by (auto simp: worker_moves_def in_hand_of_def fun_eq_iff nth_list_update)

lemma pt_inv_worker:
  assumes "pt_inv nd wk R S" and i: "i < length (m_workers (pt_pool S))" and sp: "sp \<longrightarrow> wk"
  shows "pt_inv nd wk R (worker_step nd sp locked i S)"
proof (cases "\<exists>a. m_workers (pt_pool S) ! i = WPerform a")
  case False
  let ?p = "pt_pool S" and ?q = "worker_moves locked i (pt_pool S)"
  have none: "\<not> in_hand_of ?p i b" for b using False by (simp add: in_hand_of_def)
  have step: "worker_step nd sp locked i S = S\<lparr>pt_pool := ?q, pt_pc := (pt_pc S)(i := AtCheck)\<rparr>"
    using False by (cases "m_workers ?p ! i") (auto simp: worker_step_def)
  consider (same) "m_actions ?q = m_actions ?p" "in_hand_of ?q = in_hand_of ?p"
    | (took) a where "m_actions ?p = a # m_actions ?q"
        "in_hand_of ?q = (\<lambda>j b. if j = i then b = a else in_hand_of ?p j b)"
    using worker_moves_outside [OF i, of locked] False by blast
  then show ?thesis
  proof cases
    case same
    with placed_position [OF assms(1) [unfolded pt_inv_def] none] show ?thesis
      by (simp add: pt_inv_def step)
  next
    case took
    from assms(1) took(1) have "placed nd wk (a # m_actions ?q @ R) (in_hand_of ?p) (pt_pc S) (cells (pt_heap S)) (next_cell (pt_heap S))"
      by (simp add: pt_inv_def)
    then have "placed nd wk (m_actions ?q @ R) (in_hand_of ?q) ((pt_pc S)(i := AtCheck)) (cells (pt_heap S)) (next_cell (pt_heap S))"
      unfolding took(2) using none by (intro placed_take) simp_all
    then show ?thesis by (simp add: pt_inv_def step)
  qed
next
  case True
  then obtain a where a: "m_workers (pt_pool S) ! i = WPerform a" by blast
  then have hand: "in_hand_of (pt_pool S) i a" using i by (simp add: in_hand_of_def)
  show ?thesis
  proof (cases "pt_pc S i = Returned")
    case True
    with worker_moves_returns [OF i a, of locked] placed_leave [OF assms(1) [unfolded pt_inv_def] True] a
    show ?thesis by (simp add: pt_inv_def worker_step_def)
  next
    case False
    obtain pc c w where part: "perform_part nd sp (pt_pc S i) (cells (pt_heap S) a, pt_world S) = (pc, (c, w))"
      by (rule prod_cases3)
    have "part_ok nd wk (cells (pt_heap S) a) (pt_pc S i)" "safe_fn (t_fn (cells (pt_heap S) a))"
      using assms(1) hand unfolding pt_inv_def placed_def by auto
    from part_ok_perform [OF this sp part] placed_perform [OF assms(1) [unfolded pt_inv_def] hand] a False part
    show ?thesis by (simp add: pt_inv_def worker_step_def)
  qed
qed

lemma pt_step_inv: "pt_step nd wk S S' \<Longrightarrow> pt_inv nd wk R S \<Longrightarrow> pt_inv nd wk R S'"
proof (induction rule: pt_step.induct)
  case (submit fn S j)
  then show ?case by (rule pt_inv_submit [rotated])
next
  case (worker i S spurious locked)
  then show ?case using pt_inv_worker by blast
next
  case (cancel S spurious a)
  then show ?case
    using placed_cell [OF _ part_ok_cancel, of _ _ _ _ _ "cells (pt_heap S)" _ a]
    by (simp add: pt_inv_def pool_cancel_def Let_def)
next
  case (get S a)
  have "t_fn (snd (awaiter_get (cells (pt_heap S) a))) = t_fn (cells (pt_heap S) a)"
    using awaiter_get_cell [of "cells (pt_heap S) a"] by auto
  then show ?case
    using get placed_cell [of _ _ _ _ _ "cells (pt_heap S)" _ a "snd (awaiter_get (cells (pt_heap S) a))"]
    by (simp add: pt_inv_def pool_get_def split_def Let_def part_ok_get)
qed (simp_all add: pt_inv_def pool_doTerminate_def pool_shutdown_def)

interpretation pts: stable "pt_step nd wk" "pt_inv nd wk R"
  by unfold_locales (rule pt_step_inv)

subsection \<open>A worker left alone\<close>

text \<open>An action that is nowhere any more: run, or cancelled before it ran, or lost.\<close>

lemma settled:
  assumes "pt_inv nd wk R S" and "a < next_cell (pt_heap S)" and "a \<notin> set (m_actions (pt_pool S))" and "a \<notin> set R"
    and "\<forall>i < length (m_workers (pt_pool S)). m_workers (pt_pool S) ! i \<noteq> WPerform a"
  shows "part_ok nd wk (cells (pt_heap S) a) Returned"
  using assms unfolding pt_inv_def placed_def in_hand_of_def by simp

primrec stage :: "perform_pc \<Rightarrow> nat" where
  "stage AtCheck = 5" | "stage AtStart = 4" | "stage AtBody = 3" | "stage AtFinish = 2"
| "stage Returned = 1" | "stage Crashed = 0"

lemma stage_0 [simp]: "stage pc = 0 \<longleftrightarrow> pc = Crashed" "0 < stage pc \<longleftrightarrow> pc \<noteq> Crashed"
  by (cases pc; simp)+

text \<open>The steps worker \<open>i\<close> needs at most until the queue is empty.\<close>

definition steps_left :: "nat \<Rightarrow> ('w, 'a) pool_tasks \<Rightarrow> nat" where
  "steps_left i S = 6 * length (m_actions (pt_pool S))
     + (case m_workers (pt_pool S) ! i of WPerform a \<Rightarrow> stage (pt_pc S i) | _ \<Rightarrow> 0)"

definition busy :: "nat \<Rightarrow> ('w, 'a) pool_tasks \<Rightarrow> bool" where
  "busy i S \<longleftrightarrow> i < length (m_workers (pt_pool S))
     \<and> (m_workers (pt_pool S) ! i = WDrain \<or> (\<exists>a. m_workers (pt_pool S) ! i = WPerform a))"

lemma perform_part_stage:
  assumes "part_ok nd wk c pc" and "safe_fn (t_fn c)" and "pc \<noteq> Returned" and "pc \<noteq> Crashed" and "sp \<longrightarrow> wk \<and> nd"
    and "perform_part nd sp pc (c, w) = (pc', (c', w'))"
  shows "stage pc' < stage pc \<and> pc' \<noteq> Crashed"
proof (cases pc)
  case AtCheck
  with assms show ?thesis
    by (cases "t_status c = Cancelled") (auto simp: perform_part_def perform_check_cases advance_def part_ok.simps)
next
  case AtStart
  with assms show ?thesis
    by (auto simp: perform_part_def perform_start_cases advance_def part_ok.simps split: if_splits)
next
  case AtBody
  obtain r v where r: "t_fn c w = (r, v)" by (rule prod.exhaust)
  have p: "promised r \<noteq> None" using assms(2) r unfolding safe_fn_def by (metis fst_conv)
  have "t_result c = None" using assms(1) AtBody by (simp add: part_ok.simps)
  from perform_body_empty [OF this r p] AtBody assms(6) show ?thesis by (auto simp: perform_part_def)
next
  case AtFinish
  with assms show ?thesis
    by (cases nd; cases sp) (auto simp: perform_part_def perform_finish_def cas_defs part_ok.simps)
qed (use assms in simp_all)

lemma worker_step_busy:
  assumes "pt_inv nd wk [] S" and "busy i S" and "steps_left i S > 0" and "pt_pc S i \<noteq> Crashed" and sp: "sp \<longrightarrow> wk \<and> nd"
  shows "busy i (worker_step nd sp False i S) \<and> steps_left i (worker_step nd sp False i S) < steps_left i S
    \<and> pt_pc (worker_step nd sp False i S) i \<noteq> Crashed
    \<and> next_cell (pt_heap (worker_step nd sp False i S)) = next_cell (pt_heap S)
    \<and> (\<forall>j. j \<noteq> i \<longrightarrow> m_workers (pt_pool (worker_step nd sp False i S)) ! j = m_workers (pt_pool S) ! j)
    \<and> length (m_workers (pt_pool (worker_step nd sp False i S))) = length (m_workers (pt_pool S))"
proof (cases "m_workers (pt_pool S) ! i")
  case WDrain
  with assms(3) obtain a q where "m_actions (pt_pool S) = a # q"
    by (cases "m_actions (pt_pool S)") (auto simp: steps_left_def)
  with WDrain assms(2) show ?thesis
    by (auto simp: worker_step_def worker_moves_def busy_def steps_left_def)
next
  case (WPerform a)
  have i: "i < length (m_workers (pt_pool S))" using assms(2) by (simp add: busy_def)
  then have "in_hand_of (pt_pool S) i a" using WPerform by (simp add: in_hand_of_def)
  then have ok: "part_ok nd wk (cells (pt_heap S) a) (pt_pc S i)" "safe_fn (t_fn (cells (pt_heap S) a))"
    using assms(1) unfolding pt_inv_def placed_def by auto
  show ?thesis
  proof (cases "pt_pc S i = Returned")
    case True
    with WPerform i show ?thesis
      by (auto simp: worker_step_def worker_moves_def busy_def steps_left_def)
  next
    case False
    obtain pc c w where part: "perform_part nd sp (pt_pc S i) (cells (pt_heap S) a, pt_world S) = (pc, (c, w))"
      by (rule prod_cases3)
    with perform_part_stage [OF ok False assms(4) sp part] WPerform False i show ?thesis
      by (simp add: worker_step_def busy_def steps_left_def)
  qed
qed (use assms(2) in \<open>simp_all add: busy_def\<close>)

text \<open>\<open>sps\<close>: which of the steps meet a spurious failure.\<close>

definition worker_steps :: "bool \<Rightarrow> nat \<Rightarrow> bool list \<Rightarrow> ('w, 'a) pool_tasks \<Rightarrow> ('w, 'a) pool_tasks" where
  "worker_steps ndebug i sps = fold (\<lambda>spurious. worker_step ndebug spurious False i) sps"

lemma worker_steps_simps [simp]:
  "worker_steps ndebug i [] S = S"
  "worker_steps ndebug i (sp # sps) S = worker_steps ndebug i sps (worker_step ndebug sp False i S)"
  by (simp_all add: worker_steps_def)

lemma worker_drains:
  assumes "pt_inv nd wk [] S" and "busy i S" and "pt_pc S i \<noteq> Crashed"
    and "steps_left i S \<le> length sps" and "True \<in> set sps \<longrightarrow> wk \<and> nd"
  shows "\<exists>k \<le> steps_left i S. \<exists>T. T = worker_steps nd i (take k sps) S \<and> pt_inv nd wk [] T
    \<and> m_actions (pt_pool T) = [] \<and> m_workers (pt_pool T) ! i = WDrain
    \<and> next_cell (pt_heap T) = next_cell (pt_heap S)
    \<and> (\<forall>j. j \<noteq> i \<longrightarrow> m_workers (pt_pool T) ! j = m_workers (pt_pool S) ! j)
    \<and> length (m_workers (pt_pool T)) = length (m_workers (pt_pool S))"
  using assms
proof (induction sps arbitrary: S)
  case Nil
  then have "m_actions (pt_pool S) = []" "\<And>a. m_workers (pt_pool S) ! i = WPerform a \<Longrightarrow> pt_pc S i = Crashed"
    by (auto simp: steps_left_def)
  with Nil.prems show ?case by (auto simp: busy_def)
next
  case (Cons sp sps)
  let ?T = "worker_step nd sp False i S"
  have i: "i < length (m_workers (pt_pool S))" using Cons.prems(2) by (simp add: busy_def)
  have sp: "sp \<longrightarrow> wk \<and> nd" "sp \<longrightarrow> wk" using Cons.prems(5) by auto
  show ?case
  proof (cases "steps_left i S = 0")
    case True
    then have "m_workers (pt_pool S) ! i = WDrain"
      using Cons.prems(2,3) by (auto simp: steps_left_def busy_def)
    with True Cons.prems(1) show ?thesis by (intro exI [of _ 0]) (simp add: steps_left_def)
  next
    case False
    note step = worker_step_busy [OF Cons.prems(1,2) _ Cons.prems(3) sp(1)]
    have inv: "pt_inv nd wk [] ?T" by (rule pt_inv_worker [OF Cons.prems(1) i sp(2)])
    from Cons.IH [of ?T] step inv False Cons.prems(4,5) obtain k T where k: "k \<le> steps_left i ?T" "T = worker_steps nd i (take k sps) ?T"
      "pt_inv nd wk [] T" "m_actions (pt_pool T) = []" "m_workers (pt_pool T) ! i = WDrain"
      "next_cell (pt_heap T) = next_cell (pt_heap S)"
      "\<forall>j. j \<noteq> i \<longrightarrow> m_workers (pt_pool T) ! j = m_workers (pt_pool S) ! j"
      "length (m_workers (pt_pool T)) = length (m_workers (pt_pool S))"
      by auto
    have "worker_steps nd i (take (Suc k) (sp # sps)) S = T" by (simp add: k(2))
    with k step False show ?thesis by (intro exI [of _ "Suc k"]) auto
  qed
qed

lemma worker_settles:
  assumes "pt_inv nd wk [] S" and "busy i S" and "pt_pc S i \<noteq> Crashed"
    and "6 * length (m_actions (pt_pool S)) + 5 \<le> length sps" and "True \<in> set sps \<longrightarrow> wk \<and> nd"
  shows "\<exists>k \<le> 6 * length (m_actions (pt_pool S)) + 5. \<exists>T. T = worker_steps nd i (take k sps) S
    \<and> m_actions (pt_pool T) = [] \<and> m_workers (pt_pool T) ! i = WDrain
    \<and> next_cell (pt_heap T) = next_cell (pt_heap S)
    \<and> (\<forall>a < next_cell (pt_heap S).
         (\<exists>j < length (m_workers (pt_pool S)). j \<noteq> i \<and> m_workers (pt_pool S) ! j = WPerform a)
         \<or> t_status (cells (pt_heap T) a) = Cancelled \<or> t_result (cells (pt_heap T) a) \<noteq> None
         \<or> wk \<and> lost (cells (pt_heap T) a))"
proof -
  have "stage pc \<le> 5" for pc by (cases pc) simp_all
  then have bound: "steps_left i S \<le> 6 * length (m_actions (pt_pool S)) + 5"
    by (auto simp: steps_left_def split: worker_pc.splits)
  obtain k T where k: "k \<le> steps_left i S" "T = worker_steps nd i (take k sps) S" "pt_inv nd wk [] T"
    "m_actions (pt_pool T) = []" "m_workers (pt_pool T) ! i = WDrain"
    "next_cell (pt_heap T) = next_cell (pt_heap S)"
    "\<forall>j. j \<noteq> i \<longrightarrow> m_workers (pt_pool T) ! j = m_workers (pt_pool S) ! j"
    "length (m_workers (pt_pool T)) = length (m_workers (pt_pool S))"
    using worker_drains [OF assms(1-3) order_trans [OF bound assms(4)] assms(5)] by blast
  have "t_status (cells (pt_heap T) a) = Cancelled \<or> t_result (cells (pt_heap T) a) \<noteq> None \<or> wk \<and> lost (cells (pt_heap T) a)"
    if "a < next_cell (pt_heap S)" and others: "\<not> (\<exists>j < length (m_workers (pt_pool S)). j \<noteq> i \<and> m_workers (pt_pool S) ! j = WPerform a)" for a
  proof -
    have "m_workers (pt_pool T) ! j \<noteq> WPerform a" if "j < length (m_workers (pt_pool T))" for j
      using others that k(5,7,8) by (cases "j = i") auto
    then have "part_ok nd wk (cells (pt_heap T) a) Returned"
      using settled [OF k(3), of a] \<open>a < next_cell (pt_heap S)\<close> k(4,6) by simp
    then show ?thesis by (auto simp: part_ok.simps ran_def not_run_def stored_def)
  qed
  moreover have "k \<le> 6 * length (m_actions (pt_pool S)) + 5" using k(1) bound by simp
  ultimately show ?thesis using k by blast
qed

subsection \<open>Properties\<close>


text \<open>One worker and one task, up to the return of its action.\<close>

definition demo_submitted :: "(nat, nat) pool_tasks" where
  "demo_submitted =
     snd (pool_submit 0 (\<lambda>v. (Inr (v + 1), v)) (pool_tasks_new 1 (\<lambda>a. action_create (\<lambda>v. (Inr 0, v))) 41))"

definition demo_completed :: "(nat, nat) pool_tasks" where
  "demo_completed = (worker_step False False False 0 ^^ 9) demo_submitted"

lemma workers_length: "length (m_workers (pt_pool (worker_step ndebug spurious locked i S))) = length (m_workers (pt_pool S))"
proof -
  have "length (m_workers (worker_moves locked i p)) = length (m_workers p)" for p
    by (cases "m_workers p ! i"; cases "m_actions p"; cases locked) (simp_all add: worker_moves_def)
  then show ?thesis
    by (cases "m_workers (pt_pool S) ! i") (simp_all add: worker_step_def split: prod.split)
qed

lemma reaches_worker_steps:
  "0 < length (m_workers (pt_pool S)) \<Longrightarrow>
     pt_reaches ndebug weak S ((worker_step ndebug False locked 0 ^^ k) S)
     \<and> 0 < length (m_workers (pt_pool ((worker_step ndebug False locked 0 ^^ k) S)))"
proof (induction k)
  case (Suc k)
  let ?T = "(worker_step ndebug False locked 0 ^^ k) S"
  have reach: "pt_reaches ndebug weak S ?T" and len: "0 < length (m_workers (pt_pool ?T))"
    using Suc by simp_all
  have "pt_step ndebug weak ?T (worker_step ndebug False locked 0 ?T)"
    by (rule pt_step.worker [OF len]) simp
  with reach have "pt_reaches ndebug weak S (worker_step ndebug False locked 0 ?T)"
    by (rule rtranclp.rtrancl_into_rtrancl)
  with len show ?case by (simp add: workers_length)
qed simp

lemma demo_steps:
  "pt_reaches False weak (pool_tasks_new 1 (\<lambda>a. action_create (\<lambda>v. (Inr 0, v))) 41)
     ((worker_step False False False 0 ^^ k) demo_submitted)
   \<and> 0 < length (m_workers (pt_pool ((worker_step False False False 0 ^^ k) demo_submitted)))"
proof -
  have "pt_step False weak (pool_tasks_new 1 (\<lambda>a. action_create (\<lambda>v. (Inr 0, v))) 41) demo_submitted"
    unfolding demo_submitted_def by (rule pt_step.submit) (simp add: safe_fn_def promised_def)
  moreover have "0 < length (m_workers (pt_pool demo_submitted))"
    by (simp add: demo_submitted_def pool_submit_def task_new_def task_action_def pool_doExecute_def
        notify_one_def pool_tasks_new_def pool_new_def Let_def)
  ultimately show ?thesis
    using reaches_worker_steps by (meson converse_rtranclp_into_rtranclp)
qed

lemma demo_completed:
  "pt_reaches False weak (pool_tasks_new 1 (\<lambda>a. action_create (\<lambda>v. (Inr 0, v))) 41) demo_completed"
  unfolding demo_completed_def by (rule conjunct1 [OF demo_steps])

lemma demo_completed_state:
  "next_cell (pt_heap demo_completed) = 1 \<and> m_actions (pt_pool demo_completed) = []
   \<and> m_workers (pt_pool demo_completed) = [WDrain]
   \<and> t_status (cells (pt_heap demo_completed) 0) = Completed
   \<and> \<not> t_retrieved (cells (pt_heap demo_completed) 0)
   \<and> t_result (cells (pt_heap demo_completed) 0) = Some (Inr 42)"
  by (simp add: demo_completed_def demo_submitted_def eval_nat_numeral pool_submit_def task_new_def task_action_def
      pool_doExecute_def notify_one_def pool_tasks_new_def pool_new_def Let_def worker_step_def worker_moves_def
      wake_def perform_part_def perform_check_def perform_start_cases perform_body_def perform_finish_def
      action_create_def state_isCancelled_def advance_def eff_bind_def eff_then_def in_world_def get_local_def
      set_local_def eff_catch_any_def set_promise_def cas_defs)


text \<open>The loss is real: the worker of the example takes the action, the exchange to \<^verbatim>\<open>InProgress\<close> fails
  spuriously, and the task is gone from queue and worker, not cancelled and without a result.\<close>

definition demo_lost :: "(nat, nat) pool_tasks" where
  "demo_lost = worker_step False False False 0 (worker_step False True False 0
     ((worker_step False False False 0 ^^ 5) demo_submitted))"

lemma demo_lost_state:
  "next_cell (pt_heap demo_lost) = 1 \<and> m_actions (pt_pool demo_lost) = [] \<and> m_workers (pt_pool demo_lost) = [WDrain]
   \<and> t_runs (cells (pt_heap demo_lost) 0) = 0 \<and> t_status (cells (pt_heap demo_lost) 0) = Created
   \<and> t_result (cells (pt_heap demo_lost) 0) = None"
  by (simp add: demo_lost_def demo_submitted_def eval_nat_numeral pool_submit_def task_new_def task_action_def
      pool_doExecute_def notify_one_def pool_tasks_new_def pool_new_def Let_def worker_step_def worker_moves_def
      wake_def perform_part_def perform_check_def perform_start_cases perform_body_def perform_finish_def
      action_create_def state_isCancelled_def advance_def eff_bind_def eff_then_def in_world_def get_local_def
      set_local_def eff_catch_any_def set_promise_def cas_defs)

theorem spurious_failure_loses_task:
  "\<exists>S :: (nat, nat) pool_tasks. pt_reaches False True (pool_tasks_new 1 (\<lambda>a. action_create (\<lambda>v. (Inr 0, v))) 41) S
     \<and> next_cell (pt_heap S) = 1 \<and> m_actions (pt_pool S) = [] \<and> m_workers (pt_pool S) = [WDrain]
     \<and> lost (cells (pt_heap S) 0)"
proof -
  let ?S = "(worker_step False False False 0 ^^ 5) demo_submitted"
  have reach: "pt_reaches False True (pool_tasks_new 1 (\<lambda>a. action_create (\<lambda>v. (Inr 0, v))) 41) ?S"
    and len: "0 < length (m_workers (pt_pool ?S))" using demo_steps [of True 5] by blast+
  have "pt_step False True ?S (worker_step False True False 0 ?S)" by (rule pt_step.worker [OF len]) blast
  moreover have "0 < length (m_workers (pt_pool (worker_step False True False 0 ?S)))"
    unfolding workers_length by (rule len)
  then have "pt_step False True (worker_step False True False 0 ?S) demo_lost"
    unfolding demo_lost_def by (rule pt_step.worker) blast
  ultimately have "pt_reaches False True (pool_tasks_new 1 (\<lambda>a. action_create (\<lambda>v. (Inr 0, v))) 41) demo_lost"
    using reach by (meson rtranclp.rtrancl_into_rtrancl)
  with demo_lost_state show ?thesis unfolding lost_def by (intro exI [of _ demo_lost] conjI) simp_all
qed

text \<open>Progress: from any reachable state, a worker that is busy and left alone finds the queue
  empty after at most six steps for each queued action and five for the one in hand, and then every task
  that no other worker has in hand is cancelled, has its result, or was lost to a spurious failure.  The
  failures come where \<open>sps\<close> says, in builds with \<^verbatim>\<open>NDEBUG\<close> only, where none ends the program.\<close>

theorem worker_completes_queue:
  assumes "pt_reaches ndebug weak (pool_tasks_new n cs w) S" and "busy i S" and "pt_pc S i \<noteq> Crashed"
    and "6 * length (m_actions (pt_pool S)) + 5 \<le> length sps" and "True \<in> set sps \<longrightarrow> weak \<and> ndebug"
  shows "\<exists>k \<le> 6 * length (m_actions (pt_pool S)) + 5. \<exists>T. T = worker_steps ndebug i (take k sps) S
    \<and> m_actions (pt_pool T) = [] \<and> m_workers (pt_pool T) ! i = WDrain
    \<and> next_cell (pt_heap T) = next_cell (pt_heap S)
    \<and> (\<forall>a < next_cell (pt_heap S).
         (\<exists>j < length (m_workers (pt_pool S)). j \<noteq> i \<and> m_workers (pt_pool S) ! j = WPerform a)
         \<or> t_status (cells (pt_heap T) a) = Cancelled \<or> t_result (cells (pt_heap T) a) \<noteq> None
         \<or> weak \<and> lost (cells (pt_heap T) a))"
  by (rule worker_settles [OF pts.stays [OF assms(1) pt_inv_new] assms(2-5)])

text \<open>The worker above, when it has just taken its place at the queue.\<close>

definition demo_draining :: "(nat, nat) pool_tasks" where
  "demo_draining = (worker_step False False False 0 ^^ 3) demo_submitted"

lemma demo_draining:
  "pt_reaches False weak (pool_tasks_new 1 (\<lambda>a. action_create (\<lambda>v. (Inr 0, v))) 41) demo_draining"
  "busy 0 demo_draining" "next_cell (pt_heap demo_draining) = 1" "m_actions (pt_pool demo_draining) = [0]"
  "m_workers (pt_pool demo_draining) = [WDrain]" "pt_pc demo_draining 0 \<noteq> Crashed"
proof -
  show "pt_reaches False weak (pool_tasks_new 1 (\<lambda>a. action_create (\<lambda>v. (Inr 0, v))) 41) demo_draining"
    unfolding demo_draining_def by (rule conjunct1 [OF demo_steps])
  show "busy 0 demo_draining" "next_cell (pt_heap demo_draining) = 1" "m_actions (pt_pool demo_draining) = [0]"
    "m_workers (pt_pool demo_draining) = [WDrain]" "pt_pc demo_draining 0 \<noteq> Crashed"
    by (simp_all add: busy_def demo_draining_def demo_submitted_def eval_nat_numeral pool_submit_def task_new_def
        task_action_def pool_doExecute_def notify_one_def pool_tasks_new_def pool_new_def Let_def worker_step_def
        worker_moves_def wake_def)
qed

theorem worker_completes_queue_witness:
  "\<exists>k \<le> 11. let c = cells (pt_heap (worker_steps False 0 (take k (replicate 11 False)) demo_draining)) 0
     in t_status c = Cancelled \<or> t_result c \<noteq> None"
proof -
  define sps where "sps = replicate 11 False"
  have "6 * length (m_actions (pt_pool demo_draining)) + 5 \<le> length sps" "True \<in> set sps \<longrightarrow> False \<and> False"
    by (simp_all add: sps_def demo_draining(4))
  from worker_completes_queue [OF demo_draining(1) [of False] demo_draining(2,6) this]
  obtain k where k: "k \<le> 6 * length (m_actions (pt_pool demo_draining)) + 5"
    "\<forall>a < next_cell (pt_heap demo_draining).
         (\<exists>j < length (m_workers (pt_pool demo_draining)). j \<noteq> 0 \<and> m_workers (pt_pool demo_draining) ! j = WPerform a)
         \<or> t_status (cells (pt_heap (worker_steps False 0 (take k sps) demo_draining)) a) = Cancelled
         \<or> t_result (cells (pt_heap (worker_steps False 0 (take k sps) demo_draining)) a) \<noteq> None
         \<or> False \<and> lost (cells (pt_heap (worker_steps False 0 (take k sps) demo_draining)) a)"
    by blast
  then show ?thesis unfolding sps_def [symmetric] demo_draining(3-5) Let_def by (intro exI [of _ k]) simp
qed

end
