(* ===== verification/Scheduled_Tasks.thy ===== *)
theory Scheduled_Tasks
  imports Scheduler_Timing Pool_Tasks
begin

text \<open>
  The whole of \<^verbatim>\<open>TaskScheduler\<close>: \<^verbatim>\<open>schedule\<close> creates a task and files its action, the watcher hands
  the action to the pool it inherits from, a worker performs it, and the task keeps the
  result; other threads submit tasks directly, cancel, and ask for results meanwhile.
\<close>

subsection \<open>State and steps\<close>

record ('w, 'a) sched_tasks =
  st_sys :: sched_system
  st_pc :: "nat \<Rightarrow> perform_pc"
  st_heap :: "('w, 'a) task_heap"
  st_world :: 'w

definition sched_tasks_new ::
  "nat \<Rightarrow> int \<Rightarrow> int \<Rightarrow> (nat \<Rightarrow> ('w, 'a) task_cell) \<Rightarrow> 'w \<Rightarrow> ('w, 'a) sched_tasks" where
  "sched_tasks_new n clock_max now cs w =
     \<lparr>st_sys = sched_init n clock_max now, st_pc = (\<lambda>i. Returned), st_heap = \<lparr>cells = cs, next_cell = 0\<rparr>, st_world = w\<rparr>"

text \<open>The pool with its tasks, and a step of the scheduler that leaves the tasks alone.\<close>

definition tasks_of :: "('w, 'a) sched_tasks \<Rightarrow> ('w, 'a) pool_tasks" where
  "tasks_of S =
     \<lparr>pt_pool = s_pool (sched (st_sys S)), pt_pc = st_pc S, pt_heap = st_heap S, pt_world = st_world S\<rparr>"

definition with_tasks :: "('w, 'a) pool_tasks \<Rightarrow> ('w, 'a) sched_tasks \<Rightarrow> ('w, 'a) sched_tasks" where
  "with_tasks T S =
     S\<lparr>st_sys := (st_sys S)\<lparr>sched := (sched (st_sys S))\<lparr>s_pool := pt_pool T\<rparr>\<rparr>,
       st_pc := pt_pc T, st_heap := pt_heap T, st_world := pt_world T\<rparr>"

text \<open>\<^verbatim>\<open>schedule\<close>, with the record of what was scheduled.\<close>

definition st_schedule ::
  "('w, 'a) eff \<Rightarrow> int \<Rightarrow> ('w, 'a) sched_tasks \<Rightarrow> task option \<times> ('w, 'a) sched_tasks" where
  "st_schedule fn delay S =
     (let s = st_sys S
      in case schedule (clock s) fn delay (sched s, st_heap S, st_world S) of
           (Inr t, (sc, (h, w))) \<Rightarrow>
             (Some t,
              S\<lparr>st_sys := s\<lparr>sched := sc,
                  scheduled := scheduled s @ [scheduled_new (clock s) (task_action t) delay]\<rparr>,
                st_heap := h, st_world := w\<rparr>)
         | (Inl e, _) \<Rightarrow> (None, S))"

text \<open>
  \<open>weak\<close> tells whether the exchanges of \<^verbatim>\<open>perform\<close> can fail spuriously, \<open>spurious\<close> whether the
  watcher can be woken for no reason.  While the scheduler lives its pool is not terminated: \<^verbatim>\<open>doTerminate\<close> is overridden, and
  \<open>m_done\<close> is set by the destructor of the pool.
\<close>

inductive st_step :: "int \<Rightarrow> bool \<Rightarrow> bool \<Rightarrow> bool \<Rightarrow> ('w, 'a) sched_tasks \<Rightarrow> ('w, 'a) sched_tasks \<Rightarrow> bool" 
  for clock_max ndebug weak spurious where
  schedule: "safe_fn fn \<Longrightarrow> clock (st_sys S) + (delay + 1) * 1000000 < clock_max - 3600 * 1000000000 \<Longrightarrow>
    st_step clock_max ndebug weak spurious S (snd (st_schedule fn delay S))"
| pool: "pt_step ndebug weak (tasks_of S) T \<Longrightarrow> \<not> m_done (pt_pool T) \<Longrightarrow> st_step clock_max ndebug weak spurious S (with_tasks T S)"
| terminate: "st_step clock_max ndebug weak spurious S (S\<lparr>st_sys := (st_sys S)\<lparr>sched := scheduler_doTerminate (sched (st_sys S))\<rparr>\<rparr>)"
| test: "m_watcher (sched (st_sys S)) = WatchTest \<Longrightarrow>
    st_step clock_max ndebug weak spurious S (S\<lparr>st_sys := (st_sys S)\<lparr>sched := watcher_test (sched (st_sys S))\<rparr>\<rparr>)"
| wait: "m_watcher (sched (st_sys S)) = WatchLock \<Longrightarrow>
    st_step clock_max ndebug weak spurious S (S\<lparr>st_sys := (st_sys S)\<lparr>sched := watcher_wait (clock (st_sys S)) (sched (st_sys S))\<rparr>\<rparr>)"
| wake: "m_watcher (sched (st_sys S)) = Waiting t n \<Longrightarrow> n \<or> clock (st_sys S) \<ge> t \<or> spurious \<Longrightarrow>
    st_step clock_max ndebug weak spurious S (S\<lparr>st_sys := watcher_wakes clock_max j (st_sys S)\<rparr>)"
| tick: "d \<ge> 0 \<Longrightarrow> st_step clock_max ndebug weak spurious S (S\<lparr>st_sys := (st_sys S)\<lparr>clock := clock (st_sys S) + d\<rparr>\<rparr>)"

abbreviation st_reaches where
  "st_reaches clock_max ndebug weak spurious \<equiv> (st_step clock_max ndebug weak spurious)\<^sup>*\<^sup>*"

subsection \<open>The scheduler inside\<close>

text \<open>Each step is a step of the scheduler alone.\<close>

definition m_live :: "('w, 'a) sched_tasks \<Rightarrow> bool" where
  "m_live S \<longleftrightarrow> \<not> m_done (s_pool (sched (st_sys S)))"

lemma tasks_of_simps [simp]:
  "pt_pool (tasks_of S) = s_pool (sched (st_sys S))" "pt_pc (tasks_of S) = st_pc S"
  "pt_heap (tasks_of S) = st_heap S" "pt_world (tasks_of S) = st_world S"
  by (simp_all add: tasks_of_def)

lemma doSchedule_simps [simp]:
  "s_pool (doSchedule now a delay S) = s_pool S"
  by (simp add: doSchedule_def Let_def)

lemma st_schedule_simps:
  fixes S :: "('w, 'a) sched_tasks"
  assumes "m_live S"
  shows "snd (st_schedule fn delay S) =
    S\<lparr>st_sys := (st_sys S)\<lparr>sched := doSchedule (clock (st_sys S)) (next_cell (st_heap S)) delay (sched (st_sys S)),
        scheduled := scheduled (st_sys S) @ [scheduled_new (clock (st_sys S)) (Some (next_cell (st_heap S))) delay]\<rparr>,
      st_heap := (st_heap S)\<lparr>cells := (cells (st_heap S))(next_cell (st_heap S) := action_create fn),
        next_cell := Suc (next_cell (st_heap S))\<rparr>\<rparr>"
  by (simp add: st_schedule_def schedule_def task_new_def task_action_def Let_def)

text \<open>The scheduled actions are those of tasks that exist.\<close>

definition in_cells :: "('w, 'a) sched_tasks \<Rightarrow> bool" where
  "in_cells S \<longleftrightarrow> (\<forall>x \<in> set (scheduled (st_sys S)). \<exists>a < next_cell (st_heap S). sa_action x = Some a)"

lemma st_step_sched:
  assumes "st_step clock_max ndebug weak spurious S S'" and "m_live S" and "in_cells S"
  shows "sched_step clock_max spurious (st_sys S) (st_sys S') \<and> m_live S'"
  using assms(1)
proof cases
  case (schedule fn delay)
  have "\<not> scheduler_isTerminating (sched (st_sys S))"
    using assms(2) by (simp add: m_live_def scheduler_isTerminating_def pool_doTerminatingCheck_def)
  moreover have "Some (next_cell (st_heap S)) \<notin> sa_action ` set (scheduled (st_sys S))"
    using assms(3) by (force simp: in_cells_def)
  ultimately show ?thesis
    using schedule assms(2) by (simp add: st_schedule_simps [OF assms(2)] sched_step.schedule m_live_def)
next
  case (pool T)
  with assms(2) have "m_done (pt_pool T) = m_done (s_pool (sched (st_sys S)))" by (simp add: m_live_def)
  with pool show ?thesis by (simp add: with_tasks_def m_live_def sched_step.workers)
next
  case terminate
  then show ?thesis
    using assms(2) sched_step.terminate [of clock_max spurious "st_sys S"] by (simp add: m_live_def scheduler_doTerminate_def)
next
  case test
  then show ?thesis using assms(2) sched_step.test by (simp add: m_live_def watcher_test_def)
next
  case wait
  then show ?thesis using assms(2) sched_step.wait by (simp add: m_live_def watcher_wait_def)
next
  case (wake t n j)
  then show ?thesis
    using assms(2) sched_step.wake [of "st_sys S" t n spurious clock_max j] by (simp add: m_live_def)
next
  case (tick d)
  then show ?thesis using assms(2) sched_step.tick by (simp add: m_live_def)
qed

subsection \<open>Invariant\<close>

text \<open>The actions in the scheduler's queue; they wait to be handed to the pool.\<close>

definition filed :: "('w, 'a) sched_tasks \<Rightarrow> nat list" where
  "filed S = map (\<lambda>x. the (sa_action x)) (m_scheduled_actions (sched (st_sys S)))"

definition in_past :: "sched_system \<Rightarrow> bool" where
  "in_past s \<longleftrightarrow> (\<forall>(a, t) \<in> set (executed s). t \<le> clock s)"

text \<open>What has to do with time holds without spurious wake-ups only.\<close>

definition st_inv :: "int \<Rightarrow> bool \<Rightarrow> bool \<Rightarrow> bool \<Rightarrow> ('w, 'a) sched_tasks \<Rightarrow> bool" where
  "st_inv clock_max nd wk sp S \<longleftrightarrow>
     m_live S \<and> in_cells S \<and> accounted (st_sys S) \<and> in_past (st_sys S) \<and> (\<not> sp \<longrightarrow> sched_inv clock_max (st_sys S))
     \<and> pt_inv nd wk (filed S) (tasks_of S)"

lemma in_past_step: "sched_step clock_max spurious s s' \<Longrightarrow> in_past s \<Longrightarrow> in_past s'"
proof (induction rule: sched_step.induct)
  case (tick d s)
  then show ?case by (force simp: in_past_def)
qed (auto simp: in_past_def)

lemma filed_with_tasks [simp]: "filed (with_tasks T S) = filed S" "tasks_of (with_tasks T S) = T"
  by (simp_all add: filed_def with_tasks_def tasks_of_def)

lemma pt_inv_world: "pt_inv nd wk R (T\<lparr>pt_world := w\<rparr>) = pt_inv nd wk R T"
  by (simp add: pt_inv_def)

lemma cells_grow: "pt_step ndebug weak T T' \<Longrightarrow> next_cell (pt_heap T) \<le> next_cell (pt_heap T')"
proof (induction rule: pt_step.induct)
  case (worker i T spurious locked)
  show ?case by (cases "m_workers (pt_pool T) ! i") (simp_all add: worker_step_def split: prod.split)
qed (simp_all add: pool_submit_def task_new_def task_action_def pool_cancel_def pool_get_def Let_def split_def)

text \<open>The queue of the scheduler may be reordered.\<close>

lemma pt_inv_perm:
  assumes "pt_inv nd wk R T" and "mset (m_actions (pt_pool T') @ R') = mset (m_actions (pt_pool T) @ R)"
    and "in_hand_of (pt_pool T') = in_hand_of (pt_pool T)" and "pt_pc T' = pt_pc T" and "pt_heap T' = pt_heap T"
  shows "pt_inv nd wk R' T'"
  using assms(1) unfolding pt_inv_def assms(3-5) placed_perm [OF assms(2)] .

lemma pt_inv_schedule:
  assumes "pt_inv nd wk (filed S) (tasks_of S)" and "safe_fn fn" and "m_live S"
  shows "pt_inv nd wk (filed (snd (st_schedule fn delay S))) (tasks_of (snd (st_schedule fn delay S)))"
proof -
  let ?S = "snd (st_schedule fn delay S)" and ?f = "\<lambda>x. the (sa_action x)" and ?n = "next_cell (st_heap S)"
  have "\<not> scheduler_isTerminating (sched (st_sys S))"
    using assms(3) by (simp add: m_live_def scheduler_isTerminating_def pool_doTerminatingCheck_def)
  then have q: "mset (filed ?S) = mset (filed S @ [?n])"
    using arg_cong [OF pq.elems_push, of "image_mset ?f"]
    by (simp add: st_schedule_simps [OF assms(3)] filed_def doSchedule_queue)
  have "pt_inv nd wk (filed S @ [?n]) (tasks_of ?S)"
    using placed_push [OF assms(1) [unfolded pt_inv_def] assms(2)]
    by (simp add: pt_inv_def st_schedule_simps [OF assms(3)])
  then show ?thesis by (rule pt_inv_perm) (simp_all add: q del: mset_append, simp add: q)
qed

text \<open>A wake-up moves an action from the scheduler's queue to the end of the pool's, or none.\<close>

lemma watcher_wakes_moves:
  fixes S :: "('w, 'a) sched_tasks" and clock_max j
  defines "T \<equiv> S\<lparr>st_sys := watcher_wakes clock_max j (st_sys S)\<rparr>"
  shows "mset (m_actions (s_pool (sched (st_sys T))) @ filed T) = mset (m_actions (s_pool (sched (st_sys S))) @ filed S)"
    and "in_hand_of (s_pool (sched (st_sys T))) = in_hand_of (s_pool (sched (st_sys S)))"
proof -
  let ?q = "m_scheduled_actions (sched (st_sys S))" and ?now = "clock (st_sys S)"
  have "add_mset (the (sa_action (pq_top ?q))) (mset (map (\<lambda>x. the (sa_action x)) (pq_pop ?now ?q)))
      = mset (map (\<lambda>x. the (sa_action x)) ?q)" if "starts (sched (st_sys S))"
    using arg_cong [OF pq.elems_pop [of ?q ?now], of "image_mset (\<lambda>x. the (sa_action x))"] that
    by (simp add: starts_def)
  then show "mset (m_actions (s_pool (sched (st_sys T))) @ filed T) = mset (m_actions (s_pool (sched (st_sys S))) @ filed S)"
    by (simp add: T_def filed_def)
  show "in_hand_of (s_pool (sched (st_sys T))) = in_hand_of (s_pool (sched (st_sys S)))"
    by (cases "m_suspend_reason (sched (st_sys S))")
      (auto simp: T_def watcher_wakes_def watcherFn_def execute_task_def Let_def pool_doExecute_def)
qed

lemma st_step_tasks:
  assumes "st_step clock_max nd wk spurious S S'" and "pt_inv nd wk (filed S) (tasks_of S)" and "m_live S"
  shows "pt_inv nd wk (filed S') (tasks_of S')"
  using assms(1)
proof cases
  case (schedule fn delay)
  then show ?thesis using pt_inv_schedule assms(2,3) by simp
next
  case (pool T)
  then show ?thesis using pt_step_inv assms(2) by simp
next
  case (wake t n j)
  show ?thesis
    by (rule pt_inv_perm [OF assms(2)]) (use watcher_wakes_moves [of clock_max j S] wake(1) in simp_all)
qed (use assms(2) in \<open>simp_all add: pt_inv_def filed_def scheduler_doTerminate_def watcher_test_def watcher_wait_def\<close>)

lemma st_step_scheduled:
  assumes "st_step clock_max ndebug weak spurious S S'" and "m_live S" and "in_cells S"
  shows "in_cells S'"
  using assms(1)
proof cases
  case (schedule fn delay)
  then show ?thesis
    using assms(3) by (auto simp: in_cells_def st_schedule_simps [OF assms(2)] intro: less_SucI)
next
  case (pool T)
  have "next_cell (st_heap S) \<le> next_cell (pt_heap T)" using cells_grow [OF pool(2)] by simp
  with pool assms(3) show ?thesis by (fastforce simp: in_cells_def with_tasks_def)
qed (use assms(3) in \<open>simp_all add: in_cells_def\<close>)

lemma st_step_inv:
  assumes "st_step clock_max nd wk sp S S'" and "st_inv clock_max nd wk sp S"
  shows "st_inv clock_max nd wk sp S'"
proof -
  have inv: "m_live S" "in_cells S" "accounted (st_sys S)" "in_past (st_sys S)" "pt_inv nd wk (filed S) (tasks_of S)"
    using assms(2) by (simp_all add: st_inv_def)
  have step: "sched_step clock_max sp (st_sys S) (st_sys S')" "m_live S'" using st_step_sched [OF assms(1) inv(1,2)] by simp_all
  have "\<not> sp \<longrightarrow> sched_inv clock_max (st_sys S')"
    using step(1) assms(2) sched_step_inv by (cases sp) (auto simp: st_inv_def)
  with step st_step_scheduled [OF assms(1) inv(1,2)] st_step_tasks [OF assms(1) inv(5,1)]
    sched_step_accounts [OF step(1) inv(3)] in_past_step [OF step(1) inv(4)]
  show ?thesis by (simp add: st_inv_def)
qed

interpretation sts: stable "st_step clock_max nd wk sp" "st_inv clock_max nd wk sp"
  by unfold_locales (rule st_step_inv)

lemma st_inv_new:
  assumes "now \<le> clock_max - 3600 * 1000000000"
  shows "st_inv clock_max nd wk sp (sched_tasks_new n clock_max now cs w)"
  using sched_run_inv [OF sched_run.init [OF assms, of False n]] accounted_init [of n clock_max now]
    pt_inv_new [of nd wk n cs w]
  by (simp add: st_inv_def in_cells_def sched_tasks_new_def m_live_def in_past_def)
    (simp add: sched_init_def scheduler_new_def pool_new_def filed_def pt_inv_def pool_tasks_new_def)

subsection \<open>Watcher and worker left alone\<close>

definition st_watcher :: "int \<Rightarrow> nat \<Rightarrow> ('w, 'a) sched_tasks \<Rightarrow> ('w, 'a) sched_tasks" where
  "st_watcher clock_max j S = S\<lparr>st_sys := watcher_alone clock_max j (st_sys S)\<rparr>"

definition st_worker :: "bool \<Rightarrow> bool \<Rightarrow> nat \<Rightarrow> ('w, 'a) sched_tasks \<Rightarrow> ('w, 'a) sched_tasks" where
  "st_worker ndebug spurious i S = with_tasks (worker_step ndebug spurious False i (tasks_of S)) S"

text \<open>\<open>sps\<close>: which of the worker's steps meet a spurious failure.\<close>

definition st_workers :: "bool \<Rightarrow> nat \<Rightarrow> bool list \<Rightarrow> ('w, 'a) sched_tasks \<Rightarrow> ('w, 'a) sched_tasks" where
  "st_workers ndebug i sps = fold (\<lambda>spurious. st_worker ndebug spurious i) sps"

lemma st_watcher_simps:
  "st_sys ((st_watcher clock_max j ^^ k) S) = alone clock_max j k (st_sys S)"
  "st_heap ((st_watcher clock_max j ^^ k) S) = st_heap S"
  "st_pc ((st_watcher clock_max j ^^ k) S) = st_pc S"
  by (induction k) (simp_all add: st_watcher_def)

lemma st_worker_simps:
  "tasks_of (st_workers ndebug i sps S) = worker_steps ndebug i sps (tasks_of S)"
  "st_heap (st_workers ndebug i sps S) = pt_heap (worker_steps ndebug i sps (tasks_of S))"
proof -
  show tasks: "tasks_of (st_workers ndebug i sps S) = worker_steps ndebug i sps (tasks_of S)" for sps S
    by (induction sps arbitrary: S) (simp_all add: st_workers_def st_worker_def)
  show "st_heap (st_workers ndebug i sps S) = pt_heap (worker_steps ndebug i sps (tasks_of S))"
    unfolding tasks [symmetric] by simp
qed

lemma st_watcher_steps: "st_reaches clock_max ndebug weak spurious S (st_watcher clock_max j S)"
proof (cases "m_watcher (sched (st_sys S))")
  case WatchTest
  then show ?thesis by (auto simp: st_watcher_def watcher_alone_def intro: st_step.test)
next
  case WatchLock
  then show ?thesis by (auto simp: st_watcher_def watcher_alone_def intro: st_step.wait)
next
  case (Waiting t n)
  define d where "d = (if n then 0 else max 0 (t - clock (st_sys S)))"
  let ?S = "S\<lparr>st_sys := (st_sys S)\<lparr>clock := clock (st_sys S) + d\<rparr>\<rparr>"
  have s: "(st_sys S)\<lparr>clock := (if n then clock (st_sys S) else max (clock (st_sys S)) t)\<rparr> = st_sys ?S"
    by (simp add: d_def max_def)
  have "st_step clock_max ndebug weak spurious S ?S" by (rule st_step.tick) (simp add: d_def)
  moreover have "st_step clock_max ndebug weak spurious ?S (?S\<lparr>st_sys := watcher_wakes clock_max j (st_sys ?S)\<rparr>)"
    by (rule st_step.wake [of _ t n]) (auto simp: Waiting d_def)
  ultimately show ?thesis
    unfolding st_watcher_def watcher_alone_def Waiting s watcher_pc.case by simp
qed (simp add: st_watcher_def watcher_alone_def)

lemma st_watcher_inv: "st_inv clock_max nd wk sp S \<Longrightarrow> st_inv clock_max nd wk sp ((st_watcher clock_max j ^^ k) S)"
  by (induction k) (simp_all add: sts.stays [OF st_watcher_steps])

text \<open>What the watcher leaves as it is in the pool.\<close>

definition same_hands :: "nat \<Rightarrow> ('w, 'a) sched_tasks \<Rightarrow> ('w, 'a) sched_tasks \<Rightarrow> bool" where
  "same_hands i S S' \<longleftrightarrow>
     (busy i (tasks_of S) \<longrightarrow> busy i (tasks_of S'))
     \<and> in_hand_of (s_pool (sched (st_sys S'))) = in_hand_of (s_pool (sched (st_sys S)))
     \<and> length (m_workers (s_pool (sched (st_sys S')))) = length (m_workers (s_pool (sched (st_sys S))))
     \<and> length (m_actions (s_pool (sched (st_sys S'))) @ filed S') = length (m_actions (s_pool (sched (st_sys S))) @ filed S)"

lemma same_hands_wakes: "same_hands i S (S\<lparr>st_sys := watcher_wakes clock_max j (st_sys S)\<rparr>)"
proof -
  let ?T = "S\<lparr>st_sys := watcher_wakes clock_max j (st_sys S)\<rparr>"
  have "busy i (tasks_of ?T)" if "busy i (tasks_of S)"
    using that by (cases "m_suspend_reason (sched (st_sys S))"; cases "j = i")
      (auto simp: busy_def watcher_wakes_def watcherFn_def execute_task_def Let_def pool_doExecute_def notify_one_def wake_def)
  moreover have "length (m_workers (s_pool (sched (st_sys ?T)))) = length (m_workers (s_pool (sched (st_sys S))))"
    by (cases "m_suspend_reason (sched (st_sys S))")
      (auto simp: watcher_wakes_def watcherFn_def execute_task_def Let_def pool_doExecute_def notify_one_def)
  ultimately show ?thesis
    unfolding same_hands_def using mset_eq_length [OF watcher_wakes_moves(1)] watcher_wakes_moves(2) by blast
qed

lemma same_hands_watcher: "same_hands i S (st_watcher clock_max j S)"
proof (cases "m_watcher (sched (st_sys S))")
  case (Waiting t n)
  let ?S = "S\<lparr>st_sys := (st_sys S)\<lparr>clock := (if n then clock (st_sys S) else max (clock (st_sys S)) t)\<rparr>\<rparr>"
  have "st_watcher clock_max j S = ?S\<lparr>st_sys := watcher_wakes clock_max j (st_sys ?S)\<rparr>"
    by (simp add: st_watcher_def watcher_alone_def Waiting)
  moreover have "same_hands i ?S X \<longleftrightarrow> same_hands i S X" for X
    by (simp add: same_hands_def filed_def busy_def)
  ultimately show ?thesis using same_hands_wakes by metis
qed (simp_all add: same_hands_def st_watcher_def watcher_alone_def watcher_test_def watcher_wait_def filed_def busy_def)

lemma same_hands_watchers: "same_hands i S ((st_watcher clock_max j ^^ k) S)"
proof (induction k)
  case (Suc k)
  then show ?case
    using same_hands_watcher [of i "(st_watcher clock_max j ^^ k) S" clock_max j] by (simp add: same_hands_def)
qed (simp add: same_hands_def)

subsection \<open>Properties\<close>

lemma st_reached_inv:
  "st_reaches clock_max nd wk sp (sched_tasks_new n clock_max now cs w) S \<Longrightarrow> now \<le> clock_max - 3600 * 1000000000 \<Longrightarrow>
     st_inv clock_max nd wk sp S"
  by (rule sts.stays [OF _ st_inv_new])

lemma filed_not_run:
  assumes "st_inv clock_max nd wk sp S" and "a \<in> set (filed S)"
  shows "t_runs (cells (st_heap S) a) = 0"
  using assms by (auto simp: st_inv_def pt_inv_def placed_def part_ok.simps)

lemma cell_runs:
  assumes "st_inv clock_max nd wk sp S" and "a < next_cell (st_heap S)"
  shows "t_runs (cells (st_heap S) a) \<le> 1"
  using assms part_ok_runs unfolding st_inv_def pt_inv_def placed_def tasks_of_simps by metis

text \<open>What has run was handed over, and that was not too early.\<close>

lemma ran_in_time:
  assumes inv: "st_inv clock_max nd wk False S" and x: "x \<in> set (scheduled (st_sys S))" "sa_action x = Some a"
    and "t_runs (cells (st_heap S) a) = 1"
  shows "due x \<le> clock (st_sys S) + misorder (scheduled (st_sys S))"
proof -
  let ?q = "m_scheduled_actions (sched (st_sys S))"
  have acc: "accounted (st_sys S)" and si: "sched_inv clock_max (st_sys S)" and past: "in_past (st_sys S)"
    using inv by (simp_all add: st_inv_def)
  have "a \<notin> set (filed S)" using filed_not_run [OF inv, of a] assms(4) by auto
  then have "Some a \<notin> sa_action ` set ?q" by (auto simp: filed_def image_iff) (metis option.sel)
  moreover have "mset (map sa_action (scheduled (st_sys S)))
      = mset (map (Some \<circ> fst) (executed (st_sys S))) + mset (map sa_action ?q)"
    using acc by (simp add: accounted_def)
  then have "Some a \<in># mset (map (Some \<circ> fst) (executed (st_sys S))) + mset (map sa_action ?q)"
    by (rule subst) (use x in force)
  ultimately have "Some a \<in># mset (map (Some \<circ> fst) (executed (st_sys S)))" by auto
  then obtain t where t: "(a, t) \<in> set (executed (st_sys S))" by auto
  with si obtain y where "y \<in> set (scheduled (st_sys S))" "sa_action y = Some a"
      "due y \<le> t + misorder (scheduled (st_sys S))"
    by (fastforce simp: sched_inv_def)
  moreover have "t \<le> clock (st_sys S)" using past t by (auto simp: in_past_def)
  ultimately show ?thesis using same_action [OF acc x(1)] x(2) by fastforce
qed



text \<open>What is scheduled once the watcher has ended is lost: \<^verbatim>\<open>schedule\<close> returns a task, but in whatever
  follows its operation never runs and its result never comes.\<close>

theorem scheduled_after_termination_is_lost:
  assumes "st_reaches clock_max ndebug weak spurious (sched_tasks_new n clock_max now cs w) S"
    and "now \<le> clock_max - 3600 * 1000000000" and "m_watcher (sched (st_sys S)) = WatchDone"
    and "x \<in> set (m_scheduled_actions (sched (st_sys S)))" and "sa_action x = Some a"
    and "st_reaches clock_max ndebug weak spurious S S'"
  shows "t_runs (cells (st_heap S') a) = 0 \<and> t_result (cells (st_heap S') a) = None"
proof -
  have inv: "st_inv clock_max ndebug weak spurious S" by (rule st_reached_inv [OF assms(1,2)])
  from assms(6) have "st_inv clock_max ndebug weak spurious S' \<and> (sched_step clock_max spurious)\<^sup>*\<^sup>* (st_sys S) (st_sys S')"
  proof (induction rule: rtranclp_induct)
    case base
    then show ?case using inv by simp
  next
    case (step S' S'')
    then have "sched_step clock_max spurious (st_sys S') (st_sys S'')"
      using st_step_sched [OF step.hyps(2)] by (simp add: st_inv_def)
    with step st_step_inv [OF step.hyps(2)] show ?case by (meson rtranclp.rtrancl_into_rtrancl)
  qed
  then have "x \<in> set (m_scheduled_actions (sched (st_sys S')))"
    using scheduled_after_termination [OF _ assms(3)] assms(4) by blast
  then have "a \<in> set (filed S')" using assms(5) by (force simp: filed_def)
  moreover have "st_inv clock_max ndebug weak spurious S'" by (rule sts.stays [OF assms(6) inv])
  ultimately have "part_ok ndebug weak (cells (st_heap S') a) AtCheck" by (auto simp: st_inv_def pt_inv_def placed_def)
  then show ?thesis by (simp add: part_ok.simps)
qed

text \<open>One worker, at the queue with a task of its own, when another is scheduled, of one second; and
  the state after the watcher's start and the worker's two performances.\<close>

definition demo_st_new :: "(nat, nat) sched_tasks" where
  "demo_st_new = sched_tasks_new 1 clock_end 0 (\<lambda>a. action_create (\<lambda>v. (Inr 0, v))) 41"

definition demo_st_busy :: "(nat, nat) sched_tasks" where
  "demo_st_busy = (st_worker False False 0 ^^ 3)
     (with_tasks (snd (pool_submit 0 (\<lambda>v. (Inr (v + 1), v)) (tasks_of demo_st_new))) demo_st_new)"

definition demo_st :: "(nat, nat) sched_tasks" where
  "demo_st = snd (st_schedule (\<lambda>v. (Inr (v + 2), v)) 1000 demo_st_busy)"

definition demo_st_done :: "(nat, nat) sched_tasks" where
  "demo_st_done = (st_worker False False 0 ^^ 12) ((st_watcher clock_end 0 ^^ 6) demo_st)"

lemma worker_step_done [simp]: "m_done (pt_pool (worker_step ndebug spurious locked i S)) = m_done (pt_pool S)"
proof -
  have "m_done (worker_moves locked i p) = m_done p" for p
    by (cases "m_workers p ! i"; cases "m_actions p"; cases locked) (simp_all add: worker_moves_def)
  then show ?thesis by (cases "m_workers (pt_pool S) ! i") (simp_all add: worker_step_def split: prod.split)
qed

lemma st_worker_pool [simp]:
  "s_pool (sched (st_sys (st_worker ndebug sp i S))) = pt_pool (worker_step ndebug sp False i (tasks_of S))"
  by (simp add: st_worker_def with_tasks_def)

lemma st_worker_pow:
  "st_heap ((st_worker ndebug sp i ^^ k) S) = pt_heap ((worker_step ndebug sp False i ^^ k) (tasks_of S))"
proof -
  have tasks: "tasks_of ((st_worker ndebug sp i ^^ k) S) = (worker_step ndebug sp False i ^^ k) (tasks_of S)"
    by (induction k) (simp_all add: st_worker_def)
  show ?thesis unfolding tasks [symmetric] by simp
qed

lemma st_worker_step:
  "i < length (m_workers (s_pool (sched (st_sys S)))) \<Longrightarrow> m_live S \<Longrightarrow>
     st_step clock_max ndebug weak spurious S (st_worker ndebug False i S)"
  unfolding st_worker_def by (intro st_step.pool pt_step.worker) (simp_all add: m_live_def)

lemma reaches_st_worker:
  "0 < length (m_workers (s_pool (sched (st_sys S)))) \<Longrightarrow> m_live S \<Longrightarrow> st_reaches clock_max ndebug weak spurious S ((st_worker ndebug False 0 ^^ k) S)
    \<and> 0 < length (m_workers (s_pool (sched (st_sys ((st_worker ndebug False 0 ^^ k) S))))) \<and> m_live ((st_worker ndebug False 0 ^^ k) S)"
proof (induction k)
  case (Suc k)
  let ?T = "(st_worker ndebug False 0 ^^ k) S"
  have T: "st_reaches clock_max ndebug weak spurious S ?T" "0 < length (m_workers (s_pool (sched (st_sys ?T))))" "m_live ?T"
    using Suc by simp_all
  have "st_step clock_max ndebug weak spurious ?T (st_worker ndebug False 0 ?T)" using T(2,3) by (rule st_worker_step)
  with T show ?case
    using workers_length [of ndebug False False 0 "tasks_of ?T"]
    by (simp add: m_live_def)
qed simp

lemma reaches_st_watcher: "st_reaches clock_max ndebug weak spurious S ((st_watcher clock_max j ^^ k) S)"
  by (induction k) (auto intro: rtranclp_trans st_watcher_steps)

lemmas demo_st_simps = demo_st_new_def sched_tasks_new_def sched_init_def scheduler_new_def pool_new_def with_tasks_def
  tasks_of_def pool_submit_def task_new_def task_action_def pool_doExecute_def notify_one_def m_live_def
  st_worker_def worker_step_def worker_moves_def wake_def Let_def

lemma demo_st_submitted:
  "st_step clock_end False weak spurious demo_st_new
     (with_tasks (snd (pool_submit 0 (\<lambda>v. (Inr (v + 1), v)) (tasks_of demo_st_new))) demo_st_new)"
  by (intro st_step.pool pt_step.submit) (simp_all add: safe_fn_def promised_def demo_st_simps)

lemma demo_st_busy: "st_reaches clock_end False weak spurious demo_st_new demo_st_busy \<and> m_live demo_st_busy
   \<and> 0 < length (m_workers (s_pool (sched (st_sys demo_st_busy))))"
proof -
  let ?S = "with_tasks (snd (pool_submit 0 (\<lambda>v. (Inr (v + 1), v)) (tasks_of demo_st_new))) demo_st_new"
  have "0 < length (m_workers (s_pool (sched (st_sys ?S))))" "m_live ?S" by (simp_all add: demo_st_simps)
  from reaches_st_worker [OF this, of clock_end False weak spurious 3] demo_st_submitted show ?thesis
    unfolding demo_st_busy_def by (meson converse_rtranclp_into_rtranclp)
qed

lemma demo_st_state:
  "st_sys demo_st_busy = \<lparr>sched = (scheduler_new 1 clock_end 0)\<lparr>s_pool := (pool_new 1)\<lparr>m_actions := [0], m_workers := [WDrain]\<rparr>\<rparr>,
     clock = 0, scheduled = [], executed = []\<rparr>"
  by (simp add: demo_st_busy_def demo_st_simps eval_nat_numeral)

lemma demo_st:
  "st_reaches clock_end False weak spurious demo_st_new demo_st" "watching (sched (st_sys demo_st))" "busy 0 (tasks_of demo_st)"
  "st_sys demo_st = \<lparr>sched = (doSchedule 0 1 1000 (scheduler_new 1 clock_end 0))\<lparr>s_pool := (pool_new 1)\<lparr>m_actions := [0], m_workers := [WDrain]\<rparr>\<rparr>,
     clock = 0, scheduled = [scheduled_new 0 (Some 1) 1000], executed = []\<rparr>"
  "next_cell (st_heap demo_st) = 2" "st_pc demo_st 0 \<noteq> Crashed"
proof -
  have cell: "next_cell (st_heap demo_st_busy) = 1"
    by (simp add: demo_st_busy_def demo_st_simps eval_nat_numeral)
  show sys: "st_sys demo_st = \<lparr>sched = (doSchedule 0 1 1000 (scheduler_new 1 clock_end 0))\<lparr>s_pool := (pool_new 1)\<lparr>m_actions := [0], m_workers := [WDrain]\<rparr>\<rparr>,
     clock = 0, scheduled = [scheduled_new 0 (Some 1) 1000], executed = []\<rparr>"
    using demo_st_busy
    by (simp add: demo_st_def st_schedule_simps demo_st_state cell doSchedule_def scheduler_isTerminating_def
        pool_doTerminatingCheck_def pool_new_def scheduler_new_def scheduler_timeLeft_def Let_def)
  show "next_cell (st_heap demo_st) = 2"
    using demo_st_busy by (simp add: demo_st_def st_schedule_simps cell)
  have "st_pc demo_st_busy 0 \<noteq> Crashed" by (simp add: demo_st_busy_def demo_st_simps eval_nat_numeral)
  then show "st_pc demo_st 0 \<noteq> Crashed" using demo_st_busy by (simp add: demo_st_def st_schedule_simps)
  have "st_step clock_end False weak spurious demo_st_busy demo_st"
    unfolding demo_st_def by (rule st_step.schedule) (simp_all add: safe_fn_def promised_def demo_st_state clock_end_def)
  with demo_st_busy show "st_reaches clock_end False weak spurious demo_st_new demo_st" by (meson rtranclp.rtrancl_into_rtrancl)
  show "watching (sched (st_sys demo_st))" "busy 0 (tasks_of demo_st)"
    by (simp_all add: sys watching_def busy_def doSchedule_def scheduler_isTerminating_def pool_doTerminatingCheck_def
        pool_new_def scheduler_new_def scheduler_timeLeft_def maxWaitTime_def clock_end_def to_ms_def notify_watcher_def Let_def)
qed

text \<open>The watcher's position, reason, delay and queue along its six sections.\<close>

definition demo_watch ::
  "nat list \<Rightarrow> scheduled_action list \<Rightarrow> int \<Rightarrow> watcher_pc \<Rightarrow> int \<Rightarrow> suspend_reason \<Rightarrow> int \<Rightarrow>
     (nat \<times> int) list \<Rightarrow> sched_system" where
  "demo_watch acts q delay pc ts reason now ex =
     \<lparr>sched = \<lparr>s_pool = \<lparr>m_done = False, m_workers = [WDrain], m_actions = acts\<rparr>, m_scheduled_actions = q,
        m_delay = delay, m_watcher = pc, m_delay_update_ts = ts, m_suspend_reason = reason\<rparr>,
      clock = now, scheduled = [scheduled_new 0 (Some 1) 1000], executed = ex\<rparr>"

lemma demo_watch_start:
  "st_sys demo_st = demo_watch [0] [scheduled_new 0 (Some 1) 1000] 1000 WatchTest 0 UpdateDelay 0 []"
  by (simp add: demo_st(4) demo_watch_def doSchedule_def scheduler_new_def scheduler_isTerminating_def
      pool_doTerminatingCheck_def pool_new_def pq_push_def scheduler_timeLeft_def maxWaitTime_def to_ms_def
      clock_end_def notify_watcher_def Let_def)

lemma demo_watch_steps:
  "watcher_alone clock_end 0 (demo_watch acts q delay WatchTest ts r now ex) = demo_watch acts q delay WatchLock ts r now ex"
  "watcher_alone clock_end 0 (demo_watch acts q delay WatchLock ts r now ex)
     = demo_watch acts q delay (Waiting (now + delay * 1000000) False) ts r now ex"
  "watcher_alone clock_end 0 (demo_watch acts q delay (Waiting t False) ts UpdateDelay now ex)
     = demo_watch acts q delay WatchTest (max now t) ExecuteTask (max now t) ex"
  "watcher_alone clock_end 0 (demo_watch acts [x] delay (Waiting t False) ts ExecuteTask now ex)
     = demo_watch (acts @ [the (sa_action x)]) [] (maxWaitTime clock_end (max now t)) WatchTest (max now t) ExecuteTask
         (max now t) (ex @ [(the (sa_action x), max now t)])"
  by (simp_all add: demo_watch_def watcher_alone_def watcher_test_def watcher_wait_def watcher_wakes_def watcherFn_def
      scheduler_isTerminating_def pool_doTerminatingCheck_def execute_task_def pq_top_def pq_pop_def pool_doExecute_def
      handed_over_def notify_one_def wake_def Let_def)

lemma demo_st_started:
  "alone clock_end 0 6 (st_sys demo_st) = demo_watch [0, 1] [] (maxWaitTime clock_end 2000000000) WatchTest 2000000000
     ExecuteTask 2000000000 [(1, 2000000000)]"
  unfolding demo_watch_start by (simp add: eval_nat_numeral demo_watch_steps scheduled_new_def)

lemma demo_st_heap:
  "\<exists>cs pcs. tasks_of ((st_watcher clock_end 0 ^^ 6) demo_st) =
     \<lparr>pt_pool = \<lparr>m_done = False, m_workers = [WDrain], m_actions = [0, 1]\<rparr>, pt_pc = pcs,
      pt_heap = \<lparr>cells = cs(0 := action_create (\<lambda>v. (Inr (v + 1), v)), 1 := action_create (\<lambda>v. (Inr (v + 2), v))), next_cell = 2\<rparr>,
      pt_world = 41\<rparr>"
proof -
  have busy: "\<exists>cs. st_heap demo_st_busy = \<lparr>cells = cs(0 := action_create (\<lambda>v. (Inr (v + 1), v))), next_cell = 1\<rparr>" "st_world demo_st_busy = 41"
    by (auto simp: demo_st_busy_def demo_st_simps eval_nat_numeral)
  have "st_world ((st_watcher clock_end 0 ^^ k) S) = st_world S" for k and S :: "(nat, nat) sched_tasks"
    by (induction k) (simp_all add: st_watcher_def)
  then show ?thesis
    using busy demo_st_busy unfolding tasks_of_def st_watcher_simps demo_st_started demo_watch_def
    by (auto simp: demo_st_def st_schedule_simps)
qed

lemma demo_st_done:
  "st_reaches clock_end False weak spurious demo_st_new demo_st_done" "scheduled (st_sys demo_st_done) = [scheduled_new 0 (Some 1) 1000]"
  "clock (st_sys demo_st_done) = 2000000000" "t_runs (cells (st_heap demo_st_done) 1) = 1"
proof -
  obtain cs pcs where start: "tasks_of ((st_watcher clock_end 0 ^^ 6) demo_st) =
     \<lparr>pt_pool = \<lparr>m_done = False, m_workers = [WDrain], m_actions = [0, 1]\<rparr>, pt_pc = pcs,
      pt_heap = \<lparr>cells = cs(0 := action_create (\<lambda>v. (Inr (v + 1), v)), 1 := action_create (\<lambda>v. (Inr (v + 2), v))), next_cell = 2\<rparr>,
      pt_world = 41\<rparr>"
    using demo_st_heap by blast
  show "t_runs (cells (st_heap demo_st_done) 1) = 1"
    unfolding demo_st_done_def st_worker_pow start
    by (simp add: eval_nat_numeral worker_step_def worker_moves_def
      perform_part_def perform_check_def perform_start_cases perform_body_def perform_finish_def
      action_create_def state_isCancelled_def advance_def eff_bind_def eff_then_def in_world_def get_local_def
      set_local_def eff_catch_any_def set_promise_def cas_defs)
  have sys: "clock (st_sys (st_worker False False 0 S)) = clock (st_sys S)"
    "scheduled (st_sys (st_worker False False 0 S)) = scheduled (st_sys S)" for S :: "(nat, nat) sched_tasks"
    by (simp_all add: st_worker_def with_tasks_def)
  have "clock (st_sys ((st_worker False False 0 ^^ k) S)) = clock (st_sys S)"
    "scheduled (st_sys ((st_worker False False 0 ^^ k) S)) = scheduled (st_sys S)" for k and S :: "(nat, nat) sched_tasks"
    by (induction k) (simp_all add: sys)
  then show "scheduled (st_sys demo_st_done) = [scheduled_new 0 (Some 1) 1000]" "clock (st_sys demo_st_done) = 2000000000"
    unfolding demo_st_done_def by (simp_all add: st_watcher_simps demo_st_started demo_watch_def)
  let ?S = "(st_watcher clock_end 0 ^^ 6) demo_st"
  have "0 < length (m_workers (s_pool (sched (st_sys ?S))))" "m_live ?S"
    by (simp_all add: st_watcher_simps demo_st_started demo_watch_def m_live_def)
  from reaches_st_worker [OF this, of clock_end False weak spurious 12] reaches_st_watcher [of clock_end False weak spurious demo_st 6 0] demo_st(1)
  show "st_reaches clock_end False weak spurious demo_st_new demo_st_done"
    unfolding demo_st_done_def by (meson rtranclp_trans)
qed



end
