(* ===== verification/Tcp_Sessions.thy ===== *)
theory Tcp_Sessions
  imports Tcp_Transport PubSub_Channel Messaging_Service
begin

text \<open>
  TCP transports below sessions: the class of the TCP transports for the interface of
  \<^verbatim>\<open>transport.hpp\<close>, over a world that holds all of them, with what
  \<^verbatim>\<open>MessagingService::connect\<close> and a publishing channel then do to the sockets.
  Each transport has a copy of the counter of message identifiers, which only its read
  handlers use; the operations here leave it alone.
\<close>

subsection \<open>The class\<close>

record tcp_world =
  tcps :: "nat \<Rightarrow> tcp_transport"
  tw_now :: int

definition with_tcp :: "nat \<Rightarrow> (tcp_transport, 'a) eff \<Rightarrow> (tcp_world, 'a) eff" where
  "with_tcp t m w =
     (let (r, T) = m (tcps w t)
      in (r, w\<lparr>tcps := (tcps w)(t := T)\<rparr>))"

text \<open>The override declarations of \<^verbatim>\<open>TcpTransport\<close>; \<^verbatim>\<open>doRequest\<close> reads the clock.\<close>

definition tcp_class :: "platform \<Rightarrow> serializer list \<Rightarrow> (tcp_world, nat) transport_class" where
  "tcp_class pl pack =
     \<lparr>doStart = (\<lambda>t. with_tcp t (\<lambda>T. (Inr (), tcp_doStart T))),
      doInit = (\<lambda>t. with_tcp t (\<lambda>T. (Inr (), tcp_doInit T))),
      doStop = (\<lambda>t. with_tcp t (\<lambda>T. (Inr (), tcp_doStop T))),
      service_m_state = (\<lambda>t w. tcp_m_state (tcps w t)),
      doSend = (\<lambda>t msg. with_tcp t (tcp_doSend pl pack msg)),
      doReceive = (\<lambda>t. with_tcp t (\<lambda>T. let (m, T') = tcp_doReceive T in (Inr m, T'))),
      doRequest = (\<lambda>t msg w. with_tcp t (tcp_doRequest pl pack (tw_now w) msg) w),
      removeExpiredRequests = (\<lambda>t w. with_tcp t (\<lambda>T. (Inr (), tcp_removeExpiredRequests (tw_now w) T)) w),
      get_m_session = (\<lambda>t w. tcp_m_session (tcps w t)),
      put_m_session = (\<lambda>t sid w. w\<lparr>tcps := (tcps w)(t := (tcps w t)\<lparr>tcp_m_session := Some sid\<rparr>)\<rparr>)\<rparr>"

text \<open>\<^verbatim>\<open>TcpTransportFactory\<close> for the registry: \<^verbatim>\<open>url.hostname()\<close> and \<^verbatim>\<open>url.port()\<close> are resolved.\<close>

definition tcp_factory ::
  "(string \<Rightarrow> nat \<Rightarrow> ('w, 'ep + int) eff) \<Rightarrow> ('ep \<Rightarrow> ('w, nat + int) eff)
     \<Rightarrow> ('w, nat option, url) transport_factory" where
  "tcp_factory resolve connect =
     \<lparr>createTransport_body = (\<lambda>u.
        eff_bind (tcp_createTransport resolve connect (url_hostname u) (unat (url_port u))) (\<lambda>r.
          eff_return (case r of Success t \<Rightarrow> Success (Some t) | Failure e \<Rightarrow> Failure e))),
      tf_supports = tcp_supports\<rparr>"

lemma tcp_class_send [simp]:
  "doSend (tcp_class pl pack) t msg w
     = (fst (tcp_doSend pl pack msg (tcps w t)), w\<lparr>tcps := (tcps w)(t := snd (tcp_doSend pl pack msg (tcps w t)))\<rparr>)"
  by (simp add: tcp_class_def with_tcp_def split_def Let_def)

lemma tcp_class_state [simp]: "service_m_state (tcp_class pl pack) t w = tcp_m_state (tcps w t)"
  by (simp add: tcp_class_def)

subsection \<open>Transports that start\<close>

text \<open>
  What a session relies on when it is created: the transport remembers its owner, and
  after a start that owner is still there and the service is active; stopping throws
  nothing.
\<close>

locale startable_transport =
  fixes c :: "('w, 't) transport_class"
  assumes start_quiet: "fst (doStart c t w) = Inr ()"
    and start_active: "service_m_state c t (snd (doStart c t w)) = StartPending
      \<or> service_m_state c t (snd (doStart c t w)) = Started"
    and start_owner: "get_m_session c t (snd (doStart c t w)) = get_m_session c t w"
    and put_owner: "get_m_session c t (put_m_session c t sid w) = Some sid"
    and stop_quiet: "fst (doStop c t w) = Inr ()"
begin

lemma createNew:
  "session_createNew c sid (Some t) w
     = (Inr \<lparr>session_m_id = sid, session_m_transport = t\<rparr>, snd (doStart c t (put_m_session c t sid w)))"
proof -
  obtain v where "doStart c t (put_m_session c t sid w) = (Inr (), v)"
    using start_quiet [of t "put_m_session c t sid w"] by (cases "doStart c t (put_m_session c t sid w)") auto
  then show ?thesis
    by (simp add: session_createNew_def setOwner_def eff_then_def eff_bind_def)
qed

lemma created_active:
  "session_active c \<lparr>session_m_id = sid, session_m_transport = t\<rparr> (snd (doStart c t w))"
  using start_active by (simp add: session_active_def)

lemma created_owner:
  "fst (transport_owner c t (snd (doStart c t (put_m_session c t sid w)))) = Inr sid"
  by (simp add: transport_owner_def start_owner put_owner)

lemma quiet_end:
  "(\<And>p w. fst (call_if_set (onSessionTerminating cb) p w) = Inr ()) \<Longrightarrow>
   (\<And>p w. fst (call_if_set (onSessionTerminated cb) p w) = Inr ()) \<Longrightarrow> ends_quietly c cb"
  by (simp add: ends_quietly_def stop_quiet)

text \<open>A new identifier and no callback for opened sessions.\<close>

lemma createSession_new:
  assumes "onSessionOpened cb = None" and "map_of (m_sessions sm) (m_session_id sm + 1) = None"
  shows "createSession c cb (Some t) (sm, w)
     = (Inr \<lparr>session_m_id = m_session_id sm + 1, session_m_transport = t\<rparr>,
        (sm\<lparr>m_session_id := m_session_id sm + 1,
            m_sessions := al_insert (m_session_id sm + 1)
              (Some \<lparr>session_m_id = m_session_id sm + 1, session_m_transport = t\<rparr>) (m_sessions sm)\<rparr>,
         snd (doStart c t (put_m_session c t (m_session_id sm + 1) w))))"
  using assms
  by (simp add: createSession_def factory_createSession_def session_generateId_def eff_bind_def eff_then_def
      in_world_def createNew get_local_def set_local_def Let_def call_if_set_def deref_def al_insert_def
      map_add_def)

end

interpretation ts: startable_transport "tcp_class pl pack"
  by unfold_locales
    (simp_all add: tcp_class_def with_tcp_def tcp_doStart_def readMessageLength_def)

subsection \<open>A round of publishing over TCP\<close>

abbreviation tcp_of :: "session_id \<times> nat session_ptr \<Rightarrow> nat" where
  "tcp_of e \<equiv> session_m_transport (the (snd e))"

definition tcp_active :: "tcp_world \<Rightarrow> session_id \<times> nat session_ptr \<Rightarrow> bool" where
  "tcp_active w e \<longleftrightarrow> tcp_m_state (tcps w (tcp_of e)) = StartPending \<or> tcp_m_state (tcps w (tcp_of e)) = Started"

lemma frame_clone:
  assumes "message_inv m" and "sendable m"
  shows "frame (fst (message_clone m n)) = count_bytes (2 + message_serializedSize m)
           @ concat (map (\<lambda>f. wire (fld_value f)) (rev (message_fields m)))"
    and "sendable (fst (message_clone m n))"
    and "message_serializedSize (fst (message_clone m n)) = message_serializedSize m"
proof -
  note fields = message_copy(2) [OF assms(1), of n]
  show s: "sendable (fst (message_clone m n))"
    using assms(2) by (simp add: sendable_def message_clone_def fields list_all_iff)
  show "message_serializedSize (fst (message_clone m n)) = message_serializedSize m"
    unfolding serializedSize_wire [OF s] serializedSize_wire [OF assms(2)]
    by (simp add: message_clone_def fields fields_wire_def length_concat rev_map [symmetric] sum_list_rev o_def)
  then show "frame (fst (message_clone m n)) = count_bytes (2 + message_serializedSize m)
           @ concat (map (\<lambda>f. wire (fld_value f)) (rev (message_fields m)))"
    by (simp add: frame_def) (simp add: message_clone_def fields fields_wire_def)
qed

lemma publish_one_tcp:
  assumes "binary_pack pl pack" and "message_inv m" and "sendable m" and "message_serializedSize m \<le> 65533"
    and "snd e \<noteq> None" and "tcp_active w e \<Longrightarrow> idle (tcps w (tcp_of e))"
  shows "publish_one (tcp_class pl pack) (\<lambda>p. clone_message (Some m)) (snd e) (n, w)
     = (Inr (tcp_active w e),
        if tcp_active w e
        then (n + 1, w\<lparr>tcps := (tcps w)(tcp_of e := after_send (fst (message_clone m n)) (tcps w (tcp_of e)))\<rparr>)
        else (n, w))"
proof -
  obtain s where s: "snd e = Some s" using assms(5) by blast
  obtain m' where m': "message_clone m n = (m', n + 1)"
    using message_clone_id [of m n] by (cases "message_clone m n") auto
  have send: "tcp_doSend pl pack (Some m') T = (Inr (), after_send m' T)" if "idle T" for T
    using frame_clone(2,3) [OF assms(2,3), of n] assms(4) that
    by (intro doSend_empty_queue [OF assms(1)]) (simp_all add: m' idle_def)
  show ?thesis
    using assms(6)
    by (auto simp: publish_one_def s deref_def session_active_def tcp_active_def eff_catch_std_def eff_bind_def
        eff_then_def in_world_def clone_message_def m' session_send_def transport_send_def send)
qed

text \<open>What the round leaves of the transports: the \<open>i\<close>-th active subscriber has the \<open>i\<close>-th clone.\<close>

primrec clones_sent ::
  "message \<Rightarrow> (session_id \<times> nat session_ptr) list \<Rightarrow> message_id \<Rightarrow> (nat \<Rightarrow> tcp_transport) \<Rightarrow> nat \<Rightarrow> tcp_transport" where
  "clones_sent m [] n ts = ts"
| "clones_sent m (e # es) n ts =
     clones_sent m es (n + 1) (ts(tcp_of e := after_send (fst (message_clone m n)) (ts (tcp_of e))))"

lemma clones_sent_other: "t \<notin> tcp_of ` set es \<Longrightarrow> clones_sent m es n ts t = ts t"
  by (induction es arbitrary: n ts) auto

lemma clones_sent_nth:
  "i < length es \<Longrightarrow> distinct (map tcp_of es) \<Longrightarrow>
   clones_sent m es n ts (tcp_of (es ! i)) = after_send (fst (message_clone m (n + of_nat i))) (ts (tcp_of (es ! i)))"
proof (induction es arbitrary: i n ts)
  case (Cons e es)
  show ?case
  proof (cases i)
    case 0
    with Cons.prems show ?thesis by (simp add: clones_sent_other)
  next
    case (Suc k)
    with Cons.prems have "tcp_of (es ! k) \<in> tcp_of ` set es" by simp
    moreover have "tcp_of e \<notin> tcp_of ` set es" using Cons.prems(2) by simp
    ultimately have "tcp_of (es ! k) \<noteq> tcp_of e" by metis
    with Suc Cons.prems Cons.IH [of k "n + 1"] show ?thesis by (simp add: ac_simps)
  qed
qed simp

lemma collect_broken_tcp:
  assumes "binary_pack pl pack" and "message_inv m" and "sendable m" and "message_serializedSize m \<le> 65533"
    and "\<forall>e \<in> set es. snd e \<noteq> None \<and> (tcp_active w e \<longrightarrow> idle (tcps w (tcp_of e)))"
    and "distinct (map tcp_of es)"
  shows "collect_broken (publish_one (tcp_class pl pack) (\<lambda>p. clone_message (Some m))) es (n, w)
     = (Inr (map fst (filter (\<lambda>e. \<not> tcp_active w e) es)),
        (n + of_nat (length (filter (tcp_active w) es)),
         w\<lparr>tcps := clones_sent m (filter (tcp_active w) es) n (tcps w)\<rparr>))"
  using assms(5,6)
proof (induction es arbitrary: n w)
  case (Cons e es)
  define w1 where "w1 = (if tcp_active w e
      then w\<lparr>tcps := (tcps w)(tcp_of e := after_send (fst (message_clone m n)) (tcps w (tcp_of e)))\<rparr> else w)"
  have turn: "publish_one (tcp_class pl pack) (\<lambda>p. clone_message (Some m)) (snd e) (n, w)
      = (Inr (tcp_active w e), (if tcp_active w e then n + 1 else n), w1)"
    using publish_one_tcp [OF assms(1-4), of e w n] Cons.prems(1) by (simp add: w1_def)
  have same: "tcps w1 (tcp_of x) = tcps w (tcp_of x)" if "x \<in> set es" for x
  proof -
    have "tcp_of x \<in> tcp_of ` set es" using that by (rule imageI)
    moreover have "tcp_of e \<notin> tcp_of ` set es" using Cons.prems(2) by simp
    ultimately have "tcp_of x \<noteq> tcp_of e" by metis
    then show ?thesis by (simp add: w1_def)
  qed
  then have act: "tcp_active w1 x = tcp_active w x" if "x \<in> set es" for x
    using that by (simp add: tcp_active_def)
  have filt: "filter (tcp_active w1) es = filter (tcp_active w) es"
    "filter (\<lambda>x. \<not> tcp_active w1 x) es = filter (\<lambda>x. \<not> tcp_active w x) es"
    using act by (auto intro: filter_cong)
  have "\<forall>x \<in> set es. snd x \<noteq> None \<and> (tcp_active w1 x \<longrightarrow> idle (tcps w1 (tcp_of x)))"
    using Cons.prems(1) act same by simp
  from Cons.IH [OF this] Cons.prems(2)
  show ?case
    by (simp add: eff_bind_def turn filt) (simp add: w1_def)
qed simp

subsection \<open>Properties\<close>

text \<open>C22: Publishing over TCP: every subscribed session whose transport is active and idle gets one write, in
  the order of the map and with the next message identifiers, of the frame of its own clone: the length, then the
  fields in the opposite order; the others are unsubscribed, and no other transport is
  touched.  When the write is done, exactly these bytes have gone out.\<close>

theorem publish_reaches_sockets:
  assumes "binary_pack pl pack" and "message_inv m" and "sendable m" and "message_serializedSize m \<le> 65533"
    and "pubsub_inv ch" and "distinct (map tcp_of (m_subscribers ch))"
    and "\<forall>e \<in> set (m_subscribers ch). tcp_active w e \<longrightarrow> idle (tcps w (tcp_of e))"
    and "onUnsubscribed ch = onUnsubscribed pubsub_new"
    and "connection_refused ae \<noteq> 0" and "eof ae \<noteq> 0"
  shows "\<exists>w'. channel_send (tcp_class pl pack) (Some m) (ch, (n, w))
      = (Inr (), (ch\<lparr>m_subscribers := filter (tcp_active w) (m_subscribers ch)\<rparr>,
           (n + of_nat (length (filter (tcp_active w) (m_subscribers ch))), w')))
    \<and> (\<forall>i < length (filter (tcp_active w) (m_subscribers ch)).
         let t = tcp_of (filter (tcp_active w) (m_subscribers ch) ! i)
         in tcps w' t = after_send (fst (message_clone m (n + of_nat i))) (tcps w t)
            \<and> (\<exists>T. on_written pl pack ae 0 (tcps w' t) = (Inr (), T) \<and> idle T
                \<and> sent_bytes T = sent_bytes (tcps w t) @ count_bytes (2 + message_serializedSize m)
                    @ concat (map (\<lambda>f. wire (fld_value f)) (rev (message_fields m)))))
    \<and> (\<forall>t. t \<notin> tcp_of ` set (filter (tcp_active w) (m_subscribers ch)) \<longrightarrow> tcps w' t = tcps w t)"
proof -
  let ?subs = "m_subscribers ch" and ?on = "filter (tcp_active w) (m_subscribers ch)"
  let ?off = "map fst (filter (\<lambda>e. \<not> tcp_active w e) ?subs)"
  let ?ts = "clones_sent m ?on n (tcps w)" and ?n = "n + of_nat (length ?on)"
  have dist: "distinct (map fst ?subs)" and ptr: "\<forall>e \<in> set ?subs. snd e \<noteq> None"
    using assms(5) by (force simp: pubsub_inv_def)+
  have on: "distinct (map tcp_of ?on)" using assms(6) by (simp add: distinct_map_filter)
  have "filter (\<lambda>e. fst e \<notin> set ?off) ?subs = ?on"
    using dist by (auto intro!: filter_cong simp: distinct_map dest: inj_onD)
  moreover have "fold (\<lambda>sid w. w) ids v = v" for ids :: "session_id list" and v :: tcp_world
    by (induction ids) simp_all
  ultimately have un: "eff_for ?off
      (\<lambda>sid. eff_bind (helper_unsubscribe sid SubscriberTransportHasBeenStopped) (\<lambda>r. Pair (Inr ())))
      (ch, (?n, w\<lparr>tcps := ?ts\<rparr>))
    = (Inr (), (ch\<lparr>m_subscribers := ?on\<rparr>, (?n, w\<lparr>tcps := ?ts\<rparr>)))"
    using unsubscribe_all [of ch "\<lambda>reason. Pair (Inr ())" SubscriberTransportHasBeenStopped ?off ?n "w\<lparr>tcps := ?ts\<rparr>"]
      assms(8) dist
    by (auto simp: distinct_map_filter pubsub_new_def)
  have send: "channel_send (tcp_class pl pack) (Some m) (ch, (n, w))
      = (Inr (), (ch\<lparr>m_subscribers := ?on\<rparr>, (?n, w\<lparr>tcps := ?ts\<rparr>)))"
    using collect_broken_tcp [OF assms(1-4), of ?subs w n] ptr assms(6,7) un
    by (simp add: channel_send_def internal_send_def publish_from_def eff_bind_def get_local_def in_world_def)
  have each: "?ts (tcp_of (?on ! i)) = after_send (fst (message_clone m (n + of_nat i))) (tcps w (tcp_of (?on ! i)))"
    "idle (tcps w (tcp_of (?on ! i)))" if "i < length ?on" for i
    using clones_sent_nth [OF that on, of m n "tcps w"] nth_mem [OF that] assms(7) by auto
  have "\<exists>T. on_written pl pack ae 0 (?ts (tcp_of (?on ! i))) = (Inr (), T) \<and> idle T
      \<and> sent_bytes T = sent_bytes (tcps w (tcp_of (?on ! i))) @ count_bytes (2 + message_serializedSize m)
          @ concat (map (\<lambda>f. wire (fld_value f)) (rev (message_fields m)))" if "i < length ?on" for i
    using on_written_after_send [OF each(2) [OF that] assms(9,10), of pl pack "fst (message_clone m (n + of_nat i))"]
    unfolding each(1) [OF that] frame_clone(1) [OF assms(2,3)] .
  with each(1) send clones_sent_other show ?thesis
    by (intro exI [of _ "w\<lparr>tcps := ?ts\<rparr>"]) (simp add: Let_def)
qed

text \<open>Two sessions on the transports of the world below: the second has not been started.\<close>

definition demo_tcp_world :: tcp_world where
  "demo_tcp_world = \<lparr>tcps = (\<lambda>t. if t = 0 then demo_tcp else tcp_new), tw_now = 0\<rparr>"

lemma demo_tcp_facts [simp]:
  "tcp_m_state demo_tcp = Started" "tcp_m_state tcp_new = Stopped" "sent_bytes demo_tcp = []"
  by (simp_all add: demo_tcp_def tcp_doStart_def readMessageLength_def tcp_new_def)

definition demo_tcp_channel :: "(tcp_world, nat) pubsub_channel" where
  "demo_tcp_channel = pubsub_new\<lparr>m_subscribers :=
     [(1, Some \<lparr>session_m_id = 1, session_m_transport = 0\<rparr>),
      (2, Some \<lparr>session_m_id = 2, session_m_transport = 1\<rparr>)]\<rparr>"

theorem publish_reaches_sockets_witness:
  "\<exists>w'. channel_send (tcp_class demo_platform (field_serializer demo_platform)) (Some demo_message)
        (demo_tcp_channel, (7, demo_tcp_world))
      = (Inr (), (demo_tcp_channel\<lparr>m_subscribers := [(1, Some \<lparr>session_m_id = 1, session_m_transport = 0\<rparr>)]\<rparr>, (8, w')))
    \<and> (\<exists>T. on_written demo_platform (field_serializer demo_platform) demo_asio 0 (tcps w' 0) = (Inr (), T)
        \<and> sent_bytes T = [6, 0, 0, 0, 0, 0])"
proof -
  have subs: "filter (tcp_active demo_tcp_world) (m_subscribers demo_tcp_channel)
      = [(1, Some \<lparr>session_m_id = 1, session_m_transport = 0\<rparr>)]"
    by (simp add: demo_tcp_channel_def demo_tcp_world_def tcp_active_def)
  have bytes: "count_bytes (2 + message_serializedSize demo_message)
      @ concat (map (\<lambda>f. wire (fld_value f)) (rev (message_fields demo_message))) = [6, 0, 0, 0, 0, 0]"
    by (simp add: demo_message(2) demo_fields_def demo_sendable(2) count_bytes_def bytes_le_explicit)
  have "pubsub_inv demo_tcp_channel" "distinct (map tcp_of (m_subscribers demo_tcp_channel))"
    "\<forall>e \<in> set (m_subscribers demo_tcp_channel). tcp_active demo_tcp_world e \<longrightarrow> idle (tcps demo_tcp_world (tcp_of e))"
    "onUnsubscribed demo_tcp_channel = onUnsubscribed pubsub_new"
    "connection_refused demo_asio \<noteq> 0" "eof demo_asio \<noteq> 0" "message_serializedSize demo_message \<le> 65533"
    "tcps demo_tcp_world 0 = demo_tcp"
    by (simp_all add: demo_tcp_channel_def demo_tcp_world_def pubsub_inv_def tcp_active_def demo_idle demo_asio_def
        demo_sendable(2))
  note facts = this
  show ?thesis
    using publish_reaches_sockets [OF binary_pack_single demo_message(1) demo_sendable(1) facts(7) facts(1-6),
        of demo_platform 7]
    unfolding subs bytes facts(8) by (auto simp: facts(8))
qed

subsection \<open>Connecting\<close>

lemma createTransport_tcp:
  assumes "resolve (url_hostname u) (unat (url_port u)) w = (Inr (Inl ep), w1)" and "connect ep w1 = (Inr (Inl t), w2)"
  shows "createTransport (tcp_factory resolve connect) u w = (Inr (Success (Some t)), w2)"
  using assms
  by (simp add: createTransport_def tcp_factory_def tcp_createTransport_def eff_noexcept_def eff_bind_def)

lemma registered_last:
  "tf_supports f protocol \<Longrightarrow> getFactory protocol (registerFactory (Some f) (map Some fs)) = Inr (Some f)"
  using getFactory_loop [of protocol "fs @ [f]" None]
  by (cases "filter (\<lambda>f. tf_supports f protocol) fs") (simp_all add: getFactory_def registerFactory_def)

text \<open>C21: Connecting over TCP: when the host is resolved and the socket connects, \<^verbatim>\<open>connect\<close> returns a new session that
  the manager has under its identifier, active, reading, and the owner of its transport; a
  message sent through it goes out as exactly its frame, and a request through it is pending
  under the identifier of its message.\<close>

theorem connect_opens_tcp_session:
  assumes "url_protocol u = ''tcp''"
    and "resolve (url_hostname u) (unat (url_port u)) w = (Inr (Inl ep), w1)" and "connect ep w1 = (Inr (Inl t), w2)"
    and "idle (tcps w2 t)" and "requests_inv (tcps w2 t)"
    and "map_of (m_sessions sm) (m_session_id sm + 1) = None" and "onSessionOpened cb = None"
    and "binary_pack pl pack" and "sendable m" and "message_serializedSize m \<le> 65533"
    and "connection_refused ae \<noteq> 0" and "eof ae \<noteq> 0"
  shows "let c = tcp_class pl pack; s = \<lparr>session_m_id = m_session_id sm + 1, session_m_transport = t\<rparr>
    in \<exists>sm' w3. ms_connect c cb (registerFactory (Some (tcp_factory resolve connect)) (map Some fs)) u (sm, w)
          = (Inr (Success s), (sm', w3))
      \<and> map_of (m_sessions sm') (session_m_id s) = Some (Some s)
      \<and> session_active c s w3 \<and> reading (tcps w3 t)
      \<and> fst (transport_owner c t w3) = Inr (session_m_id s)
      \<and> (\<exists>w4 T. session_send c s (Some m) w3 = (Inr (), w4)
          \<and> on_written pl pack ae 0 (tcps w4 t) = (Inr (), T)
          \<and> sent_bytes T = sent_bytes (tcps w2 t) @ frame m)
      \<and> (\<exists>promise w5. session_request c s (Some m) w3 = (Inr promise, w5)
          \<and> (map_of (m_pending_requests (tcps w2 t)) (msg_id m) = None \<longrightarrow>
               map_of (m_pending_requests (tcps w5 t)) (msg_id m) = Some promise \<and> futures (tcps w5 t) promise = None))"
proof -
  let ?c = "tcp_class pl pack" and ?sid = "m_session_id sm + 1"
  let ?s = "\<lparr>session_m_id = ?sid, session_m_transport = t\<rparr>"
  let ?T = "tcp_doStart ((tcps w2 t)\<lparr>tcp_m_session := Some ?sid\<rparr>)"
  define w3 where "w3 = snd (doStart ?c t (put_m_session ?c t ?sid w2))"
  define sm' where "sm' = sm\<lparr>m_session_id := ?sid, m_sessions := al_insert ?sid (Some ?s) (m_sessions sm)\<rparr>"
  have T: "tcps w3 t = ?T" by (simp add: w3_def tcp_class_def with_tcp_def)
  have conn: "ms_connect ?c cb (registerFactory (Some (tcp_factory resolve connect)) (map Some fs)) u (sm, w)
      = (Inr (Success ?s), (sm', w3))"
    using registered_last [of "tcp_factory resolve connect" "''tcp''" fs]
      createTransport_tcp [where resolve = resolve and connect = connect, OF assms(2,3)] ts.createSession_new [OF assms(7,6), of pl pack t w2]
    by (simp add: ms_connect_def assms(1) eff_catch_all_def eff_bind_def in_world_def w3_def sm'_def
        tcp_factory_def [of resolve connect] tcp_supports_def)
  have idle: "idle ?T" using assms(4) by (simp add: tcp_doStart_def readMessageLength_def idle_def)
  have sent: "sent_bytes ?T = sent_bytes (tcps w2 t)" "reading ?T"
    "m_pending_requests ?T = m_pending_requests (tcps w2 t)" "next_future ?T = next_future (tcps w2 t)"
    "futures ?T = futures (tcps w2 t)"
    by (simp_all add: tcp_doStart_def readMessageLength_def)
  have send: "tcp_doSend pl pack (Some m) T' = (Inr (), after_send m T')"
    if "m_queue (m_outgoing_messages T') = []" for T'
    by (rule doSend_empty_queue [OF assms(8-10) that])
  have q: "m_queue (m_outgoing_messages ?T) = []" using idle by (simp add: idle_def)
  have "map_of (m_sessions sm') ?sid = Some (Some ?s)"
    using assms(6) by (simp add: sm'_def al_insert_def map_add_def)
  moreover have "session_active ?c ?s w3" "fst (transport_owner ?c t w3) = Inr ?sid"
    unfolding w3_def by (rule ts.created_active, rule ts.created_owner)
  moreover have "\<exists>w4 T. session_send ?c ?s (Some m) w3 = (Inr (), w4)
      \<and> on_written pl pack ae 0 (tcps w4 t) = (Inr (), T) \<and> sent_bytes T = sent_bytes (tcps w2 t) @ frame m"
    using on_written_after_send [OF idle assms(11,12), of pl pack m]
    by (auto simp: session_send_def transport_send_def T send [OF q] sent)
  moreover have "\<exists>promise w5. session_request ?c ?s (Some m) w3 = (Inr promise, w5)
      \<and> (map_of (m_pending_requests (tcps w2 t)) (msg_id m) = None \<longrightarrow>
           map_of (m_pending_requests (tcps w5 t)) (msg_id m) = Some promise \<and> futures (tcps w5 t) promise = None)"
    using q assms(5)
    by (auto simp: session_request_def transport_request_def tcp_class_def with_tcp_def T tcp_doRequest_def Let_def
        send after_send_def al_insert_def map_add_def sent requests_inv_def)
  ultimately show ?thesis
    using conn sent(2) T by (auto simp: Let_def)
qed

text \<open>A host that resolves to an endpoint 9, and a socket that becomes transport 1.\<close>

definition demo_resolve :: "string \<Rightarrow> nat \<Rightarrow> (tcp_world, nat + int) eff" where
  "demo_resolve host port w = (Inr (if host = ''host'' \<and> port = 9000 then Inl 9 else Inr 1), w)"

definition demo_socket :: "nat \<Rightarrow> (tcp_world, nat + int) eff" where
  "demo_socket ep w = (Inr (Inl 1), w\<lparr>tcps := (tcps w)(1 := tcp_new)\<rparr>)"

theorem connect_opens_tcp_session_witness:
  "\<exists>sm' w3 w4 T. ms_connect (tcp_class demo_platform (field_serializer demo_platform)) session_callbacks_new
        (registerFactory (Some (tcp_factory demo_resolve demo_socket)) (map Some [])) tcp_url (session_manager_new, demo_tcp_world)
      = (Inr (Success \<lparr>session_m_id = 1, session_m_transport = 1\<rparr>), (sm', w3))
    \<and> session_send (tcp_class demo_platform (field_serializer demo_platform)) \<lparr>session_m_id = 1, session_m_transport = 1\<rparr>
        (Some demo_message) w3 = (Inr (), w4)
    \<and> on_written demo_platform (field_serializer demo_platform) demo_asio 0 (tcps w4 1) = (Inr (), T)
    \<and> sent_bytes T = frame demo_message"
proof -
  let ?w2 = "demo_tcp_world\<lparr>tcps := (tcps demo_tcp_world)(1 := tcp_new)\<rparr>"
  have facts: "url_protocol tcp_url = ''tcp''"
    "demo_resolve (url_hostname tcp_url) (unat (url_port tcp_url)) demo_tcp_world = (Inr (Inl 9), demo_tcp_world)"
    "demo_socket 9 demo_tcp_world = (Inr (Inl 1), ?w2)"
    "idle (tcps ?w2 1)" "requests_inv (tcps ?w2 1)"
    "map_of (m_sessions session_manager_new) (m_session_id session_manager_new + 1) = None"
    "onSessionOpened session_callbacks_new = None" "message_serializedSize demo_message \<le> 65533"
    "connection_refused demo_asio \<noteq> 0" "eof demo_asio \<noteq> 0"
    by (simp_all add: tcp_url_def url_protocol_def url_hostname_def url_port_def demo_resolve_def demo_socket_def
        idle_def tcp_new_def queue_new_def requests_inv_def session_manager_new_def session_callbacks_new_def
        demo_sendable(2) demo_asio_def)
  have empty: "sent_bytes (tcps ?w2 1) = []" "m_session_id session_manager_new + 1 = 1"
    by (simp_all add: tcp_new_def session_manager_new_def)
  show ?thesis
    using connect_opens_tcp_session [where resolve = demo_resolve and connect = demo_socket,
        OF facts(1-7) binary_pack_single demo_sendable(1) facts(8-10), of demo_platform "[]"]
    unfolding empty Let_def by auto
qed

end
