(* ===== verification/Json_Model.thy ===== *)
theory Json_Model
  imports Exceptions "HOL-Library.AList"
begin

text \<open>
  \<^verbatim>\<open>include/isml/io/json_utils.hpp\<close>: loading, printing and merging JSON objects.
  The library for JSON values is not part of the repository: its \<^verbatim>\<open>Json::Value\<close> is a
  type \<open>'j\<close> with the operations that the code calls, and \<open>json_laws\<close> is what its
  documentation promises of them.
\<close>

subsection \<open>The operations of a JSON value\<close>

text \<open>
  \<open>js_at\<close> reads and \<open>js_set\<close> assigns through \<^verbatim>\<open>operator[]\<close>; on a value that is
  neither an object nor null both throw, as does \<^verbatim>\<open>isMember\<close>.  \<open>js_parse\<close> and
  \<open>js_write\<close> are the reader and the writer with their default settings.
\<close>

record 'j json_ops =
  js_null :: 'j
  js_isObject :: "'j \<Rightarrow> bool"
  js_getMemberNames :: "'j \<Rightarrow> string list"
  js_isMember :: "'j \<Rightarrow> string \<Rightarrow> bool outcome"
  js_at :: "'j \<Rightarrow> string \<Rightarrow> 'j outcome"
  js_set :: "'j \<Rightarrow> string \<Rightarrow> 'j \<Rightarrow> 'j outcome"
  js_int :: "bool \<Rightarrow> int \<Rightarrow> 'j"
  js_string :: "string \<Rightarrow> 'j"
  js_asInt64 :: "'j \<Rightarrow> int outcome"
  js_asUInt64 :: "'j \<Rightarrow> int outcome"
  js_asString :: "'j \<Rightarrow> string outcome"
  js_parse :: "string \<Rightarrow> 'j option"
  js_write :: "'j \<Rightarrow> string"

subsection \<open>JsonUtils\<close>

definition json_toString :: "'j json_ops \<Rightarrow> 'j \<Rightarrow> string" where
  "json_toString J json = js_write J json"

definition json_fromString :: "'j json_ops \<Rightarrow> string \<Rightarrow> 'j outcome" where
  "json_fromString J str =
     (case js_parse J str of
        None \<Rightarrow> Inl (Thrown (mk_exn IOException ''An error occurred during JSON reading''))
      | Some json \<Rightarrow> Inr json)"

text \<open>
  \<open>open_file\<close> is the content of a file that can be opened for reading and writing,
  which is the default mode of \<^verbatim>\<open>std::fstream\<close>; a stream that is not open reads as empty.
\<close>

definition json_load :: "'j json_ops \<Rightarrow> (string \<Rightarrow> string option) \<Rightarrow> string \<Rightarrow> 'j outcome" where
  "json_load J open_file pathname =
     (let is = (case open_file pathname of None \<Rightarrow> [] | Some text \<Rightarrow> text)
      in case js_parse J is of
           None \<Rightarrow> Inl (Thrown (mk_exn IOException ''An error occurred during JSON reading''))
         | Some json \<Rightarrow> Inr json)"

text \<open>\<^verbatim>\<open>lhs.isMember(name) && lhs[name].isObject()\<close>, with the member when it holds\<close>

definition object_member :: "'j json_ops \<Rightarrow> 'j \<Rightarrow> string \<Rightarrow> 'j option outcome" where
  "object_member J lhs name =
     bind_outcome (js_isMember J lhs name) (\<lambda>b.
       if b then bind_outcome (js_at J lhs name) (\<lambda>m. Inr (if js_isObject J m then Some m else None))
       else Inr None)"

text \<open>
  \<open>merge_from J lhs rhs None\<close> is a call of \<^verbatim>\<open>merge\<close>, \<open>merge_from J lhs rhs (Some names)\<close>
  the rest of its loop; the left side is returned as it is then.  The recursion follows
  the nesting of the values, and nothing in the code bounds it.  What the recursive call
  returns is not looked at.
\<close>

partial_function (option) merge_from ::
  "'j json_ops \<Rightarrow> 'j \<Rightarrow> 'j \<Rightarrow> string list option \<Rightarrow> (bool \<times> 'j) outcome option" where
  "merge_from J lhs rhs loop =
     (case loop of
        None \<Rightarrow>
          if \<not> js_isObject J lhs \<or> \<not> js_isObject J rhs then Some (Inr (False, lhs))
          else merge_from J lhs rhs (Some (js_getMemberNames J rhs))
      | Some names \<Rightarrow>
          (case names of
             [] \<Rightarrow> Some (Inr (True, lhs))
           | name # rest \<Rightarrow>
               (case bind_outcome (object_member J lhs name) (\<lambda>m.
                       bind_outcome (js_at J rhs name) (\<lambda>r. Inr (m, r))) of
                  Inl e \<Rightarrow> Some (Inl e)
                | Inr (m, r) \<Rightarrow>
                    Option.bind
                      (case m of None \<Rightarrow> Some (Inr (True, r)) | Some l \<Rightarrow> merge_from J l r None)
                      (\<lambda>res. case bind_outcome res (\<lambda>(b, v). js_set J lhs name v) of
                         Inl e \<Rightarrow> Some (Inl e)
                       | Inr lhs' \<Rightarrow> merge_from J lhs' rhs (Some rest)))))"

definition json_merge :: "'j json_ops \<Rightarrow> 'j \<Rightarrow> 'j \<Rightarrow> (bool \<times> 'j) outcome option" where
  "json_merge J lhs rhs = merge_from J lhs rhs None"

subsection \<open>What the code relies on\<close>

text \<open>The members of a value by name; an object or null can be indexed.\<close>

definition members :: "'j json_ops \<Rightarrow> 'j \<Rightarrow> string \<rightharpoonup> 'j" where
  "members J j name =
     (if name \<in> set (js_getMemberNames J j) then case js_at J j name of Inl e \<Rightarrow> None | Inr v \<Rightarrow> Some v else None)"

definition indexable :: "'j json_ops \<Rightarrow> 'j \<Rightarrow> bool" where
  "indexable J j \<longleftrightarrow> js_isObject J j \<or> j = js_null J"

text \<open>
  A JSON value is a finite tree (\<open>depth\<close> decreases along it); the member names are
  listed once each; \<^verbatim>\<open>isMember\<close> and \<^verbatim>\<open>operator[]\<close> know the same members; an assignment
  changes one member; numbers and strings can be read back.
\<close>

definition json_laws :: "'j json_ops \<Rightarrow> ('j \<Rightarrow> nat) \<Rightarrow> bool" where
  "json_laws J depth \<longleftrightarrow>
     \<not> js_isObject J (js_null J) \<and> js_getMemberNames J (js_null J) = []
     \<and> (\<forall>j. indexable J j \<longrightarrow>
          distinct (js_getMemberNames J j)
          \<and> (\<forall>n. js_isMember J j n = Inr (n \<in> set (js_getMemberNames J j)))
          \<and> (\<forall>n. js_at J j n = Inr (case members J j n of None \<Rightarrow> js_null J | Some v \<Rightarrow> v))
          \<and> (\<forall>n v. members J j n = Some v \<longrightarrow> depth v < depth j)
          \<and> (\<forall>n v. \<exists>j'. js_set J j n v = Inr j' \<and> js_isObject J j' \<and> members J j' = (members J j)(n \<mapsto> v)))
     \<and> (\<forall>b i. - (2 ^ 63) \<le> i \<and> i < 2 ^ 63 \<longrightarrow> js_asInt64 J (js_int J b i) = Inr i)
     \<and> (\<forall>b i. 0 \<le> i \<and> i < 2 ^ 64 \<longrightarrow> js_asUInt64 J (js_int J b i) = Inr i)
     \<and> (\<forall>s. js_asString J (js_string J s) = Inr s)"

lemma indexable_laws:
  assumes "json_laws J depth" and "indexable J j"
  shows "distinct (js_getMemberNames J j)" "js_isMember J j n = Inr (n \<in> set (js_getMemberNames J j))"
    "js_at J j n = Inr (case members J j n of None \<Rightarrow> js_null J | Some v \<Rightarrow> v)"
    "members J j n = Some v \<Longrightarrow> depth v < depth j"
    "\<exists>j'. js_set J j n v = Inr j' \<and> js_isObject J j' \<and> members J j' = (members J j)(n \<mapsto> v)"
  using assms unfolding json_laws_def by blast+

lemma members_dom:
  "json_laws J depth \<Longrightarrow> indexable J j \<Longrightarrow> n \<in> set (js_getMemberNames J j) \<longleftrightarrow> members J j n \<noteq> None"
proof -
  assume laws: "json_laws J depth" "indexable J j"
  obtain x where "js_at J j n = Inr x" by (rule that, rule indexable_laws(3) [OF laws])
  then show ?thesis by (simp add: members_def)
qed

lemma members_null: "json_laws J depth \<Longrightarrow> members J (js_null J) = Map.empty"
  by (simp add: fun_eq_iff members_def json_laws_def)

lemma object_indexable: "js_isObject J j \<Longrightarrow> indexable J j" "indexable J (js_null J)"
  by (simp_all add: indexable_def)

lemma object_member_eq:
  assumes "json_laws J depth" and "js_isObject J j"
  shows "object_member J j n = Inr (case members J j n of
      None \<Rightarrow> None | Some m \<Rightarrow> if js_isObject J m then Some m else None)"
  using indexable_laws(2,3) [OF assms(1) object_indexable(1) [OF assms(2)], of n]
    members_dom [OF assms(1) object_indexable(1) [OF assms(2)], of n]
  by (auto simp: object_member_def)

subsection \<open>Merging\<close>

text \<open>The value of \<open>lhs\<close> after a merge that returned.\<close>

definition merged :: "'j json_ops \<Rightarrow> 'j \<Rightarrow> 'j \<Rightarrow> 'j" where
  "merged J lhs rhs = (case json_merge J lhs rhs of Some (Inr (b, m)) \<Rightarrow> m | _ \<Rightarrow> lhs)"

text \<open>One member after the merge, from the members before it.\<close>

definition merge_member :: "'j json_ops \<Rightarrow> 'j option \<Rightarrow> 'j option \<Rightarrow> 'j option" where
  "merge_member J l r =
     (case r of
        None \<Rightarrow> l
      | Some y \<Rightarrow> (case l of Some x \<Rightarrow> if js_isObject J x then Some (merged J x y) else Some y | None \<Rightarrow> Some y))"

lemma merge_not_objects:
  "\<not> js_isObject J lhs \<or> \<not> js_isObject J rhs \<Longrightarrow> json_merge J lhs rhs = Some (Inr (False, lhs))"
  unfolding json_merge_def by (subst merge_from.simps) simp

lemma merge_loop:
  assumes laws: "json_laws J depth" and "js_isObject J rhs" and "js_isObject J lhs"
    and "distinct names" and "set names \<subseteq> set (js_getMemberNames J rhs)"
    and below: "\<And>l r. depth r < depth rhs \<Longrightarrow> \<exists>b m. json_merge J l r = Some (Inr (b, m))"
  shows "\<exists>m. merge_from J lhs rhs (Some names) = Some (Inr (True, m)) \<and> js_isObject J m
    \<and> (\<forall>n. members J m n = (if n \<in> set names then merge_member J (members J lhs n) (members J rhs n)
                             else members J lhs n))"
  using assms(3-5)
proof (induction names arbitrary: lhs)
  case Nil
  then show ?case by (subst merge_from.simps) simp
next
  case (Cons name names)
  note R = object_indexable(1) [OF assms(2)] and L = object_indexable(1) [OF Cons.prems(1)]
  obtain r where r: "members J rhs name = Some r" "js_at J rhs name = Inr r"
    using Cons.prems(3) members_dom [OF laws R, of name] indexable_laws(3) [OF laws R, of name] by auto
  obtain v b where v: "(case (case members J lhs name of None \<Rightarrow> None
        | Some m \<Rightarrow> if js_isObject J m then Some m else None) of
        None \<Rightarrow> Some (Inr (True, r)) | Some l \<Rightarrow> merge_from J l r None) = Some (Inr (b, v))"
    and v': "merge_member J (members J lhs name) (members J rhs name) = Some v"
  proof (cases "\<exists>l. members J lhs name = Some l \<and> js_isObject J l")
    case True
    then obtain l where l: "members J lhs name = Some l" "js_isObject J l" by blast
    obtain b m where "json_merge J l r = Some (Inr (b, m))"
      using below indexable_laws(4) [OF laws R r(1)] by blast
    then show thesis
      using that l r(1) by (simp add: merge_member_def merged_def json_merge_def)
  next
    case False
    then show thesis
      using that [of True r] r(1) by (auto simp: merge_member_def split: option.split)
  qed
  obtain lhs' where lhs': "js_set J lhs name v = Inr lhs'" "js_isObject J lhs'"
      "members J lhs' = (members J lhs)(name \<mapsto> v)"
    using indexable_laws(5) [OF laws L, of name v] by blast
  have step: "merge_from J lhs rhs (Some (name # names)) = merge_from J lhs' rhs (Some names)"
    by (subst merge_from.simps) (simp add: object_member_eq [OF laws Cons.prems(1)] r(2) v lhs'(1))
  from Cons.IH [OF lhs'(2)] Cons.prems(2,3) obtain m where
    m: "merge_from J lhs' rhs (Some names) = Some (Inr (True, m))" "js_isObject J m"
      "\<And>n. members J m n = (if n \<in> set names then merge_member J (members J lhs' n) (members J rhs n)
                             else members J lhs' n)"
    by auto
  show ?case
    unfolding step using m Cons.prems(2) v' lhs'(3) by auto
qed

lemma merge_returns:
  assumes laws: "json_laws J depth"
  shows "\<exists>b m. json_merge J lhs rhs = Some (Inr (b, m))"
proof (induction "depth rhs" arbitrary: lhs rhs rule: less_induct)
  case less
  show ?case
  proof (cases "js_isObject J lhs \<and> js_isObject J rhs")
    case True
    then have "merge_from J lhs rhs None = merge_from J lhs rhs (Some (js_getMemberNames J rhs))"
      by (subst merge_from.simps) simp
    moreover note merge_loop [OF laws _ _ indexable_laws(1) [OF laws object_indexable(1)] order_refl less.hyps,
        of rhs lhs]
    ultimately show ?thesis using True by (auto simp: json_merge_def)
  next
    case False
    then have "\<not> js_isObject J lhs \<or> \<not> js_isObject J rhs" by blast
    from merge_not_objects [OF this] show ?thesis by blast
  qed
qed

lemma merge_objects:
  assumes "json_laws J depth" and "js_isObject J lhs" and "js_isObject J rhs"
  shows "\<exists>m. json_merge J lhs rhs = Some (Inr (True, m)) \<and> js_isObject J m
    \<and> members J m = (\<lambda>n. merge_member J (members J lhs n) (members J rhs n))"
proof -
  have "merge_from J lhs rhs None = merge_from J lhs rhs (Some (js_getMemberNames J rhs))"
    using assms(2,3) by (subst merge_from.simps) simp
  moreover obtain m where m: "merge_from J lhs rhs (Some (js_getMemberNames J rhs)) = Some (Inr (True, m))"
      "js_isObject J m"
      "\<And>n. members J m n = (if n \<in> set (js_getMemberNames J rhs)
         then merge_member J (members J lhs n) (members J rhs n) else members J lhs n)"
    using merge_loop [OF assms(1,3,2) indexable_laws(1) [OF assms(1) object_indexable(1) [OF assms(3)]]
        order_refl merge_returns [OF assms(1)]] by blast
  moreover have "members J m n = merge_member J (members J lhs n) (members J rhs n)" for n
    using m(3) [of n] members_dom [OF assms(1) object_indexable(1) [OF assms(3)], of n]
    by (auto simp: merge_member_def)
  ultimately show ?thesis by (auto simp: json_merge_def)
qed

subsection \<open>Properties\<close>

text \<open>C29: Merging JSON objects ends, on finite values, without an exception: the result has the members of
  both; where both have one, objects are merged in the same way, and any other member takes
  the value of the right side, except that a member of the left side that is an object is
  kept when the right side has anything else there, although \<^verbatim>\<open>merge\<close> returns true.
  Values that are not both objects are refused and left alone.\<close>

theorem json_merge_spec:
  assumes "json_laws J depth"
  shows "if js_isObject J lhs \<and> js_isObject J rhs
    then \<exists>m. json_merge J lhs rhs = Some (Inr (True, m)) \<and> js_isObject J m
      \<and> (\<forall>n. members J m n =
           (case (members J lhs n, members J rhs n) of
              (l, None) \<Rightarrow> l
            | (None, Some y) \<Rightarrow> Some y
            | (Some x, Some y) \<Rightarrow>
                if js_isObject J x then Some (if js_isObject J y then merged J x y else x) else Some y))
    else json_merge J lhs rhs = Some (Inr (False, lhs))"
proof (cases "js_isObject J lhs \<and> js_isObject J rhs")
  case True
  then obtain m where m: "json_merge J lhs rhs = Some (Inr (True, m))" "js_isObject J m"
      "members J m = (\<lambda>n. merge_member J (members J lhs n) (members J rhs n))"
    using merge_objects [OF assms] by blast
  have "merged J x y = x" if "\<not> js_isObject J y" for x y
    using merge_not_objects [of J x y] that by (simp add: merged_def)
  with m True show ?thesis by (auto simp: merge_member_def split: option.split)
next
  case False
  then have "\<not> js_isObject J lhs \<or> \<not> js_isObject J rhs" by blast
  from merge_not_objects [OF this] False show ?thesis by simp
qed

subsection \<open>An example\<close>

text \<open>JSON values as trees, to see that the laws can hold.\<close>

datatype json_tree = JNull | JInt int | JString string | JObject "(string \<times> json_tree) list"

definition not_indexable :: "'a outcome" where
  "not_indexable = Inl (Thrown (mk_exn StdRuntimeError ''requires objectValue''))"

definition tree_json :: "json_tree json_ops" where
  "tree_json =
     \<lparr>js_null = JNull,
      js_isObject = (\<lambda>j. case j of JObject es \<Rightarrow> True | _ \<Rightarrow> False),
      js_getMemberNames = (\<lambda>j. case j of JObject es \<Rightarrow> remdups (map fst es) | _ \<Rightarrow> []),
      js_isMember = (\<lambda>j n. case j of JNull \<Rightarrow> Inr False | JObject es \<Rightarrow> Inr (map_of es n \<noteq> None) | _ \<Rightarrow> not_indexable),
      js_at = (\<lambda>j n. case j of JNull \<Rightarrow> Inr JNull
        | JObject es \<Rightarrow> Inr (case map_of es n of None \<Rightarrow> JNull | Some v \<Rightarrow> v) | _ \<Rightarrow> not_indexable),
      js_set = (\<lambda>j n v. case j of JNull \<Rightarrow> Inr (JObject [(n, v)])
        | JObject es \<Rightarrow> Inr (JObject (AList.update n v es)) | _ \<Rightarrow> not_indexable),
      js_int = (\<lambda>b. JInt), js_string = JString,
      js_asInt64 = (\<lambda>j. case j of JInt i \<Rightarrow> Inr i | _ \<Rightarrow> not_indexable),
      js_asUInt64 = (\<lambda>j. case j of JInt i \<Rightarrow> Inr i | _ \<Rightarrow> not_indexable),
      js_asString = (\<lambda>j. case j of JString s \<Rightarrow> Inr s | _ \<Rightarrow> not_indexable),
      js_parse = (\<lambda>s. None), js_write = (\<lambda>j. [])\<rparr>"

lemma tree_ops [simp]:
  "js_null tree_json = JNull"
  "js_isObject tree_json (JObject es)" "\<not> js_isObject tree_json JNull"
  "\<not> js_isObject tree_json (JInt i)" "\<not> js_isObject tree_json (JString s)"
  "js_getMemberNames tree_json (JObject es) = remdups (map fst es)" "js_getMemberNames tree_json JNull = []"
  "js_isMember tree_json (JObject es) n = Inr (map_of es n \<noteq> None)" "js_isMember tree_json JNull n = Inr False"
  "js_at tree_json (JObject es) n = Inr (case map_of es n of None \<Rightarrow> JNull | Some v \<Rightarrow> v)"
  "js_at tree_json JNull n = Inr JNull"
  "js_set tree_json (JObject es) n v = Inr (JObject (AList.update n v es))"
  "js_set tree_json JNull n v = Inr (JObject [(n, v)])"
  "js_int tree_json b i = JInt i" "js_string tree_json s = JString s"
  "js_asInt64 tree_json (JInt i) = Inr i" "js_asUInt64 tree_json (JInt i) = Inr i"
  "js_asString tree_json (JString s) = Inr s"
  by (simp_all add: tree_json_def)

lemma tree_members [simp]:
  "members tree_json (JObject es) = map_of es" "members tree_json JNull = Map.empty"
proof -
  show "members tree_json (JObject es) = map_of es"
  proof
    fix n show "members tree_json (JObject es) n = map_of es n"
    proof (cases "n \<in> fst ` set es")
      case False
      moreover from this have "map_of es n = None" by (simp only: map_of_eq_None_iff not_False_eq_True)
      ultimately show ?thesis by (simp add: members_def)
    next
      case True
      moreover from this obtain v where "map_of es n = Some v" by (metis map_of_eq_None_iff not_None_eq)
      ultimately show ?thesis by (simp add: members_def)
    qed
  qed
qed (simp add: members_def fun_eq_iff)

lemma tree_depth: "map_of es n = Some v \<Longrightarrow> size v < size (JObject es)"
  by (induction es) (auto split: if_splits)

lemma tree_laws: "json_laws tree_json size"
proof -
  have ix: "indexable tree_json j \<longleftrightarrow> j = JNull \<or> (\<exists>es. j = JObject es)" for j
    by (cases j) (auto simp: indexable_def)
  show ?thesis
    unfolding json_laws_def ix using tree_depth
    by (auto simp: update_conv' map_of_eq_None_iff split: option.split dest: map_of_SomeD)
      (metis domI dom_map_of_conv_image_fst)+
qed

theorem json_merge_spec_witness:
  "\<exists>m. json_merge tree_json (JObject [(''a'', JObject [(''x'', JInt 1)]), (''b'', JInt 2)])
        (JObject [(''a'', JInt 5), (''b'', JInt 6), (''c'', JInt 7)]) = Some (Inr (True, m))
     \<and> members tree_json m ''a'' = Some (JObject [(''x'', JInt 1)])
     \<and> members tree_json m ''b'' = Some (JInt 6) \<and> members tree_json m ''c'' = Some (JInt 7)"
proof -
  let ?l = "JObject [(''a'', JObject [(''x'', JInt 1)]), (''b'', JInt 2)]"
  let ?r = "JObject [(''a'', JInt 5), (''b'', JInt 6), (''c'', JInt 7)]"
  from json_merge_spec [OF tree_laws, of ?l ?r] obtain m where
    m: "json_merge tree_json ?l ?r = Some (Inr (True, m))"
      "\<And>n. members tree_json m n =
         (case (members tree_json ?l n, members tree_json ?r n) of
              (l, None) \<Rightarrow> l
            | (None, Some y) \<Rightarrow> Some y
            | (Some x, Some y) \<Rightarrow> if js_isObject tree_json x
                then Some (if js_isObject tree_json y then merged tree_json x y else x) else Some y)"
    by auto
  then show ?thesis by auto
qed

end
