(* ===== verification/Json_Serializer.thy ===== *)
theory Json_Serializer
  imports Json_Model Message_Model
begin

text \<open>
  The program \<^verbatim>\<open>examples/custom_serializer\<close>: a serializer for JSON and its \<^verbatim>\<open>UserInfo\<close>,
  which a composite of both serializers writes in either format.  A JSON context refers to
  a JSON value, which is passed and returned here.
\<close>

subsection \<open>JsonSerializer\<close>

text \<open>
  The types it serializes: integers, signed or not, of a width; strings; and
  \<^verbatim>\<open>Serializable\<close> classes that serialize their members by name, one after the other.
\<close>

datatype json_ty = JIntT bool nat | JStringT | JObjT json_members
  and json_members = NoMembers | Member string json_ty json_members

datatype json_val = JvInt int | JvString string | JvObj "json_val list"

definition checkMember :: "'j json_ops \<Rightarrow> 'j \<Rightarrow> string \<Rightarrow> unit outcome" where
  "checkMember J json name =
     bind_outcome (js_isMember J json name) (\<lambda>b.
       if b then Inr () else Inl (Thrown (mk_exn StdRuntimeError ''Member not found'')))"

text \<open>\<^verbatim>\<open>static_cast\<close> of a 64-bit integer to one of \<open>w\<close> bits\<close>

definition int_cast :: "bool \<Rightarrow> nat \<Rightarrow> int \<Rightarrow> int" where
  "int_cast sg w i =
     (if sg then (i + 2 ^ (w - 1)) mod 2 ^ w - 2 ^ (w - 1) else i mod 2 ^ w)"

text \<open>
  The value of a member of class type is written into \<^verbatim>\<open>stream[name]\<close>, which is a new null
  member when there was none.
\<close>

primrec json_serialize :: "'j json_ops \<Rightarrow> json_ty \<Rightarrow> json_val \<Rightarrow> string \<Rightarrow> 'j \<Rightarrow> 'j outcome"
  and json_serialize_members :: "'j json_ops \<Rightarrow> json_members \<Rightarrow> json_val list \<Rightarrow> 'j \<Rightarrow> 'j outcome" where
  "json_serialize J (JIntT sg w) v name json =
     (case v of JvInt i \<Rightarrow> js_set J json name (js_int J sg i) | _ \<Rightarrow> Inl (Fault IllTyped))"
| "json_serialize J JStringT v name json =
     (case v of JvString s \<Rightarrow> js_set J json name (js_string J s) | _ \<Rightarrow> Inl (Fault IllTyped))"
| "json_serialize J (JObjT ms) v name json =
     (case v of
        JvObj vs \<Rightarrow>
          bind_outcome (js_at J json name) (\<lambda>sub.
            bind_outcome (json_serialize_members J ms vs sub) (js_set J json name))
      | _ \<Rightarrow> Inl (Fault IllTyped))"
| "json_serialize_members J NoMembers vs json = (if vs = [] then Inr json else Inl (Fault IllTyped))"
| "json_serialize_members J (Member name t ms) vs json =
     (case vs of
        [] \<Rightarrow> Inl (Fault IllTyped)
      | v # vs' \<Rightarrow> bind_outcome (json_serialize J t v name json) (json_serialize_members J ms vs'))"

primrec json_deserialize :: "'j json_ops \<Rightarrow> json_ty \<Rightarrow> string \<Rightarrow> 'j \<Rightarrow> json_val outcome"
  and json_deserialize_members :: "'j json_ops \<Rightarrow> json_members \<Rightarrow> 'j \<Rightarrow> json_val list outcome" where
  "json_deserialize J (JIntT sg w) name json =
     bind_outcome (checkMember J json name) (\<lambda>u.
       bind_outcome (js_at J json name) (\<lambda>m.
         bind_outcome (if sg then js_asInt64 J m else js_asUInt64 J m) (\<lambda>i.
           Inr (JvInt (int_cast sg w i)))))"
| "json_deserialize J JStringT name json =
     bind_outcome (checkMember J json name) (\<lambda>u.
       bind_outcome (js_at J json name) (\<lambda>m.
         bind_outcome (js_asString J m) (\<lambda>s. Inr (JvString s))))"
| "json_deserialize J (JObjT ms) name json =
     bind_outcome (checkMember J json name) (\<lambda>u.
       bind_outcome (js_at J json name) (\<lambda>sub.
         bind_outcome (json_deserialize_members J ms sub) (\<lambda>vs. Inr (JvObj vs))))"
| "json_deserialize_members J NoMembers json = Inr []"
| "json_deserialize_members J (Member name t ms) json =
     bind_outcome (json_deserialize J t name json) (\<lambda>v.
       bind_outcome (json_deserialize_members J ms json) (\<lambda>vs. Inr (v # vs)))"

subsection \<open>Round trips\<close>

primrec member_names :: "json_members \<Rightarrow> string list" where
  "member_names NoMembers = []"
| "member_names (Member name t ms) = name # member_names ms"

text \<open>Values in the range of their types, and members with names of their own.\<close>

definition int_range :: "bool \<Rightarrow> nat \<Rightarrow> int \<Rightarrow> bool" where
  "int_range sg w i \<longleftrightarrow> 0 < w \<and> w \<le> 64
     \<and> (if sg then - (2 ^ (w - 1)) \<le> i \<and> i < 2 ^ (w - 1) else 0 \<le> i \<and> i < 2 ^ w)"

primrec json_typed :: "json_ty \<Rightarrow> json_val \<Rightarrow> bool"
  and json_typed_members :: "json_members \<Rightarrow> json_val list \<Rightarrow> bool" where
  "json_typed (JIntT sg w) v \<longleftrightarrow> (case v of JvInt i \<Rightarrow> int_range sg w i | _ \<Rightarrow> False)"
| "json_typed JStringT v \<longleftrightarrow> (case v of JvString s \<Rightarrow> True | _ \<Rightarrow> False)"
| "json_typed (JObjT ms) v \<longleftrightarrow> (case v of JvObj vs \<Rightarrow> json_typed_members ms vs | _ \<Rightarrow> False)"
| "json_typed_members NoMembers vs \<longleftrightarrow> vs = []"
| "json_typed_members (Member name t ms) vs \<longleftrightarrow> name \<notin> set (member_names ms)
     \<and> (case vs of [] \<Rightarrow> False | v # vs' \<Rightarrow> json_typed t v \<and> json_typed_members ms vs')"

lemma int_cast_range: "int_range sg w i \<Longrightarrow> int_cast sg w i = i"
proof (cases sg)
  case True
  assume r: "int_range sg w i"
  then obtain k where k: "w = Suc k" using True by (cases w) (auto simp: int_range_def)
  have "(i + 2 ^ k) mod 2 ^ Suc k = i + 2 ^ k"
    using r True by (intro mod_pos_pos_trivial) (auto simp: int_range_def k)
  then show ?thesis using True by (simp add: int_cast_def k)
qed (auto simp: int_range_def int_cast_def)

lemma int_read:
  assumes "json_laws J depth" and "int_range sg w i"
  shows "(if sg then js_asInt64 J (js_int J sg i) else js_asUInt64 J (js_int J sg i)) = Inr i"
proof -
  have w: "w - 1 \<le> 63" "w \<le> 64" using assms(2) by (auto simp: int_range_def)
  have p: "(2::int) ^ (w - 1) \<le> 2 ^ 63" "(2::int) ^ w \<le> 2 ^ 64"
    using power_increasing [OF w(1), of "2::int"] power_increasing [OF w(2), of "2::int"] by simp_all
  show ?thesis
  proof (cases sg)
    case True
    then have "- (2 ^ 63) \<le> i \<and> i < 2 ^ 63" using assms(2) p(1) by (auto simp: int_range_def)
    then show ?thesis using assms(1) True unfolding json_laws_def by simp
  next
    case False
    then have "0 \<le> i \<and> i < 2 ^ 64" using assms(2) p(2) by (auto simp: int_range_def)
    then show ?thesis using assms(1) False unfolding json_laws_def by simp
  qed
qed

lemma checkMember_ok:
  assumes "json_laws J depth" and "indexable J j" and "members J j name = Some x"
  shows "checkMember J j name = Inr ()" "js_at J j name = Inr x"
  using indexable_laws(2,3) [OF assms(1,2), of name] members_dom [OF assms(1,2), of name] assms(3)
  by (simp_all add: checkMember_def)

lemma set_then_read:
  assumes "json_laws J depth" and "indexable J j" and "json_serialize J t v name j = js_set J j name x"
    and "\<And>k. indexable J k \<Longrightarrow> members J k name = Some x \<Longrightarrow> json_deserialize J t name k = Inr v"
  shows "\<exists>j' x. json_serialize J t v name j = Inr j' \<and> js_isObject J j' \<and> members J j' = (members J j)(name \<mapsto> x)
    \<and> (\<forall>k. indexable J k \<and> members J k name = members J j' name \<longrightarrow> json_deserialize J t name k = Inr v)"
proof -
  obtain j' where "js_set J j name x = Inr j'" "js_isObject J j'" "members J j' = (members J j)(name \<mapsto> x)"
    using indexable_laws(5) [OF assms(1,2), of name x] by blast
  with assms(3,4) show ?thesis by (intro exI [of _ j'] exI [of _ x]) simp
qed

lemma json_round_trip_both:
  assumes laws: "json_laws J depth"
  shows "json_typed t v \<Longrightarrow> indexable J j \<Longrightarrow> members J j name = None \<Longrightarrow>
      \<exists>j' x. json_serialize J t v name j = Inr j' \<and> js_isObject J j' \<and> members J j' = (members J j)(name \<mapsto> x)
        \<and> (\<forall>k. indexable J k \<and> members J k name = members J j' name \<longrightarrow> json_deserialize J t name k = Inr v)"
    and "json_typed_members ms vs \<Longrightarrow> indexable J j \<Longrightarrow> (\<forall>n \<in> set (member_names ms). members J j n = None) \<Longrightarrow>
      \<exists>j'. json_serialize_members J ms vs j = Inr j' \<and> indexable J j'
        \<and> (\<forall>n. n \<notin> set (member_names ms) \<longrightarrow> members J j' n = members J j n)
        \<and> (\<forall>k. indexable J k \<and> (\<forall>n \<in> set (member_names ms). members J k n = members J j' n)
             \<longrightarrow> json_deserialize_members J ms k = Inr vs)"
proof (induction t and ms arbitrary: v j name and vs j)
  case (JIntT sg w)
  then obtain i where i: "v = JvInt i" "int_range sg w i" by (auto split: json_val.splits)
  have read: "json_deserialize J (JIntT sg w) name k = Inr v"
    if "indexable J k" "members J k name = Some (js_int J sg i)" for k
    using checkMember_ok [OF laws that] int_read [OF laws i(2)] int_cast_range [OF i(2)] i(1) by simp
  show ?case by (rule set_then_read [OF laws JIntT(2) _ read]) (simp_all add: i(1))
next
  case JStringT
  then obtain s where s: "v = JvString s" by (auto split: json_val.splits)
  have read: "json_deserialize J JStringT name k = Inr v"
    if "indexable J k" "members J k name = Some (js_string J s)" for k
    using checkMember_ok [OF laws that] laws s by (simp add: json_laws_def)
  show ?case by (rule set_then_read [OF laws JStringT(2) _ read]) (simp_all add: s)
next
  case (JObjT ms)
  then obtain vs where vs: "v = JvObj vs" "json_typed_members ms vs" by (auto split: json_val.splits)
  have null: "js_at J j name = Inr (js_null J)"
    using indexable_laws(3) [OF laws JObjT(3), of name] JObjT(4) by simp
  obtain sub where sub: "json_serialize_members J ms vs (js_null J) = Inr sub" "indexable J sub"
      "json_deserialize_members J ms sub = Inr vs"
    using JObjT(1) [OF vs(2) object_indexable(2)] members_null [OF laws] by auto
  have read: "json_deserialize J (JObjT ms) name k = Inr v"
    if "indexable J k" "members J k name = Some sub" for k
    using checkMember_ok [OF laws that] sub(3) vs(1) by simp
  show ?case by (rule set_then_read [OF laws JObjT(3) _ read]) (simp_all add: vs(1) null sub(1))
next
  case NoMembers
  then show ?case by auto
next
  case (Member name t ms)
  then obtain v vs' where vs: "vs = v # vs'" "json_typed t v" "json_typed_members ms vs'"
      "name \<notin> set (member_names ms)"
    by (auto split: list.splits)
  have new: "members J j name = None" using Member(5) by simp
  obtain j1 x where j1: "json_serialize J t v name j = Inr j1" "js_isObject J j1"
      "members J j1 = (members J j)(name \<mapsto> x)"
      "\<And>k. indexable J k \<Longrightarrow> members J k name = members J j1 name \<Longrightarrow> json_deserialize J t name k = Inr v"
    using Member(1) [OF vs(2) Member(4) new] by blast
  have "\<forall>n \<in> set (member_names ms). members J j1 n = None"
    using Member(5) vs(4) j1(3) by auto
  from Member(2) [OF vs(3) object_indexable(1) [OF j1(2)] this] obtain j2 where
    j2: "json_serialize_members J ms vs' j1 = Inr j2" "indexable J j2"
      "\<And>n. n \<notin> set (member_names ms) \<Longrightarrow> members J j2 n = members J j1 n"
      "\<And>k. indexable J k \<Longrightarrow> \<forall>n \<in> set (member_names ms). members J k n = members J j2 n
         \<Longrightarrow> json_deserialize_members J ms k = Inr vs'"
    by blast
  have "json_deserialize_members J (Member name t ms) k = Inr vs"
    if "indexable J k" "\<forall>n \<in> set (member_names (Member name t ms)). members J k n = members J j2 n" for k
  proof -
    have "members J k name = members J j1 name" using that(2) j2(3) [OF vs(4)] by simp
    from j1(4) [OF that(1) this] j2(4) [OF that(1)] that(2) show ?thesis by (simp add: vs(1))
  qed
  moreover have "members J j2 n = members J j n" if "n \<notin> set (member_names (Member name t ms))" for n
    using that j2(3) [of n] j1(3) by simp
  moreover have "json_serialize_members J (Member name t ms) vs j = Inr j2"
    by (simp add: vs(1) j1(1) j2(1))
  ultimately show ?case using j2(2) by blast
qed

text \<open>C14: JSON round trip: whatever a class serializes of its members by name into a new JSON value, when
  the names are distinct at every level and the integers in the range of their types, it reads back
  as the same values; without a member of the name, reading throws.\<close>

theorem json_round_trip:
  assumes "json_laws J depth" and "json_typed_members ms vs"
  shows "(\<exists>j. json_serialize_members J ms vs (js_null J) = Inr j \<and> json_deserialize_members J ms j = Inr vs)
    \<and> (\<forall>t name j. indexable J j \<and> members J j name = None
         \<longrightarrow> json_deserialize J t name j = Inl (Thrown (mk_exn StdRuntimeError ''Member not found'')))"
proof
  show "\<exists>j. json_serialize_members J ms vs (js_null J) = Inr j \<and> json_deserialize_members J ms j = Inr vs"
    using json_round_trip_both(2) [OF assms object_indexable(2)] members_null [OF assms(1)] by auto
  have "checkMember J j name = Inl (Thrown (mk_exn StdRuntimeError ''Member not found''))"
    if "indexable J j" "members J j name = None" for j name
    using indexable_laws(2) [OF assms(1) that(1), of name] members_dom [OF assms(1) that(1), of name] that(2)
    by (simp add: checkMember_def)
  then have "json_deserialize J t name j = Inl (Thrown (mk_exn StdRuntimeError ''Member not found''))"
    if "indexable J j" "members J j name = None" for t name j
    using that by (cases t) simp_all
  then show "\<forall>t name j. indexable J j \<and> members J j name = None
      \<longrightarrow> json_deserialize J t name j = Inl (Thrown (mk_exn StdRuntimeError ''Member not found''))"
    by blast
qed

subsection \<open>UserInfo\<close>

record user_info =
  username :: string
  age :: "32 word"

definition user_info_new :: user_info where
  "user_info_new = \<lparr>username = [], age = 0\<rparr>"

text \<open>The two members as the binary serializer and as the JSON serializer see them.\<close>

definition string_val :: "string \<Rightarrow> val" where
  "string_val s = VSeq (map (\<lambda>c. VScalar (SI8 (of_nat (of_char c)))) s)"

definition val_string :: "val \<Rightarrow> string" where
  "val_string v = (case v of VSeq vs \<Rightarrow>
     map (\<lambda>x. case x of VScalar (SI8 b) \<Rightarrow> char_of (unat b) | _ \<Rightarrow> CHR 0x00) vs | _ \<Rightarrow> [])"

definition user_info_members :: json_members where
  "user_info_members = Member ''username'' JStringT (Member ''age'' (JIntT False 32) NoMembers)"

text \<open>
  A context of either serializer.  \<^verbatim>\<open>FieldSerializer\<close> is the composite of both; given a
  string stream, the JSON serializer would refuse it.
\<close>

datatype 'j user_context = BinaryContext serialization_context | JsonContext 'j

definition json_on_stream :: serializer where
  "json_on_stream =
     \<lparr>ser_tag = JsonSerializerTag,
      ser_write = (\<lambda>v name ctx. Inl (Thrown (mk_exn InvalidCastException ''Invalid cast''))),
      ser_read = (\<lambda>t old name ctx. Inl (Thrown (mk_exn InvalidCastException ''Invalid cast'')))\<rparr>"

definition example_pack :: "platform \<Rightarrow> serializer list" where
  "example_pack pl = [binary_serializer pl, json_on_stream]"

definition user_info_serialize ::
  "'j json_ops \<Rightarrow> platform \<Rightarrow> user_info \<Rightarrow> 'j user_context \<Rightarrow> 'j user_context outcome" where
  "user_info_serialize J pl u ctx =
     (case ctx of
        BinaryContext c \<Rightarrow>
          bind_outcome (serialize_using_pack (example_pack pl) c (string_val (username u)) ''username'') (\<lambda>c'.
            bind_outcome (serialize_using_pack (example_pack pl) c' (VScalar (SI32 (age u))) ''age'') (\<lambda>c''.
              Inr (BinaryContext c'')))
      | JsonContext json \<Rightarrow>
          bind_outcome
            (json_serialize_members J user_info_members [JvString (username u), JvInt (uint (age u))] json)
            (\<lambda>json'. Inr (JsonContext json')))"

definition user_info_deserialize ::
  "'j json_ops \<Rightarrow> platform \<Rightarrow> user_info \<Rightarrow> 'j user_context \<Rightarrow> (user_info \<times> 'j user_context) outcome" where
  "user_info_deserialize J pl old ctx =
     (case ctx of
        BinaryContext c \<Rightarrow>
          bind_outcome (deserialize_using_pack (example_pack pl) c (SeqT (ScalarT I8)) (string_val (username old))
              ''username'') (\<lambda>(n, c').
            bind_outcome (deserialize_using_pack (example_pack pl) c' (ScalarT I32) (VScalar (SI32 (age old)))
                ''age'') (\<lambda>(a, c'').
              case a of
                VScalar (SI32 w) \<Rightarrow> Inr (\<lparr>username = val_string n, age = w\<rparr>, BinaryContext c'')
              | _ \<Rightarrow> Inl (Fault IllTyped)))
      | JsonContext json \<Rightarrow>
          bind_outcome (json_deserialize_members J user_info_members json) (\<lambda>vs.
            case vs of
              [JvString s, JvInt i] \<Rightarrow> Inr (\<lparr>username = s, age = of_int i\<rparr>, JsonContext json)
            | _ \<Rightarrow> Inl (Fault IllTyped)))"

definition user_info_serializedSize :: "user_info \<Rightarrow> nat" where
  "user_info_serializedSize u = 0 + binary_size (string_val (username u)) + binary_size (VScalar (SI32 (age u)))"

lemma example_binary_pack: "binary_pack pl (example_pack pl)"
  by (simp add: binary_pack_def example_pack_def binary_serializer_def json_on_stream_def)

lemma string_val_ok:
  "length s < 65536 \<Longrightarrow> well_typed (SeqT (ScalarT I8)) (string_val s) \<and> fits (string_val s)"
  "fresh (SeqT (ScalarT I8)) (string_val s)" "val_string (string_val s) = s"
  by (simp_all add: string_val_def val_string_def list_all_iff o_def unat_of_nat)

text \<open>The example's \<^verbatim>\<open>UserInfo\<close> survives both of its formats: through JSON and, when the name is shorter
  than 65536 characters, through the binary format between any two platforms, where it
  takes exactly \<^verbatim>\<open>serializedSize()\<close> bytes.\<close>

theorem user_info_round_trip:
  assumes "json_laws J depth" and "length (username u) < 65536"
  shows "(\<exists>j. user_info_serialize J pl u (JsonContext (js_null J)) = Inr (JsonContext j)
        \<and> user_info_deserialize J pl' old (JsonContext j) = Inr (u, JsonContext j))
    \<and> (\<exists>bs. user_info_serialize J pl u (BinaryContext (bin_stream [])) = Inr (BinaryContext (bin_stream bs))
        \<and> length bs = user_info_serializedSize u
        \<and> user_info_deserialize J pl' old (BinaryContext (bin_stream (bs @ rest)))
          = Inr (u, BinaryContext (bin_stream rest)))"
proof
  let ?vs = "[JvString (username u), JvInt (uint (age u))]"
  have "uint (age u) < 2 ^ 32" using uint_bounded [of "age u"] by simp
  then have "json_typed_members user_info_members ?vs"
    by (simp add: user_info_members_def int_range_def)
  from json_round_trip_both(2) [OF assms(1) this object_indexable(2)] members_null [OF assms(1)]
  obtain j where "json_serialize_members J user_info_members ?vs (js_null J) = Inr j"
      "json_deserialize_members J user_info_members j = Inr ?vs"
    by auto
  then show "\<exists>j. user_info_serialize J pl u (JsonContext (js_null J)) = Inr (JsonContext j)
      \<and> user_info_deserialize J pl' old (JsonContext j) = Inr (u, JsonContext j)"
    by (simp add: user_info_serialize_def user_info_deserialize_def)
  let ?n = "string_val (username u)" and ?a = "VScalar (SI32 (age u))"
  note ok = string_val_ok(1) [OF assms(2)]
  have det: "determinate ?n" "determinate ?a"
    by (rule well_typed_determinate [OF conjunct1 [OF ok] conjunct2 [OF ok]]) simp
  show "\<exists>bs. user_info_serialize J pl u (BinaryContext (bin_stream [])) = Inr (BinaryContext (bin_stream bs))
        \<and> length bs = user_info_serializedSize u
        \<and> user_info_deserialize J pl' old (BinaryContext (bin_stream (bs @ rest)))
          = Inr (u, BinaryContext (bin_stream rest))"
    using ok binary_deserialize_wire [OF conjunct1 [OF ok] conjunct2 [OF ok] string_val_ok(2), of pl' "username old" "wire ?a @ rest"]
      binary_deserialize_wire [of "ScalarT I32" ?a "VScalar (SI32 (age old))" pl' rest]
    by (intro exI [of _ "wire ?n @ wire ?a"])
      (simp add: user_info_serialize_def user_info_deserialize_def serialize_using_pack_def
        deserialize_using_pack_def composite_binary [OF example_binary_pack]
        binary_serialize_append [OF det(1)] binary_serialize_append [OF det(2)] user_info_serializedSize_def
        binary_size_wire [OF det(1)] binary_size_wire [OF det(2)] string_val_ok(3) del: binary_serialize.simps wire.simps binary_size.simps)
qed

subsection \<open>The program\<close>

text \<open>The descriptors that \<^verbatim>\<open>main\<close> adds, and its reply with a \<^verbatim>\<open>UserInfo\<close>; the number is that of its \<^verbatim>\<open>typeid\<close>.\<close>

definition typeid_UserInfo :: type_id where
  "typeid_UserInfo = 1"

definition example_factory :: "message_factory outcome" where
  "example_factory =
     bind_outcome (addDescriptor_configure 0 (registerField typeid_MessageId (ScalarT I32) ''msgId'') factory_new) (\<lambda>(f, b).
       bind_outcome
         (addDescriptor_configure 1 (\<lambda>d.
            bind_outcome (registerField typeid_MessageId (ScalarT I32) ''srcMsgId'' d)
              (registerField typeid_UserInfo (ObjT [SeqT (ScalarT I8), ScalarT I32]) ''userInfo'')) f)
         (\<lambda>(f', b'). Inr f'))"

definition user_info_val :: "user_info \<Rightarrow> val" where
  "user_info_val u = VObj [string_val (username u), VScalar (SI32 (age u))]"

definition example_reply :: "user_info \<Rightarrow> session_id \<Rightarrow> message_id \<Rightarrow> message outcome" where
  "example_reply ui session counter =
     bind_outcome example_factory (\<lambda>f.
       bind_outcome (fst (createMessage f 1 session counter))
         (message_field_set typeid_UserInfo ''userInfo'' (user_info_val ui)))"

text \<open>What the program prints as binary: no source message, then the name with its length and the age.\<close>

lemma example_output:
  "bind_outcome (example_reply \<lparr>username = ''user'', age = 30\<rparr> 1 0)
     (\<lambda>m. message_serialize (example_pack \<lparr>big_endian = False, ndebug = True\<rparr>) m (bin_stream []))
   = Inr (bin_stream ([0, 0, 0, 0] @ [4, 0] @ [117, 115, 101, 114] @ [30, 0, 0, 0]))"
  by code_simp

theorem json_round_trip_witness:
  "(\<exists>j. json_serialize_members tree_json (Member ''a'' (JIntT True 8) (Member ''b'' (JObjT (Member ''a'' JStringT NoMembers)) NoMembers))
        [JvInt (- 128), JvObj [JvString ''x'']] JNull = Inr j
      \<and> json_deserialize_members tree_json (Member ''a'' (JIntT True 8) (Member ''b'' (JObjT (Member ''a'' JStringT NoMembers)) NoMembers)) j
        = Inr [JvInt (- 128), JvObj [JvString ''x'']])
   \<and> json_deserialize tree_json JStringT ''a'' (JObject [(''b'', JInt 1)])
     = Inl (Thrown (mk_exn StdRuntimeError ''Member not found''))"
proof -
  let ?ms = "Member ''a'' (JIntT True 8) (Member ''b'' (JObjT (Member ''a'' JStringT NoMembers)) NoMembers)"
  have "json_typed_members ?ms [JvInt (- 128), JvObj [JvString ''x'']]"
    by (simp add: int_range_def)
  note both = json_round_trip [OF tree_laws this]
  have "indexable tree_json (JObject [(''b'', JInt 1)])" "members tree_json (JObject [(''b'', JInt 1)]) ''a'' = None"
    by (simp_all add: indexable_def)
  then have "json_deserialize tree_json JStringT ''a'' (JObject [(''b'', JInt 1)])
      = Inl (Thrown (mk_exn StdRuntimeError ''Member not found''))"
    using conjunct2 [OF both] by blast
  with conjunct1 [OF both] show ?thesis by (simp only: tree_ops)
qed

theorem user_info_round_trip_witness:
  "\<exists>bs. user_info_serialize tree_json \<lparr>big_endian = True, ndebug = True\<rparr> \<lparr>username = ''user'', age = 30\<rparr>
        (BinaryContext (bin_stream [])) = Inr (BinaryContext (bin_stream bs)) \<and> length bs = 10"
proof -
  have size: "length (username \<lparr>username = ''user'', age = 30\<rparr>) < 65536"
    "user_info_serializedSize \<lparr>username = ''user'', age = 30\<rparr> = 10"
    by (simp_all add: user_info_serializedSize_def string_val_def)
  from conjunct2 [OF user_info_round_trip [OF tree_laws size(1), of "\<lparr>big_endian = True, ndebug = True\<rparr>"]]
  show ?thesis unfolding size(2) by blast
qed

end
