(* ===== verification/Guard_Model.thy ===== *)
theory Guard_Model
  imports Effects
begin

text \<open>
  \<^verbatim>\<open>utility/guard.hpp\<close>: an object behind a mutex.  An action works on the object in small
  steps, between which other threads run; what happened is recorded.
\<close>

subsection \<open>State and steps\<close>

type_synonym 'a guard_action = "('a \<Rightarrow> 'a) list"

datatype 'a guard_pc = OutsideGuard | InsideGuard "'a guard_action"

text \<open>
  A turn: an action that got the lock, how many of its steps were made, and whether it
  ended with an exception.
\<close>

record 'a turn =
  turn_thread :: nat
  turn_action :: "'a guard_action"
  turn_steps :: nat
  turn_threw :: bool

record 'a guard =
  m_object :: 'a
  m_object_guard :: "nat option"
  guard_pcs :: "nat \<Rightarrow> 'a guard_pc"
  turns :: "'a turn list"

definition guard_new :: "'a \<Rightarrow> 'a guard" where
  "guard_new x = \<lparr>m_object = x, m_object_guard = None, guard_pcs = (\<lambda>i. OutsideGuard), turns = []\<rparr>"

text \<open>\<^verbatim>\<open>std::lock_guard lock { m_object_guard };\<close> waits (\<open>None\<close>) while the mutex is locked, also by the thread itself.\<close>

definition guard_enter :: "nat \<Rightarrow> 'a guard_action \<Rightarrow> 'a guard \<Rightarrow> 'a guard option" where
  "guard_enter i action G =
     (if m_object_guard G \<noteq> None then None
      else Some (G\<lparr>m_object_guard := Some i, guard_pcs := (guard_pcs G)(i := InsideGuard action),
             turns := turns G @ [\<lparr>turn_thread = i, turn_action = action, turn_steps = 0, turn_threw = False\<rparr>]\<rparr>))"

text \<open>\<^verbatim>\<open>m_object = std::forward<U>(object)\<close>, under the lock\<close>

definition guard_assign :: "nat \<Rightarrow> 'a \<Rightarrow> 'a guard \<Rightarrow> 'a guard option" where
  "guard_assign i x = guard_enter i [\<lambda>_. x]"

text \<open>A step of the action of \<^verbatim>\<open>perform\<close>, or its end, normal or not, at which the lock is released.\<close>

definition guard_work :: "bool \<Rightarrow> nat \<Rightarrow> 'a guard \<Rightarrow> 'a guard option" where
  "guard_work throws i G =
     (case guard_pcs G i of
        OutsideGuard \<Rightarrow> None
      | InsideGuard action \<Rightarrow>
          (case action of
             f # fs \<Rightarrow>
               if throws
               then Some (G\<lparr>m_object_guard := None, guard_pcs := (guard_pcs G)(i := OutsideGuard),
                      turns := butlast (turns G) @ [(last (turns G))\<lparr>turn_threw := True\<rparr>]\<rparr>)
               else Some (G\<lparr>m_object := f (m_object G), guard_pcs := (guard_pcs G)(i := InsideGuard fs),
                      turns := butlast (turns G) @ [(last (turns G))\<lparr>turn_steps := Suc (turn_steps (last (turns G)))\<rparr>]\<rparr>)
           | [] \<Rightarrow> Some (G\<lparr>m_object_guard := None, guard_pcs := (guard_pcs G)(i := OutsideGuard)\<rparr>)))"

inductive guard_step :: "'a guard \<Rightarrow> 'a guard \<Rightarrow> bool" where
  perform: "guard_enter i action G = Some G' \<Longrightarrow> guard_pcs G i = OutsideGuard \<Longrightarrow> guard_step G G'"
| assign: "guard_assign i x G = Some G' \<Longrightarrow> guard_pcs G i = OutsideGuard \<Longrightarrow> guard_step G G'"
| work: "guard_work throws i G = Some G' \<Longrightarrow> guard_step G G'"

abbreviation guard_reaches where
  "guard_reaches \<equiv> guard_step\<^sup>*\<^sup>*"

subsection \<open>Turns\<close>

definition turn_done :: "'a turn \<Rightarrow> bool" where
  "turn_done t \<longleftrightarrow> turn_steps t \<le> length (turn_action t)
     \<and> (\<not> turn_threw t \<longrightarrow> turn_steps t = length (turn_action t))"

text \<open>The object after turns taken one after the other.\<close>

definition after_turn :: "'a turn \<Rightarrow> 'a \<Rightarrow> 'a" where
  "after_turn t = fold (\<lambda>f. f) (take (turn_steps t) (turn_action t))"

definition guard_inv :: "'a \<Rightarrow> 'a guard \<Rightarrow> bool" where
  "guard_inv x G \<longleftrightarrow>
     m_object G = fold after_turn (turns G) x
     \<and> (\<forall>i. guard_pcs G i \<noteq> OutsideGuard \<longleftrightarrow> m_object_guard G = Some i)
     \<and> (case m_object_guard G of
          None \<Rightarrow> \<forall>t \<in> set (turns G). turn_done t
        | Some i \<Rightarrow> turns G \<noteq> [] \<and> (\<forall>t \<in> set (butlast (turns G)). turn_done t)
            \<and> (let t = last (turns G) in turn_thread t = i \<and> \<not> turn_threw t
                 \<and> turn_steps t \<le> length (turn_action t)
                 \<and> guard_pcs G i = InsideGuard (drop (turn_steps t) (turn_action t))))"

lemma guard_inv_new: "guard_inv x (guard_new x)"
  by (simp add: guard_inv_def guard_new_def)

lemma guard_inv_enter:
  assumes "guard_inv x G" and "guard_enter i action G = Some G'"
  shows "guard_inv x G'"
  using assms by (auto simp: guard_inv_def guard_enter_def after_turn_def split: if_splits)

lemma guard_inv_work:
  assumes "guard_inv x G" and "guard_work throws i G = Some G'"
  shows "guard_inv x G'"
proof -
  obtain rest where pc: "guard_pcs G i = InsideGuard rest"
    using assms(2) by (auto simp: guard_work_def split: guard_pc.splits)
  have iff: "guard_pcs G j \<noteq> OutsideGuard \<longleftrightarrow> m_object_guard G = Some j" for j
    using assms(1) unfolding guard_inv_def by blast
  have own: "m_object_guard G = Some i" using iff [of i] pc by simp
  have out: "guard_pcs G j = OutsideGuard" if "j \<noteq> i" for j using iff [of j] own that by auto
  define t where "t = last (turns G)"
  have ts: "turns G = butlast (turns G) @ [t]" and before: "\<forall>u \<in> set (butlast (turns G)). turn_done u"
    and t: "turn_thread t = i" "\<not> turn_threw t" "turn_steps t \<le> length (turn_action t)"
      "rest = drop (turn_steps t) (turn_action t)"
    using assms(1) pc by (simp_all add: guard_inv_def t_def Let_def own)
  have obj: "m_object G = after_turn t (fold after_turn (butlast (turns G)) x)"
  proof -
    have "m_object G = fold after_turn (turns G) x" using assms(1) by (simp add: guard_inv_def)
    also have "\<dots> = fold after_turn (butlast (turns G) @ [t]) x" by (simp only: ts [symmetric])
    finally show ?thesis by simp
  qed
  show ?thesis
  proof (cases rest)
    case Nil
    then have "turn_done t" using t by (simp add: turn_done_def)
    then have "\<forall>u \<in> set (butlast (turns G) @ [t]). turn_done u" using before by auto
    then have "\<forall>u \<in> set (turns G). turn_done u" by (simp only: ts [symmetric])
    moreover have "m_object G = fold after_turn (turns G) x" using assms(1) by (simp add: guard_inv_def)
    ultimately show ?thesis
      using assms(2) pc Nil out by (auto simp: guard_work_def guard_inv_def split: if_splits)
  next
    case (Cons f fs)
    have n: "turn_steps t < length (turn_action t)" "f = turn_action t ! turn_steps t"
      "fs = drop (Suc (turn_steps t)) (turn_action t)"
      using Cons t(3,4) by (auto simp: drop_Suc nth_via_drop [symmetric] tl_drop
          dest: arg_cong [of _ _ length] arg_cong [of _ _ tl])
    have step: "after_turn (t\<lparr>turn_steps := Suc (turn_steps t)\<rparr>) y = f (after_turn t y)" for y
      using n(1,2) by (simp add: after_turn_def take_Suc_conv_app_nth)
    have same: "after_turn (t\<lparr>turn_threw := True\<rparr>) = after_turn t" "turn_done (t\<lparr>turn_threw := True\<rparr>)"
      using t(3) by (simp_all add: after_turn_def turn_done_def fun_eq_iff)
    show ?thesis
      using assms(2) pc own Cons out before n obj t(1,2)
      by (auto simp: guard_work_def guard_inv_def t_def [symmetric] step same Let_def split: if_splits)
  qed
qed

lemma guard_step_inv: "guard_step G G' \<Longrightarrow> guard_inv x G \<Longrightarrow> guard_inv x G'"
  by (erule guard_step.cases) (auto simp: guard_assign_def intro: guard_inv_enter guard_inv_work)

interpretation gd: stable guard_step "guard_inv x"
  by unfold_locales (rule guard_step_inv)

subsection \<open>Properties\<close>

text \<open>C15: A guarded object: whatever the threads perform and assign, at most one of them is inside at any
  time, it cannot enter again, and when none is, the object is what the actions made of it one after
  the other in the order in which they got the lock, each from its first step to its last or to the step
  that threw.\<close>

theorem guard_serializes_actions:
  assumes "guard_reaches (guard_new x) G"
  shows "(\<forall>i j. guard_pcs G i \<noteq> OutsideGuard \<and> guard_pcs G j \<noteq> OutsideGuard \<longrightarrow> i = j)
    \<and> (\<forall>i action. guard_pcs G i \<noteq> OutsideGuard \<longrightarrow> guard_enter i action G = None)
    \<and> ((\<forall>i. guard_pcs G i = OutsideGuard) \<longrightarrow>
         m_object G = fold (\<lambda>t y. fold (\<lambda>f. f) (take (turn_steps t) (turn_action t)) y) (turns G) x
         \<and> (\<forall>t \<in> set (turns G). \<not> turn_threw t \<longrightarrow> turn_steps t = length (turn_action t)))"
proof -
  have inv: "guard_inv x G" by (rule gd.stays [OF assms guard_inv_new])
  have own: "guard_pcs G i \<noteq> OutsideGuard \<longleftrightarrow> m_object_guard G = Some i" for i
    using inv by (simp add: guard_inv_def)
  moreover have "m_object G = fold (\<lambda>t y. fold (\<lambda>f. f) (take (turn_steps t) (turn_action t)) y) (turns G) x"
    using inv by (simp add: guard_inv_def after_turn_def [abs_def])
  moreover have "\<forall>t \<in> set (turns G). turn_done t" if "m_object_guard G = None"
    using inv that by (simp add: guard_inv_def)
  ultimately show ?thesis
    by (cases "m_object_guard G") (auto simp: guard_enter_def turn_done_def)
qed

text \<open>Thread 0 adds one in two steps; thread 1 gets the lock after it and doubles.\<close>

definition demo_guard :: "nat guard" where
  "demo_guard =
     \<lparr>m_object = 6, m_object_guard = None, guard_pcs = (\<lambda>i. OutsideGuard),
      turns = [\<lparr>turn_thread = 0, turn_action = [Suc, Suc], turn_steps = 2, turn_threw = False\<rparr>,
        \<lparr>turn_thread = 1, turn_action = [(*) 2], turn_steps = 1, turn_threw = False\<rparr>]\<rparr>"

lemma outside_update [simp]: "(\<lambda>i. OutsideGuard)(j := OutsideGuard) = (\<lambda>i. OutsideGuard)"
  by (simp add: fun_eq_iff)

lemma guard_reaches_by:
  "guard_enter i action G = Some G' \<Longrightarrow> guard_pcs G i = OutsideGuard \<Longrightarrow> guard_reaches G' H \<Longrightarrow> guard_reaches G H"
  "guard_work throws i G = Some G' \<Longrightarrow> guard_reaches G' H \<Longrightarrow> guard_reaches G H"
  by (meson converse_rtranclp_into_rtranclp guard_step.perform guard_step.work)+

lemma demo_guard_reached: "guard_reaches (guard_new 1) demo_guard"
  by (rule guard_reaches_by(1) [of 0 "[Suc, Suc]"], simp add: guard_enter_def guard_new_def, simp add: guard_new_def,
      rule guard_reaches_by(2) [of False 0], simp add: guard_work_def,
      rule guard_reaches_by(2) [of False 0], simp add: guard_work_def,
      rule guard_reaches_by(2) [of False 0], simp add: guard_work_def,
      rule guard_reaches_by(1) [of 1 "[(*) 2]"], simp add: guard_enter_def, simp,
      rule guard_reaches_by(2) [of False 1], simp add: guard_work_def,
      rule guard_reaches_by(2) [of False 1], simp add: guard_work_def)
    (simp add: demo_guard_def eval_nat_numeral)

theorem guard_serializes_actions_witness:
  "m_object demo_guard = fold (\<lambda>t y. fold (\<lambda>f. f) (take (turn_steps t) (turn_action t)) y) (turns demo_guard) 1
   \<and> m_object demo_guard = 6"
proof -
  have "\<forall>i. guard_pcs demo_guard i = OutsideGuard" "m_object demo_guard = 6"
    by (simp_all add: demo_guard_def)
  with guard_serializes_actions [OF demo_guard_reached] show ?thesis by blast
qed

end
