(* ===== verification/Handler_Mapping.thy ===== *)
theory Handler_Mapping
  imports Effects "HOL-Library.AList"
begin

text \<open>
  \<^verbatim>\<open>utility/handler_mapping.hpp\<close> and \<^verbatim>\<open>utility/predicates.hpp\<close>.  The class
  \<^verbatim>\<open>NullableReference\<close> that the header includes is not in the repository: it is a type
  \<open>'r\<close> with the operations the code uses, and \<open>nullable_laws\<close> says what they do.
\<close>

subsection \<open>HandlerMapping\<close>

text \<open>A \<^verbatim>\<open>std::function<void(T)>\<close>, which may be empty.\<close>

type_synonym ('w, 'a) handler = "('a \<Rightarrow> ('w, unit) eff) option"

record ('w, 'a, 'r) nullable_ops =
  nref_to :: "('w, 'a) handler \<Rightarrow> 'r"
  nullref :: 'r
  nref_bool :: "'r \<Rightarrow> bool"
  nref_call :: "'r \<Rightarrow> 'a \<Rightarrow> ('w, unit) eff"

definition nullable_laws :: "('w, 'a, 'r) nullable_ops \<Rightarrow> bool" where
  "nullable_laws N \<longleftrightarrow> \<not> nref_bool N (nullref N)
     \<and> (\<forall>h. nref_bool N (nref_to N h) \<and> nref_call N (nref_to N h) = call_function h)"

text \<open>The keys are the values of the mapper, by default the hashes of the objects.\<close>

record ('w, 'a, 'k) handler_mapping =
  m_default_handler :: "('w, 'a) handler"
  m_handlers :: "('k \<times> ('w, 'a) handler) list"

definition handler_mapping_new :: "('w, 'a) handler \<Rightarrow> ('w, 'a, 'k) handler_mapping" where
  "handler_mapping_new default_handler = \<lparr>m_default_handler = default_handler, m_handlers = []\<rparr>"

definition mapping_addHandler ::
  "'k \<Rightarrow> ('w, 'a) handler \<Rightarrow> ('w, 'a, 'k) handler_mapping \<Rightarrow> ('w, 'a, 'k) handler_mapping" where
  "mapping_addHandler key handler hm = hm\<lparr>m_handlers := AList.update key handler (m_handlers hm)\<rparr>"

definition setDefaultHandler ::
  "('w, 'a) handler \<Rightarrow> ('w, 'a, 'k) handler_mapping \<Rightarrow> ('w, 'a, 'k) handler_mapping" where
  "setDefaultHandler handler hm = hm\<lparr>m_default_handler := handler\<rparr>"

definition getHandler ::
  "('w, 'a, 'r) nullable_ops \<Rightarrow> ('a \<Rightarrow> 'k) \<Rightarrow> 'a \<Rightarrow> ('w, 'a, 'k) handler_mapping \<Rightarrow> 'r" where
  "getHandler N mapper obj hm =
     (let key = mapper obj
      in case map_of (m_handlers hm) key of
           Some h \<Rightarrow> nref_to N h
         | None \<Rightarrow> if m_default_handler hm \<noteq> None then nref_to N (m_default_handler hm) else nullref N)"

definition handle ::
  "('w, 'a, 'r) nullable_ops \<Rightarrow> ('a \<Rightarrow> 'k) \<Rightarrow> 'a \<Rightarrow> ('w, 'a, 'k) handler_mapping \<Rightarrow> ('w, unit) eff" where
  "handle N mapper obj hm =
     (let handler = getHandler N mapper obj hm
      in if nref_bool N handler then nref_call N handler obj else eff_return ())"

subsection \<open>predicates::is_equal\<close>

text \<open>\<open>eq\<close> is the \<^verbatim>\<open>operator==\<close> of the type.\<close>

definition is_equal :: "('a \<Rightarrow> 'a \<Rightarrow> bool) \<Rightarrow> 'a \<Rightarrow> 'a \<Rightarrow> bool" where
  "is_equal eq lhs = (\<lambda>rhs. eq lhs rhs)"

subsection \<open>Properties\<close>

text \<open>What has been registered: handlers by key, and default handlers, in this order.\<close>

datatype ('w, 'a, 'k) registration = Handler 'k "('w, 'a) handler" | DefaultHandler "('w, 'a) handler"

primrec register_all ::
  "('w, 'a, 'k) registration list \<Rightarrow> ('w, 'a, 'k) handler_mapping \<Rightarrow> ('w, 'a, 'k) handler_mapping" where
  "register_all [] hm = hm"
| "register_all (r # rs) hm = register_all rs
     (case r of Handler key h \<Rightarrow> mapping_addHandler key h hm | DefaultHandler h \<Rightarrow> setDefaultHandler h hm)"

fun handlers_for :: "'k \<Rightarrow> ('w, 'a, 'k) registration list \<Rightarrow> ('w, 'a) handler list" where
  "handlers_for key [] = []"
| "handlers_for key (Handler k h # rs) = (if k = key then [h] else []) @ handlers_for key rs"
| "handlers_for key (DefaultHandler h # rs) = handlers_for key rs"

fun default_handlers :: "('w, 'a, 'k) registration list \<Rightarrow> ('w, 'a) handler list" where
  "default_handlers [] = []"
| "default_handlers (Handler k h # rs) = default_handlers rs"
| "default_handlers (DefaultHandler h # rs) = h # default_handlers rs"

lemma register_all_lookup:
  "map_of (m_handlers (register_all rs hm)) key
     = (if handlers_for key rs = [] then map_of (m_handlers hm) key else Some (last (handlers_for key rs)))"
  "m_default_handler (register_all rs hm)
     = (if default_handlers rs = [] then m_default_handler hm else last (default_handlers rs))"
proof (induction rs arbitrary: hm)
  case (Cons r rs)
  { case 1 show ?case using Cons(1) by (cases r) (auto simp: mapping_addHandler_def setDefaultHandler_def update_conv') }
  { case 2 show ?case using Cons(2) by (cases r) (auto simp: mapping_addHandler_def setDefaultHandler_def) }
qed simp_all

text \<open>Handling: an object goes to the handler registered last under its key, or else to the default handler, or
  else nowhere; a key that was given an empty handler does not fall back to the default one.
  Objects with the same key, such as two with the same hash, share a handler.\<close>

theorem handle_routes:
  assumes "nullable_laws N" and "hm = register_all rs (handler_mapping_new h0)"
  shows "handle N mapper obj hm
    = (if handlers_for (mapper obj) rs \<noteq> [] then call_function (last (handlers_for (mapper obj) rs)) obj
       else case last (h0 # default_handlers rs) of None \<Rightarrow> eff_return () | Some f \<Rightarrow> f obj)"
    and "mapper obj = mapper obj' \<Longrightarrow> getHandler N mapper obj hm = getHandler N mapper obj' hm"
proof -
  show "handle N mapper obj hm
    = (if handlers_for (mapper obj) rs \<noteq> [] then call_function (last (handlers_for (mapper obj) rs)) obj
       else case last (h0 # default_handlers rs) of None \<Rightarrow> eff_return () | Some f \<Rightarrow> f obj)"
    using assms
    by (auto simp: handle_def getHandler_def register_all_lookup handler_mapping_new_def nullable_laws_def Let_def
        call_function_def split: option.split)
qed (simp add: getHandler_def)

end
