(* ===== verification/Type_Traits.thy ===== *)
theory Type_Traits
  imports Binary_Serializer
begin

text \<open>
  \<^verbatim>\<open>base/type_traits.hpp\<close>, and the choice of the specialisation of
  \<^verbatim>\<open>BinarySerializer\<close> that it serves, on the types of values.
\<close>

subsection \<open>Traits\<close>

definition IsArray :: "ty \<Rightarrow> bool" where
  "IsArray t = (case t of ArrT n u \<Rightarrow> True | _ \<Rightarrow> False)"

definition IsOptional :: "ty \<Rightarrow> bool" where
  "IsOptional t = (case t of OptT u \<Rightarrow> True | _ \<Rightarrow> False)"

definition IsPair :: "ty \<Rightarrow> bool" where
  "IsPair t = (case t of PairT a b \<Rightarrow> True | _ \<Rightarrow> False)"

text \<open>The assertions of the header.\<close>

lemma header_assertions:
  "\<not> IsArray (ScalarT I32)" "IsArray (ArrT 10 (ScalarT I32))" "\<not> IsArray (OptT (ScalarT I32))"
  "\<not> IsOptional (ScalarT I32)" "\<not> IsOptional (ArrT 10 (ScalarT I32))" "IsOptional (OptT (ScalarT I32))"
  "IsPair (PairT (ScalarT I32) (ScalarT I8))"
  by (simp_all add: IsArray_def IsOptional_def IsPair_def)

subsection \<open>Specialisations\<close>

text \<open>
  The conditions that are not traits of the header come from the standard library and
  from the concepts for containers: arithmetic types, enumerations, \<^verbatim>\<open>SequenceContainer\<close>,
  \<^verbatim>\<open>AssociativeContainer\<close> and classes derived from \<^verbatim>\<open>Serializable\<close>.
\<close>

datatype specialisation =
  ForArithmetic | ForPair | ForOptional | ForSequence | ForAssociative | ForEnum | ForArray | ForSerializable

definition matches_specialisation :: "specialisation \<Rightarrow> ty \<Rightarrow> bool" where
  "matches_specialisation s t =
     (case s of
        ForArithmetic \<Rightarrow> (case t of ScalarT x \<Rightarrow> True | _ \<Rightarrow> False)
      | ForPair \<Rightarrow> IsPair t
      | ForOptional \<Rightarrow> IsOptional t
      | ForSequence \<Rightarrow> (case t of SeqT u \<Rightarrow> True | _ \<Rightarrow> False)
      | ForAssociative \<Rightarrow> (case t of SetT u \<Rightarrow> True | MapT k u \<Rightarrow> True | _ \<Rightarrow> False)
      | ForEnum \<Rightarrow> (case t of EnumT x \<Rightarrow> True | _ \<Rightarrow> False)
      | ForArray \<Rightarrow> IsArray t
      | ForSerializable \<Rightarrow> (case t of ObjT ts \<Rightarrow> True | _ \<Rightarrow> False))"

text \<open>No type is ambiguous, and none is left without a specialisation.\<close>

lemmas specialisation_simps = matches_specialisation_def IsPair_def IsOptional_def IsArray_def

lemma one_specialisation: "\<exists>!s. matches_specialisation s t"
proof -
  have same: "s = s'" if "matches_specialisation s t" "matches_specialisation s' t" for s s'
    using that by (cases t; cases s; cases s') (simp_all add: specialisation_simps)
  have "\<exists>s. matches_specialisation s t"
  proof (cases t)
    case (ScalarT x)
    then show ?thesis by (intro exI [of _ ForArithmetic]) (simp add: specialisation_simps)
  next
    case (EnumT x)
    then show ?thesis by (intro exI [of _ ForEnum]) (simp add: specialisation_simps)
  next
    case (PairT a b)
    then show ?thesis by (intro exI [of _ ForPair]) (simp add: specialisation_simps)
  next
    case (OptT u)
    then show ?thesis by (intro exI [of _ ForOptional]) (simp add: specialisation_simps)
  next
    case (SeqT u)
    then show ?thesis by (intro exI [of _ ForSequence]) (simp add: specialisation_simps)
  next
    case (ArrT n u)
    then show ?thesis by (intro exI [of _ ForArray]) (simp add: specialisation_simps)
  next
    case (ObjT ts)
    then show ?thesis by (intro exI [of _ ForSerializable]) (simp add: specialisation_simps)
  qed (rule exI [of _ ForAssociative], simp add: specialisation_simps)+
  then show ?thesis using same by blast
qed

end
