(* ===== verification/Container_Concepts.thy ===== *)
theory Container_Concepts
  imports Type_Traits
begin

text \<open>
  \<^verbatim>\<open>base/concepts.hpp\<close>: which classes the serializers take for sequences, for associative
  containers and for maps.  The compiler is a parameter: what it says of types, members
  and expressions.  An expression that does not compile has no type.
\<close>

record 'ty compiler =
  is_convertible :: "'ty \<Rightarrow> 'ty \<Rightarrow> bool"
  static_cast :: "'ty \<Rightarrow> 'ty \<Rightarrow> bool"
  is_swappable :: "'ty \<Rightarrow> bool"
  is_base_of :: "'ty \<Rightarrow> 'ty \<Rightarrow> bool"
  member_type :: "'ty \<Rightarrow> string \<Rightarrow> 'ty option"
  iterator_category :: "'ty \<Rightarrow> 'ty option"
  iterator_difference :: "'ty \<Rightarrow> 'ty option"
  remove_reference :: "'ty \<Rightarrow> 'ty"
  ref_to :: "'ty \<Rightarrow> 'ty"
  const_of :: "'ty \<Rightarrow> 'ty"
  pair_of :: "'ty \<Rightarrow> 'ty \<Rightarrow> 'ty"
  bool_type :: 'ty
  void_type :: 'ty
  forward_iterator_tag :: 'ty
  max_of :: "'ty \<Rightarrow> int"
  equal_type :: "'ty \<Rightarrow> 'ty \<Rightarrow> 'ty option"
  unequal_type :: "'ty \<Rightarrow> 'ty \<Rightarrow> 'ty option"
  destroy_type :: "'ty \<Rightarrow> 'ty \<Rightarrow> 'ty option"
  call_type :: "'ty \<Rightarrow> string \<Rightarrow> 'ty list \<Rightarrow> 'ty option"
  construct_type :: "'ty \<Rightarrow> 'ty list \<Rightarrow> 'ty option"

subsection \<open>Concepts\<close>

definition ConvertibleTo :: "'ty compiler \<Rightarrow> 'ty \<Rightarrow> 'ty \<Rightarrow> bool" where
  "ConvertibleTo K from to \<longleftrightarrow> is_convertible K from to \<and> static_cast K from to"

definition Swappable :: "'ty compiler \<Rightarrow> 'ty \<Rightarrow> bool" where
  "Swappable K t \<longleftrightarrow> is_swappable K t"

text \<open>A requirement \<^verbatim>\<open>{ e } -> ConvertibleTo<bool>\<close>, for the type of \<open>e\<close>.\<close>

definition yields_bool :: "'ty compiler \<Rightarrow> 'ty option \<Rightarrow> bool" where
  "yields_bool K r = (case r of None \<Rightarrow> False | Some t \<Rightarrow> ConvertibleTo K t (bool_type K))"

definition WeaklyEqualityComparableWith :: "'ty compiler \<Rightarrow> 'ty \<Rightarrow> 'ty \<Rightarrow> bool" where
  "WeaklyEqualityComparableWith K t u \<longleftrightarrow>
     (let t = const_of K (remove_reference K t); u = const_of K (remove_reference K u)
      in yields_bool K (equal_type K t u) \<and> yields_bool K (unequal_type K t u)
        \<and> yields_bool K (equal_type K u t) \<and> yields_bool K (unequal_type K u t))"

definition Erasable :: "'ty compiler \<Rightarrow> 'ty \<Rightarrow> 'ty \<Rightarrow> bool" where
  "Erasable K t allocator \<longleftrightarrow> destroy_type K (remove_reference K allocator) t = Some (void_type K)"

definition EqualityComparable :: "'ty compiler \<Rightarrow> 'ty \<Rightarrow> bool" where
  "EqualityComparable K t \<longleftrightarrow> WeaklyEqualityComparableWith K t t"

definition is_forward :: "'ty compiler \<Rightarrow> 'ty \<Rightarrow> bool" where
  "is_forward K it =
     (case iterator_category K it of None \<Rightarrow> False | Some c \<Rightarrow> is_base_of K (forward_iterator_tag K) c)"

definition Container :: "'ty compiler \<Rightarrow> 'ty \<Rightarrow> bool" where
  "Container K C =
     (case (member_type K C ''value_type'', member_type K C ''allocator_type'', member_type K C ''reference'',
            member_type K C ''const_reference'', member_type K C ''iterator'', member_type K C ''const_iterator'',
            member_type K C ''difference_type'', member_type K C ''size_type'') of
        (Some T, Some allocator_type, Some reference, Some const_reference, Some iterator, Some const_iterator,
         Some difference_type, Some size_type) \<Rightarrow>
          EqualityComparable K C \<and> Swappable K C
          \<and> Erasable K T allocator_type
          \<and> reference = ref_to K T
          \<and> const_reference = ref_to K (const_of K T)
          \<and> is_forward K iterator
          \<and> is_convertible K iterator const_iterator
          \<and> is_forward K const_iterator
          \<and> iterator_difference K iterator = Some difference_type
          \<and> max_of K size_type \<ge> max_of K difference_type
          \<and> (let c = remove_reference K C
             in call_type K c ''begin'' [] = Some iterator
               \<and> call_type K (const_of K c) ''begin'' [] = Some const_iterator
               \<and> call_type K c ''end'' [] = Some iterator
               \<and> call_type K (const_of K c) ''end'' [] = Some const_iterator
               \<and> call_type K c ''cbegin'' [] = Some const_iterator
               \<and> call_type K c ''cend'' [] = Some const_iterator
               \<and> call_type K c ''size'' [] = Some size_type
               \<and> call_type K c ''max_size'' [] = Some size_type
               \<and> yields_bool K (call_type K c ''empty'' []))
      | _ \<Rightarrow> False)"

definition SequenceContainer :: "'ty compiler \<Rightarrow> 'ty \<Rightarrow> bool" where
  "SequenceContainer K C =
     (case (member_type K C ''value_type'', member_type K C ''size_type'') of
        (Some value_type, Some size_type) \<Rightarrow>
          Container K C \<and> construct_type K C [size_type, value_type] = Some C
      | _ \<Rightarrow> False)"

definition AssociativeContainer :: "'ty compiler \<Rightarrow> 'ty \<Rightarrow> bool" where
  "AssociativeContainer K C =
     (case (member_type K C ''key_type'', member_type K C ''value_type'', member_type K C ''iterator'',
            member_type K C ''const_iterator'', member_type K C ''size_type'') of
        (Some Key, Some value_type, Some iterator, Some const_iterator, Some size_type) \<Rightarrow>
          Container K C
          \<and> call_type K C ''insert'' [value_type] = Some (pair_of K iterator (bool_type K))
          \<and> call_type K C ''erase'' [Key] = Some size_type
          \<and> call_type K C ''find'' [Key] = Some iterator
          \<and> call_type K (const_of K C) ''find'' [Key] = Some const_iterator
          \<and> call_type K C ''count'' [Key] = Some size_type
          \<and> call_type K C ''contains'' [Key] = Some (bool_type K)
      | _ \<Rightarrow> False)"

definition HasMappedType :: "'ty compiler \<Rightarrow> 'ty \<Rightarrow> bool" where
  "HasMappedType K T \<longleftrightarrow> member_type K T ''mapped_type'' \<noteq> None"

definition MapConcept :: "'ty compiler \<Rightarrow> 'ty \<Rightarrow> bool" where
  "MapConcept K C \<longleftrightarrow> AssociativeContainer K C \<and> HasMappedType K C"

subsection \<open>Standard containers\<close>

text \<open>
  What the standard says of the containers the serializers are used with, over element
  types that can be compared: a \<^verbatim>\<open>multiset\<close> returns an iterator from \<^verbatim>\<open>insert\<close>, an \<^verbatim>\<open>array\<close>
  has no allocator.
\<close>

datatype cty =
    CInt | CBool | CVoid | CSize | CDifference | CForwardTag | CRandomTag
  | CRef cty | CConst cty | CPair cty cty | CAllocator cty
  | CIterator cty | CConstIterator cty
  | CVector cty | CSet cty | CMultiset cty | CUnorderedMap cty cty | CArray nat cty

text \<open>Value type, key type, mapped type and whether there is an allocator.\<close>

fun container_of :: "cty \<Rightarrow> (cty \<times> cty option \<times> cty option \<times> bool) option" where
  "container_of (CVector t) = Some (t, None, None, True)"
| "container_of (CSet t) = Some (t, Some t, None, True)"
| "container_of (CMultiset t) = Some (t, Some t, None, True)"
| "container_of (CUnorderedMap k t) = Some (CPair (CConst k) t, Some k, Some t, True)"
| "container_of (CArray n t) = Some (t, None, None, False)"
| "container_of _ = None"

fun unconst :: "cty \<Rightarrow> cty" where
  "unconst (CConst t) = t"
| "unconst t = t"

definition std_member :: "cty \<Rightarrow> string \<Rightarrow> cty option" where
  "std_member C name =
     (case container_of C of
        None \<Rightarrow> None
      | Some (t, key, mapped, alloc) \<Rightarrow>
          if name = ''value_type'' then Some t
          else if name = ''key_type'' then key
          else if name = ''mapped_type'' then mapped
          else if name = ''allocator_type'' then (if alloc then Some (CAllocator t) else None)
          else if name = ''reference'' then Some (CRef t)
          else if name = ''const_reference'' then Some (CRef (CConst t))
          else if name = ''iterator'' then Some (CIterator C)
          else if name = ''const_iterator'' then Some (CConstIterator C)
          else if name = ''difference_type'' then Some CDifference
          else if name = ''size_type'' then Some CSize
          else None)"

definition std_call :: "cty \<Rightarrow> string \<Rightarrow> cty list \<Rightarrow> cty option" where
  "std_call X f args =
     (let C = unconst X
      in case container_of C of
           None \<Rightarrow> None
         | Some (t, key, mapped, alloc) \<Rightarrow>
             if args = [] then
               (if f = ''begin'' \<or> f = ''end'' then Some (if X = C then CIterator C else CConstIterator C)
                else if f = ''cbegin'' \<or> f = ''cend'' then Some (CConstIterator C)
                else if f = ''size'' \<or> f = ''max_size'' then Some CSize
                else if f = ''empty'' then Some CBool else None)
             else if key = None then None
             else if f = ''insert'' \<and> args = [t] \<and> X = C
               then Some (if C = CMultiset t then CIterator C else CPair (CIterator C) CBool)
             else if args \<noteq> [the key] then None
             else if f = ''erase'' \<and> X = C \<or> f = ''count'' then Some CSize
             else if f = ''find'' then Some (if X = C then CIterator C else CConstIterator C)
             else if f = ''contains'' then Some CBool else None)"

definition standard :: "cty compiler" where
  "standard =
     \<lparr>is_convertible = (\<lambda>a b. a = b \<or> (\<exists>C. a = CIterator C \<and> b = CConstIterator C)),
      static_cast = (\<lambda>a b. a = b),
      is_swappable = (\<lambda>t. True),
      is_base_of = (\<lambda>a b. a = b \<or> a = CForwardTag \<and> b = CRandomTag),
      member_type = std_member,
      iterator_category = (\<lambda>i. case i of CIterator (CVector t) \<Rightarrow> Some CRandomTag
        | CConstIterator (CVector t) \<Rightarrow> Some CRandomTag
        | CIterator C \<Rightarrow> Some CForwardTag | CConstIterator C \<Rightarrow> Some CForwardTag | _ \<Rightarrow> None),
      iterator_difference = (\<lambda>i. case i of CIterator C \<Rightarrow> Some CDifference | CConstIterator C \<Rightarrow> Some CDifference | _ \<Rightarrow> None),
      remove_reference = (\<lambda>t. case t of CRef u \<Rightarrow> u | _ \<Rightarrow> t),
      ref_to = CRef, const_of = CConst, pair_of = CPair,
      bool_type = CBool, void_type = CVoid, forward_iterator_tag = CForwardTag,
      max_of = (\<lambda>t. if t = CSize then 2 ^ 64 - 1 else 2 ^ 63 - 1),
      equal_type = (\<lambda>a b. if a = b then Some CBool else None),
      unequal_type = (\<lambda>a b. if a = b then Some CBool else None),
      destroy_type = (\<lambda>a t. if a = CAllocator t then Some CVoid else None),
      call_type = std_call,
      construct_type = (\<lambda>C args. case C of CVector t \<Rightarrow> if args = [CSize, t] then Some C else None | _ \<Rightarrow> None)\<rparr>"

lemmas concept_defs = Container_def SequenceContainer_def AssociativeContainer_def HasMappedType_def MapConcept_def
  EqualityComparable_def WeaklyEqualityComparableWith_def Erasable_def ConvertibleTo_def Swappable_def
  yields_bool_def is_forward_def standard_def std_member_def std_call_def

lemma standard_containers:
  "Container standard (CVector t)" "Container standard (CSet t)" "Container standard (CMultiset t)"
  "Container standard (CUnorderedMap k t)" "\<not> Container standard (CArray n t)"
  by (simp_all add: concept_defs Let_def)

text \<open>The serializers' choice: each container has one kind at most; a \<^verbatim>\<open>multiset\<close> has none, so that it
  cannot be serialized, and an \<^verbatim>\<open>array\<close> is left to its own specialisation.\<close>

theorem concepts_choose:
  "SequenceContainer standard (CVector t)" "\<not> AssociativeContainer standard (CVector t)"
  "AssociativeContainer standard (CSet t)" "\<not> MapConcept standard (CSet t)" "\<not> SequenceContainer standard (CSet t)"
  "MapConcept standard (CUnorderedMap k t)" "\<not> SequenceContainer standard (CUnorderedMap k t)"
  "\<not> SequenceContainer standard (CMultiset t)" "\<not> AssociativeContainer standard (CMultiset t)"
  "\<not> SequenceContainer standard (CArray n t)" "\<not> AssociativeContainer standard (CArray n t)"
  by (simp_all add: concept_defs Let_def)

end
