(* ===== verification/Spec2Isabelle.thy ===== *)
theory Spec2Isabelle
  imports Message_Queue Message_Dispatcher PubSub_Channel Tcp_Transport Maybe_Result Task_Scheduler
    Messaging_Service Listenable Utilities Signal_Interceptor
    Scheduled_Tasks Tcp_Sessions Json_Serializer Guard_Model Handler_Mapping Container_Concepts
begin

text \<open>
  ISML is a C++ library for programs that exchange typed messages: messages with named
  fields, their binary form on the wire, sessions over transports that carry them,
  dispatchers and channels that hand them on, services that own all this, and the tasks and
  thread pools they run on.  This development models the library's own code (\<^verbatim>\<open>include/isml\<close>
  and \<^verbatim>\<open>src\<close>) and proves what makes it correct, and where the code falls short of
  that, what it does instead.

  \<^bold>\<open>Conventions.\<close>  Integers have their width (\<open>'a word\<close>, so that \<open>+\<close> wraps); identifiers of
  messages and sessions are 32-bit words; strings are lists of characters.  An operation that
  may throw returns an \<open>outcome\<close>: a value, a thrown exception with its class and payload, or
  a fault, which is what C++ leaves undefined or ends the program with (a null or dangling
  reference, an indeterminate value, a buffer overrun, a failed assertion,
  \<^verbatim>\<open>std::terminate\<close>).  An operation that changes state is an \<open>eff\<close>: a function from the
  state to an outcome and the state left behind, also by a throw.  Code that runs in several
  threads is a step relation whose steps are the accesses that other threads can separate.
  What is not in the repository (Boost.Asio, callbacks, subclasses the program supplies, the
  clock, the hash order of unordered maps) is a parameter.

  \<^bold>\<open>Parts and theories.\<close>  Paths are below \<^verbatim>\<open>include/isml\<close> and \<^verbatim>\<open>src\<close>.
  \<^item> Prelude (\<^verbatim>\<open>base_types.hpp\<close>), Exceptions (\<^verbatim>\<open>exceptions\<close>, \<^verbatim>\<open>message/exceptions\<close>), Effects:
    identifiers, association lists, the class hierarchy and what a handler catches, and the
    combinators for state, \<^verbatim>\<open>try\<close>, \<^verbatim>\<open>noexcept\<close> and loops that the other theories use.
  \<^item> Byte_Utils (\<^verbatim>\<open>base/byte.hpp\<close>), Serialization_Context, Binary_Serializer and
    Composite_Serializer (\<^verbatim>\<open>serialization\<close>): values in a universe of types closed under the
    type constructors of the overloads, the wire format, both byte orders and build modes, and
    the dispatch on the tag of a context.
  \<^item> Keyed_List, Message_Fields, Message_Model (\<^verbatim>\<open>message/field\<close>, \<^verbatim>\<open>message\<close>,
    \<^verbatim>\<open>message_descriptor\<close>, \<^verbatim>\<open>message_factory\<close>): a list with an index by name, field sets,
    messages, descriptors and the factory.
  \<^item> Message_Queue (\<^verbatim>\<open>message_queue\<close>): the queue, and its locked use by several threads.
  \<^item> Message_Filter, Message_Dispatcher, PubSub_Channel: filters and chains of them, handlers and
    delegation, subscriptions and publishing.
  \<^item> Service_Model, Transport_Model, Session_Model: services and their manager, transports and
    their registry, sessions and their manager.
  \<^item> Tcp_Transport (\<^verbatim>\<open>transport/tcp_transport\<close>): sending, receiving, requests and their expiry,
    as steps between the completions of reads and writes.
  \<^item> Url_Model (\<^verbatim>\<open>net\<close>): URLs; the regular expressions are terms of a matcher that backtracks
    like ECMAScript, with its captures.
  \<^item> Messaging_Service (\<^verbatim>\<open>messaging_service\<close>): connecting, which composes the registry, a
    factory and the session manager, and the two threads of start and stop.
  \<^item> Maybe_Result (\<^verbatim>\<open>base/maybe.hpp\<close>, \<^verbatim>\<open>base/result.hpp\<close>, \<^verbatim>\<open>utility/value_holder.hpp\<close>),
    Listenable (\<^verbatim>\<open>base/listenable.hpp\<close>), Utilities (\<^verbatim>\<open>utility\<close>), Signal_Interceptor (\<^verbatim>\<open>sys\<close>).
  \<^item> Task_Model, Thread_Pool, Task_Scheduler (\<^verbatim>\<open>task\<close>, \<^verbatim>\<open>executors\<close>): tasks with their shared
    state, the pool of workers around a condition variable, and the scheduler, whose queue is
    ordered by the time left and whose watcher hands actions to the pool.  Scheduler_Timing says
    when the scheduler starts its actions.
  \<^item> Pool_Tasks composes tasks and pool: submitting, workers inside \<^verbatim>\<open>perform\<close>, and threads
    that cancel and ask for results.  Scheduled_Tasks composes them with the scheduler, from
    \<^verbatim>\<open>schedule\<close> to the result.  Tcp_Sessions puts the TCP transports below sessions: a
    world of transports, the class that sessions and channels call, and the factory that
    \<^verbatim>\<open>connect\<close> finds.
  \<^item> Guard_Model (\<^verbatim>\<open>utility/guard.hpp\<close>), Handler_Mapping (\<^verbatim>\<open>utility/handler_mapping.hpp\<close>,
    \<^verbatim>\<open>utility/predicates.hpp\<close>), Type_Traits (\<^verbatim>\<open>base/type_traits.hpp\<close>), Container_Concepts
    (\<^verbatim>\<open>base/concepts.hpp\<close>), for a compiler that answers about types and expressions.
  \<^item> Json_Model (\<^verbatim>\<open>io/json_utils.hpp\<close>) and Json_Serializer (\<^verbatim>\<open>examples/custom_serializer\<close>): JSON
    values by the operations of a library outside the repository, with its laws as a
    hypothesis, the merge of two values, and the serializer of the example program.

  \<^bold>\<open>Interfaces.\<close>  A contract between parts is a locale, interpreted on the code's definitions:
  \<open>byte_swap\<close> (each width), \<open>codec\<close> (the binary serializer, alone and in a pack; field sets and
  messages rest on it), \<open>keyed_sequence\<close> (the list with an index), \<open>fifo\<close> (the queue),
  \<open>deciding_filters\<close>, \<open>optional_value\<close> (both kinds of Maybe, and Result), \<open>timed_queue\<close> (the
  scheduler's queue), \<open>startable_transport\<close> (what a session relies on when it is created,
  interpreted on the TCP transports), and \<open>stable\<close> (what all steps of a program preserve).
\<close>

text \<open>
  \<^bold>\<open>What the lemmas show.\<close>
  \<^item> Round trips: any value or message that one platform writes another reads back, bytes after
    it untouched; a plain URL is parsed back from its string; what a class writes into a JSON
    value it reads back.
  \<^item> Equivalence and refinement: serialization appends a declarative wire format; a field set is a
    finite map; the scheduler is a set of timers; the expression for URLs finds the parts that a
    scanner finds; Maybe is an option, and its \<^verbatim>\<open>map\<close> and \<^verbatim>\<open>bind\<close> are monadic.
  \<^item> Invariants over all reachable states: the two maps of pending requests agree and an answer
    never changes; sessions are filed under their identifiers; subscriptions are a set; services
    are balanced; listeners are not null.
  \<^item> Threads: the locked queue loses and reorders nothing; a task's operation runs at most once and
    never after its cancellation; the pool performs each action once and loses no wake-up; the
    scheduler starts nothing early unless a wake-up is spurious, and when nobody schedules or
    terminates it serves its queue within three sections per action, each action less than a
    millisecond late; actions on a guarded object take turns.
  \<^item> Composition: every task submitted to the pool is cancelled or leaves its result once, and a
    worker left alone gets there within six steps per action; a scheduled task runs once at most,
    not before its delay, and is completed by the watcher and then a worker; a session that \<^verbatim>\<open>connect\<close> opens
    over TCP writes exactly the frames it is given; publishing starts one write per active
    subscriber, of the frame of its own clone, which has the fields in the opposite order.
  \<^item> Termination: the pool's destructor finds all workers gone after a bounded number of
    steps; \<^verbatim>\<open>stop\<close> returns within three steps of the service's thread once that is in its loop.
  \<^item> Errors and bounds: what each failure leaves behind, identifiers that wrap, and the inputs for
    which the code goes wrong: containers of 65536 elements, messages of 65534 bytes, frames
    misread, a send during a write, a session left as a null entry, a lost termination, a delay
    that is ignored or waited for twice, a result that never comes.

  \<^bold>\<open>Bounds and fuel.\<close>  No definition uses fuel; the merge of JSON values, whose recursion nothing
  in the code bounds, is a partial function, shown to return on finite values.  Loops recurse on the data they walk; the
  searches for parameters of a URL shrink the string (a match is never empty), and the matcher
  repeats a part only after it consumed a character, as the standard requires of an empty
  iteration.  Widths are those of the source; \<^verbatim>\<open>std::size_t\<close> and the clock are numbers.

  \<^bold>\<open>Not modelled.\<close>  The text that \<^verbatim>\<open>what()\<close> assembles beyond the message; the header for the
  formatting library; macros, which act before compilation; the interface
  \<^verbatim>\<open>io/serializable.hpp\<close>, which nothing implements, and \<^verbatim>\<open>transport_listener.hpp\<close>, which nothing
  calls; the example's connection and its printing; the tests.  Sockets are represented by the
  writes started and the bytes read, the I/O context by its stopped flag and the handlers it
  runs, signal sets by the waits started.  Memory order is sequentially consistent.
\<close>

end
